(* ===== verification/Rmk_Prelude.thy ===== *)
theory Rmk_Prelude
  imports Main "HOL-Library.Word"
begin

section \<open>Prelude: machine types, error codes, checked memory and slot tables\<close>

text \<open>
  What every component of the library shares. C integers of a fixed width are words, byte
  buffers are lists of 8-bit words, a NULL-able pointer is an option. A C array access is
  \<open>rd\<close> or \<open>wr\<close>: \<open>None\<close> is an access outside the array, which C leaves undefined, so
  a model function that returns \<open>None\<close> has run into undefined behaviour and a theorem that it
  returns \<open>Some\<close> is a memory-safety statement. \<open>esp_err\<close> holds the error codes the sources
  return. The slot tables at the end are the fixed arrays of pointers
  (\<open>esp_rmaker_cmd_list\<close>, \<open>mqtt_data->subscriptions\<close>) with their first-match and
  first-free loops.
\<close>

type_synonym u8 = "8 word"
type_synonym u16 = "16 word"
type_synonym u32 = "32 word"
type_synonym i8 = "8 word"
type_synonym bytes = "8 word list"

text \<open>The error codes of the sources; \<open>ESP_ERR_OTHER\<close> is any other code a platform call returns.\<close>

datatype esp_err =
    ESP_OK
  | ESP_FAIL
  | ESP_ERR_NO_MEM
  | ESP_ERR_INVALID_ARG
  | ESP_ERR_INVALID_STATE
  | ESP_ERR_INVALID_SIZE
  | ESP_ERR_NOT_SUPPORTED
  | ESP_ERR_NOT_FINISHED
  | ESP_ERR_OTHER int

named_theorems mem_simps \<open>bounds-checked memory access\<close>
named_theorems slot_simps \<open>slot tables\<close>

subsection \<open>Integer conversions\<close>

text \<open>The targets are 32-bit: \<open>size_t\<close> arithmetic is modulo \<open>2 ^ 32\<close>, and a \<open>size_t\<close> passed as
  an \<open>int\<close> keeps its bit pattern.\<close>

definition usize :: "nat \<Rightarrow> nat" where
  "usize n = n mod 2 ^ 32"

definition c_int :: "nat \<Rightarrow> int" where
  "c_int n = (let m = int (usize n) in if m < 2 ^ 31 then m else m - 2 ^ 32)"

lemma usize_small [simp]: "n < 2 ^ 32 \<Longrightarrow> usize n = n"
  by (simp add: usize_def)

lemma usize_less: "usize n < 2 ^ 32"
  by (simp add: usize_def)

lemma c_int_small [simp]: "n < 2 ^ 31 \<Longrightarrow> c_int n = int n"
  by (simp add: c_int_def)

lemma less_uint [simp]: "x < 0 \<Longrightarrow> x < uint w"
  using uint_nonnegative [of w] by linarith

lemma uint_u8_le: "uint (w :: u8) \<le> 255"
  using uint_bounded [of w] by simp

lemma uint_255_u8 [simp]: "uint (255 :: u8) = 255"
  by simp

lemma uint_of_nat_u8: "n < 256 \<Longrightarrow> uint (of_nat n :: u8) = int n"
  by (simp add: uint_word_of_int unsigned_of_nat take_bit_nat_eq_self)

subsection \<open>Checked memory\<close>

definition rd :: "'a list \<Rightarrow> int \<Rightarrow> 'a option" where
  "rd buf i = (if 0 \<le> i \<and> i < int (length buf) then Some (buf ! nat i) else None)"

definition wr :: "'a list \<Rightarrow> int \<Rightarrow> 'a \<Rightarrow> 'a list option" where
  "wr buf i x = (if 0 \<le> i \<and> i < int (length buf) then Some (buf[nat i := x]) else None)"

definition rd_n :: "'a list \<Rightarrow> int \<Rightarrow> int \<Rightarrow> 'a list option" where
  "rd_n buf i n =
     (if 0 \<le> i \<and> 0 \<le> n \<and> i + n \<le> int (length buf) then Some (take (nat n) (drop (nat i) buf)) else None)"

definition wr_n :: "'a list \<Rightarrow> int \<Rightarrow> 'a list \<Rightarrow> 'a list option" where
  "wr_n buf i xs =
     (if 0 \<le> i \<and> i + int (length xs) \<le> int (length buf)
      then Some (take (nat i) buf @ xs @ drop (nat i + length xs) buf) else None)"

lemma rd_drop [mem_simps]: "rd buf (int c) = (case drop c buf of [] \<Rightarrow> None | x # _ \<Rightarrow> Some x)"
proof (cases "c < length buf")
  case True
  then have "drop c buf = buf ! c # drop (Suc c) buf"
    by (rule Cons_nth_drop_Suc [symmetric])
  with True show ?thesis by (simp add: rd_def)
next
  case False
  then show ?thesis by (simp add: rd_def)
qed

lemma length_wr: "wr buf i x = Some buf' \<Longrightarrow> length buf' = length buf"
  by (auto simp: wr_def split: if_splits)

lemma length_wr_n: "wr_n buf i xs = Some buf' \<Longrightarrow> length buf' = length buf"
  by (auto simp: wr_n_def split: if_splits)

lemma wr_append [mem_simps]: "wr (pre @ y # post) (int (length pre)) x = Some (pre @ x # post)"
  by (simp add: wr_def)

lemma wr_n_append [mem_simps]:
  "length ys = length xs \<Longrightarrow> wr_n (pre @ ys @ post) (int (length pre)) xs = Some (pre @ xs @ post)"
  by (simp add: wr_n_def)

subsection \<open>Slot tables\<close>

text \<open>
  A fixed array of pointers with NULL for a free slot. \<open>find_slot\<close> is the loop
  \<open>for (i = 0; i < N; i++) if (t[i] && P(t[i])) return i\<close>, \<open>free_slot\<close> the loop that looks for
  the first NULL.
\<close>

type_synonym 'a slots = "'a option list"

fun find_slot :: "('a \<Rightarrow> bool) \<Rightarrow> 'a slots \<Rightarrow> nat option" where
  "find_slot P [] = None"
| "find_slot P (s # ss) =
     (if (case s of Some x \<Rightarrow> P x | None \<Rightarrow> False) then Some 0 else map_option Suc (find_slot P ss))"

fun free_slot :: "'a slots \<Rightarrow> nat option" where
  "free_slot [] = None"
| "free_slot (s # ss) = (if s = None then Some 0 else map_option Suc (free_slot ss))"

fun entries :: "'a slots \<Rightarrow> 'a list" where
  "entries [] = []"
| "entries (s # ss) = (case s of Some x \<Rightarrow> x # entries ss | None \<Rightarrow> entries ss)"

lemma entries_append [slot_simps]: "entries (xs @ ys) = entries xs @ entries ys"
  by (induction xs) (auto split: option.splits)

lemma entries_map [slot_simps]: "entries (map (map_option f) t) = map f (entries t)"
  by (induction t) (auto split: option.splits)

lemma set_entries: "x \<in> set (entries t) \<longleftrightarrow> Some x \<in> set t"
  by (induction t) (auto split: option.splits)

lemma entries_empty: "entries t = [] \<longleftrightarrow> (\<forall>x \<in> set t. x = None)"
  by (induction t) (auto split: option.splits)

lemma find_slot_SomeD:
  "find_slot P t = Some i \<Longrightarrow> i < length t \<and> (\<exists>x. t ! i = Some x \<and> P x)"
  by (induction t arbitrary: i) (auto split: if_splits option.splits)

lemma find_slot_first: "find_slot P t = Some i \<Longrightarrow> \<forall>x \<in> set (entries (take i t)). \<not> P x"
  by (induction t arbitrary: i) (auto split: if_splits option.splits)

lemma find_slot_None: "find_slot P t = None \<longleftrightarrow> (\<forall>x \<in> set (entries t). \<not> P x)"
  by (induction t) (auto split: option.splits)

lemma free_slot_SomeD: "free_slot t = Some i \<Longrightarrow> i < length t \<and> t ! i = None"
  by (induction t arbitrary: i) (auto split: if_splits)

lemma free_slot_None: "free_slot t = None \<longleftrightarrow> None \<notin> set t"
  by (induction t) auto

lemma slots_split:
  assumes "i < length t"
  shows "t = take i t @ t ! i # drop (Suc i) t"
  using assms by (rule id_take_nth_drop)

lemma entries_fill:
  assumes "i < length t" and "t ! i = None"
  shows "\<exists>as bs. entries t = as @ bs \<and> entries (t[i := Some x]) = as @ x # bs"
proof (intro exI conjI)
  have "entries t = entries (take i t @ t ! i # drop (Suc i) t)"
    using slots_split [OF assms(1)] by simp
  then show "entries t = entries (take i t) @ entries (drop (Suc i) t)"
    using assms(2) by (simp add: slot_simps)
  show "entries (t[i := Some x]) = entries (take i t) @ x # entries (drop (Suc i) t)"
    using assms(1) by (simp add: upd_conv_take_nth_drop slot_simps)
qed

lemma entries_clear:
  assumes "i < length t" and "t ! i = Some x"
  shows "\<exists>as bs. entries t = as @ x # bs \<and> entries (t[i := None]) = as @ bs"
proof (intro exI conjI)
  have "entries t = entries (take i t @ t ! i # drop (Suc i) t)"
    using slots_split [OF assms(1)] by simp
  then show "entries t = entries (take i t) @ x # entries (drop (Suc i) t)"
    using assms(2) by (simp add: slot_simps)
  show "entries (t[i := None]) = entries (take i t) @ entries (drop (Suc i) t)"
    using assms(1) by (simp add: upd_conv_take_nth_drop slot_simps)
qed

end
