(* ===== verification/Tlv.thy ===== *)
theory Tlv
  imports Rmk_Prelude "HOL-Library.Monad_Syntax"
begin

section \<open>The TLV8 codec of the command-response framework\<close>

text \<open>
  Models the helpers of \<open>components/rmaker_cmd_resp/src/cmd_resp.c\<close>: little-endian 16-bit
  access, the two decoders (\<open>esp_rmaker_get_tlv_length\<close>, \<open>esp_rmaker_get_value_from_tlv\<close>), the
  encoder \<open>esp_rmaker_add_tlv\<close> and the size estimate \<open>esp_rmaker_get_tlv_encoded_size\<close>.
  The loops are index loops over checked buffers: \<open>None\<close> is an access outside a buffer. The
  specification is \<open>tlv_frag\<close>, the byte string one TLV stands for: values longer than 255
  bytes are split into fragments of the same type, every fragment but the last of length 255.
\<close>

subsection \<open>Little-endian access\<close>

definition get_u16_le :: "bytes \<Rightarrow> u16 option" where
  "get_u16_le p = do {
     a \<leftarrow> rd p 0;
     b \<leftarrow> rd p 1;
     Some (or (ucast a) (push_bit 8 (ucast b)))
   }"

definition put_u16_le :: "bytes \<Rightarrow> u16 \<Rightarrow> bytes option" where
  "put_u16_le p v = do {
     p1 \<leftarrow> wr p 0 (and (ucast v) 0xff);
     wr p1 1 (and (ucast (drop_bit 8 v)) 0xff)
   }"

subsection \<open>Decoders\<close>

function get_tlv_length_loop :: "bytes \<Rightarrow> u8 \<Rightarrow> int \<Rightarrow> int \<Rightarrow> int \<Rightarrow> bool \<Rightarrow> int option" where
  "get_tlv_length_loop buf ty buflen curlen val_len found =
     (if buflen > 0 then
        (case rd buf curlen of
           None \<Rightarrow> None
         | Some t \<Rightarrow>
             if t = ty then
               (case rd buf (curlen + 1) of
                  None \<Rightarrow> None
                | Some len \<Rightarrow>
                    if buflen - uint len < 2 then Some (-1)
                    else if uint len < 255 then Some (val_len + uint len)
                    else get_tlv_length_loop buf ty (buflen - (2 + uint len)) (curlen + (2 + uint len))
                           (val_len + uint len) True)
             else if found then Some val_len
             else
               (case rd buf (curlen + 1) of
                  None \<Rightarrow> None
                | Some len \<Rightarrow>
                    get_tlv_length_loop buf ty (buflen - (2 + uint len)) (curlen + (2 + uint len))
                      val_len found))
      else if found then Some val_len
      else Some (-1))"
  by pat_completeness auto
termination
  by (relation "measure (\<lambda>(buf, ty, buflen, curlen, val_len, found). nat buflen)")
    (auto simp: nat_less_iff add_pos_nonneg)

declare get_tlv_length_loop.simps [simp del]

definition esp_rmaker_get_tlv_length :: "bytes option \<Rightarrow> int \<Rightarrow> u8 \<Rightarrow> int option" where
  "esp_rmaker_get_tlv_length buf buflen ty =
     (case buf of
        None \<Rightarrow> Some (-1)
      | Some b \<Rightarrow> get_tlv_length_loop b ty buflen 0 0 False)"

function get_value_loop ::
  "bytes \<Rightarrow> u8 \<Rightarrow> int \<Rightarrow> int \<Rightarrow> int \<Rightarrow> bool \<Rightarrow> bytes \<Rightarrow> int \<Rightarrow> (int \<times> bytes) option" where
  "get_value_loop buf ty buflen curlen val_len found val val_size =
     (if buflen > 0 then
        (case rd buf curlen of
           None \<Rightarrow> None
         | Some t \<Rightarrow>
             if t = ty then
               (case rd buf (curlen + 1) of
                  None \<Rightarrow> None
                | Some len \<Rightarrow>
                    if val_size < uint len \<or> buflen - uint len < 2 then Some (-1, val)
                    else
                      (case rd_n buf (curlen + 2) (uint len) of
                         None \<Rightarrow> None
                       | Some xs \<Rightarrow>
                           (case wr_n val val_len xs of
                              None \<Rightarrow> None
                            | Some val' \<Rightarrow>
                                if uint len < 255 then Some (val_len + uint len, val')
                                else get_value_loop buf ty (buflen - (2 + uint len))
                                       (curlen + (2 + uint len)) (val_len + uint len) True val'
                                       (val_size - uint len))))
             else if found then Some (val_len, val)
             else
               (case rd buf (curlen + 1) of
                  None \<Rightarrow> None
                | Some len \<Rightarrow>
                    get_value_loop buf ty (buflen - (2 + uint len)) (curlen + (2 + uint len))
                      val_len found val val_size))
      else if found then Some (val_len, val)
      else Some (-1, val))"
  by pat_completeness auto
termination
  by (relation "measure (\<lambda>(buf, ty, buflen, curlen, val_len, found, val, val_size). nat buflen)")
    (auto simp: nat_less_iff add_pos_nonneg)

declare get_value_loop.simps [simp del]

text \<open>Every caller passes the address of an object as \<open>val\<close>, so only the NULL check of \<open>buf\<close> is a branch.\<close>

definition esp_rmaker_get_value_from_tlv ::
  "bytes option \<Rightarrow> int \<Rightarrow> u8 \<Rightarrow> bytes \<Rightarrow> int \<Rightarrow> (int \<times> bytes) option" where
  "esp_rmaker_get_value_from_tlv buf buflen ty val val_size =
     (case buf of
        None \<Rightarrow> Some (-1, val)
      | Some b \<Rightarrow> get_value_loop b ty buflen 0 0 False val val_size)"

subsection \<open>Encoder\<close>

record tlv_data =
  tlv_bufptr :: "bytes option"
  tlv_bufsize :: int
  tlv_curlen :: int

definition esp_rmaker_tlv_data_init :: "bytes option \<Rightarrow> int \<Rightarrow> tlv_data" where
  "esp_rmaker_tlv_data_init buf buf_size =
     \<lparr>tlv_bufptr = buf, tlv_bufsize = buf_size, tlv_curlen = 0\<rparr>"

text \<open>The \<open>do ... while (len)\<close> loop: one fragment per round.\<close>

function add_tlv_loop :: "bytes \<Rightarrow> int \<Rightarrow> u8 \<Rightarrow> int \<Rightarrow> bytes \<Rightarrow> int \<Rightarrow> (bytes \<times> int) option" where
  "add_tlv_loop buf cur ty len src pos =
     (let tmp_len = (if len > 255 then 255 else len) in
      case wr buf cur ty of
        None \<Rightarrow> None
      | Some b1 \<Rightarrow>
          (case wr b1 (cur + 1) (word_of_int tmp_len) of
             None \<Rightarrow> None
           | Some b2 \<Rightarrow>
               (case rd_n src pos tmp_len of
                  None \<Rightarrow> None
                | Some xs \<Rightarrow>
                    (case wr_n b2 (cur + 2) xs of
                       None \<Rightarrow> None
                     | Some b3 \<Rightarrow>
                         if len - tmp_len \<noteq> 0
                         then add_tlv_loop b3 (cur + 2 + tmp_len) ty (len - tmp_len) src (pos + tmp_len)
                         else Some (b3, cur + 2 + tmp_len)))))"
  by pat_completeness auto
termination
  by (relation "measure (\<lambda>(buf, cur, ty, len, src, pos). nat len)") (auto split: if_splits)

declare add_tlv_loop.simps [simp del]

definition esp_rmaker_add_tlv ::
  "tlv_data \<Rightarrow> u8 \<Rightarrow> int \<Rightarrow> bytes option \<Rightarrow> (int \<times> tlv_data) option" where
  "esp_rmaker_add_tlv td ty len val =
     (case tlv_bufptr td of
        None \<Rightarrow> Some (-1, td)
      | Some buf \<Rightarrow>
          if len + 2 > tlv_bufsize td - tlv_curlen td then Some (-1, td)
          else if len > 0 \<and> val = None then Some (-1, td)
          else
            (case add_tlv_loop buf (tlv_curlen td) ty len (case val of None \<Rightarrow> [] | Some v \<Rightarrow> v) 0 of
               None \<Rightarrow> None
             | Some (buf', cur') \<Rightarrow>
                 Some (cur' - tlv_curlen td, td\<lparr>tlv_bufptr := Some buf', tlv_curlen := cur'\<rparr>)))"

definition esp_rmaker_get_tlv_encoded_size :: "nat \<Rightarrow> nat" where
  "esp_rmaker_get_tlv_encoded_size len =
     (let required_packets = usize (len div 255 + 1);
          TL_size = usize (2 * required_packets);
          V_size = usize (usize ((required_packets - 1) * 255) + len mod 255)
      in usize (TL_size + V_size))"

subsection \<open>Specification: the byte string of a TLV\<close>

function tlv_frag :: "u8 \<Rightarrow> bytes \<Rightarrow> bytes" where
  "tlv_frag ty v =
     (if length v \<le> 255 then ty # of_nat (length v) # v
      else ty # 255 # take 255 v @ tlv_frag ty (drop 255 v))"
  by pat_completeness auto
termination
  by (relation "measure (\<lambda>(ty, v). length v)") auto

declare tlv_frag.simps [simp del]

definition tlv_stream :: "(u8 \<times> bytes) list \<Rightarrow> bytes" where
  "tlv_stream ts = concat (map (\<lambda>(ty, v). tlv_frag ty v) ts)"

lemma tlv_stream_simps [simp]:
  "tlv_stream [] = []"
  "tlv_stream ((ty, v) # ts) = tlv_frag ty v @ tlv_stream ts"
  "tlv_stream (ts @ us) = tlv_stream ts @ tlv_stream us"
  by (simp_all add: tlv_stream_def)

lemma tlv_frag_Cons: "\<exists>w ws. tlv_frag ty v = ty # w # ws"
  by (subst tlv_frag.simps) simp

lemma hd_tlv_frag [simp]: "hd (tlv_frag ty v) = ty"
  using tlv_frag_Cons [of ty v] by auto

lemma tlv_frag_not_Nil [simp]: "tlv_frag ty v \<noteq> []"
  using tlv_frag_Cons [of ty v] by auto

lemma length_tlv_frag_short: "length v \<le> 255 \<Longrightarrow> length (tlv_frag ty v) = 2 + length v"
  by (subst tlv_frag.simps) simp

lemma length_tlv_frag_le: "length (tlv_frag ty v) \<le> 2 * (length v div 255 + 1) + length v"
proof (induction ty v rule: tlv_frag.induct)
  case (1 ty v)
  show ?case
  proof (cases "length v \<le> 255")
    case True
    then show ?thesis by (simp add: length_tlv_frag_short)
  next
    case False
    then have "length v div 255 = Suc ((length v - 255) div 255)"
      by (simp add: le_div_geq)
    with False 1 [OF False] show ?thesis
      by (subst tlv_frag.simps) simp
  qed
qed

lemma encoded_size_eq:
  assumes "len < 2 ^ 31"
  shows "esp_rmaker_get_tlv_encoded_size len = 2 * (len div 255 + 1) + len"
proof -
  have "len div 255 * 255 + len mod 255 = len" by simp
  moreover have "len div 255 \<le> len" by simp
  ultimately show ?thesis
    using assms by (simp add: esp_rmaker_get_tlv_encoded_size_def Let_def)
qed

subsection \<open>Access at an offset\<close>

lemma wr_append1 [mem_simps]:
  "wr (pre @ y0 # y # post) (int (length pre) + 1) x = Some (pre @ y0 # x # post)"
  using wr_append [of "pre @ [y0]" y post x] by (simp add: add.commute)

lemma wr_n_append2 [mem_simps]:
  "length ys = length xs \<Longrightarrow>
     wr_n (pre @ a # b # ys @ post) (int (length pre) + 2) xs = Some (pre @ a # b # xs @ post)"
  using wr_n_append [of ys xs "pre @ [a, b]" post] by (simp add: add.commute)

lemma rd_append [mem_simps]: "rd (pre @ y # post) (int (length pre)) = Some y"
  by (simp add: rd_drop)

lemma rd_append1 [mem_simps]: "rd (pre @ y0 # y # post) (int (length pre) + 1) = Some y"
  using rd_append [of "pre @ [y0]" y post] by (simp add: add.commute)

lemma rd_n_append [mem_simps]:
  "n = int (length ys) \<Longrightarrow> rd_n (pre @ ys @ post) (int (length pre)) n = Some ys"
  by (simp add: rd_n_def)

lemma rd_n_append2 [mem_simps]:
  "n = int (length ys) \<Longrightarrow> rd_n (pre @ a # b # ys @ post) (int (length pre) + 2) n = Some ys"
  using rd_n_append [of n ys "pre @ [a, b]" post] by (simp add: add.commute)

lemma list_split2:
  assumes "length xs = 2 + n"
  obtains a b ys where "xs = a # b # ys" and "length ys = n"
  using assms by (metis One_nat_def Suc_1 add_Suc length_Suc_conv plus_1_eq_Suc)

subsection \<open>The encoder writes the specified bytes\<close>

lemma add_tlv_loop_spec:
  assumes "length mid = length (tlv_frag ty v)"
  shows "add_tlv_loop (pre @ mid @ post) (int (length pre)) ty (int (length v)) (spre @ v @ spost)
           (int (length spre))
         = Some (pre @ tlv_frag ty v @ post, int (length pre + length (tlv_frag ty v)))"
  using assms
proof (induction ty v arbitrary: pre mid spre rule: tlv_frag.induct)
  case (1 ty v)
  show ?case
  proof (cases "length v \<le> 255")
    case True
    then have frag: "tlv_frag ty v = ty # of_nat (length v) # v"
      by (simp add: tlv_frag.simps)
    obtain a b ys where mid: "mid = a # b # ys" and ys: "length ys = length v"
      using "1.prems" frag by (auto simp: length_Suc_conv)
    show ?thesis
      using True ys rd_n_append [of "int (length v)" v spre spost]
      by (subst add_tlv_loop.simps) (simp add: mid frag mem_simps Let_def)
  next
    case False
    let ?r = "tlv_frag ty (drop 255 v)"
    have frag: "tlv_frag ty v = ty # 255 # take 255 v @ ?r"
      using False by (subst tlv_frag.simps) simp
    obtain a b zs where mid: "mid = a # b # zs" and zs: "length zs = 255 + length ?r"
      by (rule list_split2 [of mid "255 + length ?r"]) (use "1.prems" frag False in auto)
    define ys mid' where "ys = take 255 zs" and "mid' = drop 255 zs"
    have mid2: "mid = a # b # ys @ mid'" and ys: "length ys = 255" and mid': "length mid' = length ?r"
      using mid zs by (simp_all add: ys_def mid'_def)
    have tk: "length (take 255 v) = 255" using False by simp
    have IH: "add_tlv_loop ((pre @ ty # 255 # take 255 v) @ mid' @ post)
        (int (length (pre @ ty # 255 # take 255 v))) ty (int (length (drop 255 v)))
        ((spre @ take 255 v) @ drop 255 v @ spost) (int (length (spre @ take 255 v)))
      = Some ((pre @ ty # 255 # take 255 v) @ ?r @ post,
          int (length (pre @ ty # 255 # take 255 v) + length ?r))"
      by (rule "1.IH" [OF False mid'])
    have vw: "take 255 v @ drop 255 v @ spost = v @ spost"
      by (simp flip: append_assoc)
    have src: "rd_n (spre @ v @ spost) (int (length spre)) 255 = Some (take 255 v)"
      using rd_n_append [of 255 "take 255 v" spre "drop 255 v @ spost"] tk by (simp add: vw)
    have dst: "wr_n (pre @ ty # 255 # ys @ mid' @ post) (int (length pre) + 2) (take 255 v)
        = Some (pre @ ty # 255 # take 255 v @ mid' @ post)"
      using wr_n_append2 [of ys "take 255 v" pre ty 255 "mid' @ post"] ys tk by simp
    show ?thesis
      using False IH [unfolded append_assoc vw] src dst tk
      by (subst add_tlv_loop.simps) (simp add: mid2 frag mem_simps Let_def add.commute [of 257 "int (length pre)"] add.assoc)
  qed
qed

text \<open>
  One call: the bytes go where the cursor is, the rest of the buffer stays. \<open>tlv_at td d r\<close>: the bytes
  \<open>d\<close> have been written, the bytes \<open>r\<close> are the room that is left.
\<close>

definition tlv_at :: "tlv_data \<Rightarrow> bytes \<Rightarrow> bytes \<Rightarrow> bool" where
  "tlv_at td d r \<longleftrightarrow> tlv_bufptr td = Some (d @ r) \<and> tlv_curlen td = int (length d) \<and>
     tlv_bufsize td = int (length (d @ r))"

lemma length_tlv_frag_ge: "length v + 2 \<le> length (tlv_frag ty v)"
  by (induction ty v rule: tlv_frag.induct) (subst tlv_frag.simps, auto)

lemma add_tlv_at:
  assumes "tlv_at td d r" and "length (tlv_frag ty v) \<le> length r"
  shows "\<exists>td'. esp_rmaker_add_tlv td ty (int (length v)) (Some (v @ junk)) = Some (int (length (tlv_frag ty v)), td') \<and>
    tlv_at td' (d @ tlv_frag ty v) (drop (length (tlv_frag ty v)) r)"
proof -
  let ?n = "length (tlv_frag ty v)"
  have "\<not> int (length v) + 2 > tlv_bufsize td - tlv_curlen td"
    using assms length_tlv_frag_ge [of v ty] by (simp add: tlv_at_def)
  moreover have "add_tlv_loop (d @ take ?n r @ drop ?n r) (int (length d)) ty (int (length v)) (v @ junk) 0
      = Some (d @ tlv_frag ty v @ drop ?n r, int (length d + ?n))"
    using add_tlv_loop_spec [of "take ?n r" ty v d "drop ?n r" "[]" junk] assms(2) by simp
  ultimately show ?thesis
    using assms by (auto simp: esp_rmaker_add_tlv_def tlv_at_def)
qed

text \<open>A TLV that the remaining room cannot hold is refused and the buffer stays.\<close>

lemma add_tlv_full:
  assumes "tlv_at td d r" and "int (length r) < n + 2"
  shows "esp_rmaker_add_tlv td ty n val = Some (-1, td)"
  using assms by (simp add: esp_rmaker_add_tlv_def tlv_at_def)

subsection \<open>The decoders on a stream of TLVs\<close>

text \<open>One unfolding of each loop, on the three situations a position of the stream can be in.\<close>

lemma get_value_loop_end:
  "get_value_loop buf ty 0 c vl found val vs = Some (if found then vl else -1, val)"
  by (subst get_value_loop.simps) simp

lemma get_tlv_length_loop_end:
  "get_tlv_length_loop buf ty 0 c vl found = Some (if found then vl else -1)"
  by (subst get_tlv_length_loop.simps) simp

lemma get_value_loop_other:
  assumes "t \<noteq> ty"
  shows "get_value_loop (pre @ t # l # rest) ty (int (length (t # l # rest))) (int (length pre)) vl found val vs =
    (if found then Some (vl, val)
     else get_value_loop (pre @ t # l # rest) ty (int (length rest) - uint l)
            (int (length pre) + (2 + uint l)) vl False val vs)"
proof -
  have "int (length (t # l # rest)) - (2 + uint l) = int (length rest) - uint l" by simp
  with assms show ?thesis
    by (subst get_value_loop.simps) (simp add: mem_simps del: length_Cons)
qed

lemma get_tlv_length_loop_other:
  assumes "t \<noteq> ty"
  shows "get_tlv_length_loop (pre @ t # l # rest) ty (int (length (t # l # rest))) (int (length pre)) vl found =
    (if found then Some vl
     else get_tlv_length_loop (pre @ t # l # rest) ty (int (length rest) - uint l)
            (int (length pre) + (2 + uint l)) vl False)"
proof -
  have "int (length (t # l # rest)) - (2 + uint l) = int (length rest) - uint l" by simp
  with assms show ?thesis
    by (subst get_tlv_length_loop.simps) (simp add: mem_simps del: length_Cons)
qed

text \<open>A TLV of another type is skipped, fragment by fragment.\<close>

lemma get_value_skip:
  assumes "t \<noteq> ty"
  shows "get_value_loop (pre @ tlv_frag t v @ r) ty (int (length (tlv_frag t v @ r)))
           (int (length pre)) vl False val vs
         = get_value_loop (pre @ tlv_frag t v @ r) ty (int (length r))
             (int (length (pre @ tlv_frag t v))) vl False val vs"
  using assms
proof (induction t v arbitrary: pre rule: tlv_frag.induct)
  case (1 t v)
  show ?case
  proof (cases "length v \<le> 255")
    case True
    then have frag: "tlv_frag t v = t # of_nat (length v) # v"
      by (simp add: tlv_frag.simps)
    show ?thesis
      using True get_value_loop_other [OF "1.prems", of pre "of_nat (length v)" "v @ r" vl False val vs]
      by (simp add: frag uint_of_nat_u8 algebra_simps)
  next
    case False
    let ?p = "pre @ t # 255 # take 255 v"
    have frag: "tlv_frag t v = t # 255 # take 255 v @ tlv_frag t (drop 255 v)"
      using False by (subst tlv_frag.simps) simp
    have "get_value_loop (?p @ tlv_frag t (drop 255 v) @ r) ty
        (int (length (tlv_frag t (drop 255 v) @ r))) (int (length ?p)) vl False val vs
      = get_value_loop (?p @ tlv_frag t (drop 255 v) @ r) ty (int (length r))
          (int (length (?p @ tlv_frag t (drop 255 v)))) vl False val vs"
      by (rule "1.IH" [OF False "1.prems"])
    then show ?thesis
      using False get_value_loop_other [OF "1.prems", of pre 255 "take 255 v @ tlv_frag t (drop 255 v) @ r" vl False val vs]
      by (simp add: frag uint_255_u8 del: unsigned_numeral)
  qed
qed

lemma get_tlv_length_skip:
  assumes "t \<noteq> ty"
  shows "get_tlv_length_loop (pre @ tlv_frag t v @ r) ty (int (length (tlv_frag t v @ r)))
           (int (length pre)) vl False
         = get_tlv_length_loop (pre @ tlv_frag t v @ r) ty (int (length r))
             (int (length (pre @ tlv_frag t v))) vl False"
  using assms
proof (induction t v arbitrary: pre rule: tlv_frag.induct)
  case (1 t v)
  show ?case
  proof (cases "length v \<le> 255")
    case True
    then have frag: "tlv_frag t v = t # of_nat (length v) # v"
      by (simp add: tlv_frag.simps)
    show ?thesis
      using True get_tlv_length_loop_other [OF "1.prems", of pre "of_nat (length v)" "v @ r" vl False]
      by (simp add: frag uint_of_nat_u8 algebra_simps)
  next
    case False
    let ?p = "pre @ t # 255 # take 255 v"
    have frag: "tlv_frag t v = t # 255 # take 255 v @ tlv_frag t (drop 255 v)"
      using False by (subst tlv_frag.simps) simp
    have "get_tlv_length_loop (?p @ tlv_frag t (drop 255 v) @ r) ty
        (int (length (tlv_frag t (drop 255 v) @ r))) (int (length ?p)) vl False
      = get_tlv_length_loop (?p @ tlv_frag t (drop 255 v) @ r) ty (int (length r))
          (int (length (?p @ tlv_frag t (drop 255 v)))) vl False"
      by (rule "1.IH" [OF False "1.prems"])
    then show ?thesis
      using False get_tlv_length_loop_other [OF "1.prems", of pre 255 "take 255 v @ tlv_frag t (drop 255 v) @ r" vl False]
      by (simp add: frag uint_255_u8 del: unsigned_numeral)
  qed
qed

text \<open>The TLV asked for: its fragments are copied one after the other.\<close>

lemma get_value_stop:
  assumes "r = [] \<or> hd r \<noteq> ty" and "length r \<noteq> 1" and "c = int (length pre)"
  shows "get_value_loop (pre @ r) ty (int (length r)) c vl True val vs = Some (vl, val)"
proof (cases r)
  case Nil
  then show ?thesis by (simp add: get_value_loop_end)
next
  case (Cons t r')
  then obtain l r'' where "r = t # l # r''" using assms(2) by (cases r') auto
  then show ?thesis
    using assms(1,3) get_value_loop_other [of t ty pre l r'' vl True val vs] by simp
qed

lemma get_tlv_length_stop:
  assumes "r = [] \<or> hd r \<noteq> ty" and "length r \<noteq> 1" and "c = int (length pre)"
  shows "get_tlv_length_loop (pre @ r) ty (int (length r)) c vl True = Some vl"
proof (cases r)
  case Nil
  then show ?thesis by (simp add: get_tlv_length_loop_end)
next
  case (Cons t r')
  then obtain l r'' where "r = t # l # r''" using assms(2) by (cases r') auto
  then show ?thesis
    using assms(1,3) get_tlv_length_loop_other [of t ty pre l r'' vl True] by simp
qed

lemma get_value_loop_hit:
  assumes "length ys = length xs" and "uint l = int (length xs)" and "uint l \<le> vs"
  shows "get_value_loop (pre @ ty # l # xs @ r) ty (int (length (ty # l # xs @ r))) (int (length pre))
      (int (length wpre)) found (wpre @ ys @ wpost) vs =
    (if uint l < 255 then Some (int (length wpre) + uint l, wpre @ xs @ wpost)
     else get_value_loop (pre @ ty # l # xs @ r) ty (int (length r)) (int (length pre) + (2 + uint l))
       (int (length wpre) + uint l) True (wpre @ xs @ wpost) (vs - uint l))"
proof -
  have "int (length (ty # l # xs @ r)) - (2 + uint l) = int (length r)"
    and "\<not> int (length (ty # l # xs @ r)) - uint l < 2"
    using assms(2) by simp_all
  with assms show ?thesis
    by (subst get_value_loop.simps) (simp add: mem_simps del: length_Cons length_append)
qed

lemma get_tlv_length_loop_hit:
  assumes "uint l = int (length xs)"
  shows "get_tlv_length_loop (pre @ ty # l # xs @ r) ty (int (length (ty # l # xs @ r))) (int (length pre))
      vl found =
    (if uint l < 255 then Some (vl + uint l)
     else get_tlv_length_loop (pre @ ty # l # xs @ r) ty (int (length r)) (int (length pre) + (2 + uint l))
       (vl + uint l) True)"
proof -
  have "int (length (ty # l # xs @ r)) - (2 + uint l) = int (length r)"
    and "\<not> int (length (ty # l # xs @ r)) - uint l < 2"
    using assms by simp_all
  with assms show ?thesis
    by (subst get_tlv_length_loop.simps) (simp add: mem_simps del: length_Cons length_append)
qed

lemma get_value_take:
  assumes "r = [] \<or> hd r \<noteq> ty" and "length r \<noteq> 1"
    and "length ys = length v" and "int (length v) \<le> vs"
  shows "get_value_loop (pre @ tlv_frag ty v @ r) ty (int (length (tlv_frag ty v @ r)))
           (int (length pre)) (int (length wpre)) found (wpre @ ys @ wpost) vs
         = Some (int (length wpre + length v), wpre @ v @ wpost)"
  using assms
proof (induction ty v arbitrary: pre wpre ys vs found rule: tlv_frag.induct)
  case (1 ty v)
  show ?case
  proof (cases "length v \<le> 255")
    case True
    then have frag: "tlv_frag ty v = ty # of_nat (length v) # v"
      and len: "uint (of_nat (length v) :: u8) = int (length v)"
      by (simp_all add: tlv_frag.simps uint_of_nat_u8)
    show ?thesis
      using get_value_loop_hit [OF "1.prems"(3) len, of vs pre ty r wpre found wpost] len "1.prems"(4)
        get_value_stop [OF "1.prems"(1,2), of "int (length pre) + (2 + int (length v))" "pre @ ty # of_nat (length v) # v"]
      by (simp add: frag)
  next
    case False
    let ?p = "pre @ ty # 255 # take 255 v"
    have frag: "tlv_frag ty v = ty # 255 # take 255 v @ tlv_frag ty (drop 255 v)"
      using False by (subst tlv_frag.simps) simp
    have tk: "length (take 255 v) = 255" using False by simp
    have ysw: "take 255 ys @ drop 255 ys @ wpost = ys @ wpost"
      and vw: "take 255 v @ drop 255 v @ wpost = v @ wpost"
      by (simp_all flip: append_assoc)
    have IH: "get_value_loop (?p @ tlv_frag ty (drop 255 v) @ r) ty
        (int (length (tlv_frag ty (drop 255 v) @ r))) (int (length ?p)) (int (length (wpre @ take 255 v))) True
        ((wpre @ take 255 v) @ drop 255 ys @ wpost) (vs - 255)
      = Some (int (length (wpre @ take 255 v) + length (drop 255 v)),
          (wpre @ take 255 v) @ drop 255 v @ wpost)"
      by (rule "1.IH" [OF False "1.prems"(1,2)]) (use "1.prems" False in auto)
    have hit: "get_value_loop (pre @ ty # 255 # take 255 v @ tlv_frag ty (drop 255 v) @ r) ty
        (int (length (ty # 255 # take 255 v @ tlv_frag ty (drop 255 v) @ r))) (int (length pre))
        (int (length wpre)) found (wpre @ take 255 ys @ drop 255 ys @ wpost) vs
      = get_value_loop (pre @ ty # 255 # take 255 v @ tlv_frag ty (drop 255 v) @ r) ty
          (int (length (tlv_frag ty (drop 255 v) @ r))) (int (length pre) + 257) (int (length wpre) + 255) True
          (wpre @ take 255 v @ drop 255 ys @ wpost) (vs - 255)"
      using get_value_loop_hit [of "take 255 ys" "take 255 v" 255 vs pre ty "tlv_frag ty (drop 255 v) @ r"
          wpre found "drop 255 ys @ wpost"] "1.prems" False tk
      by simp
    show ?thesis
      using hit [unfolded ysw] IH [unfolded append_assoc vw] False tk by (simp add: frag)
  qed
qed

lemma get_tlv_length_take:
  assumes "r = [] \<or> hd r \<noteq> ty" and "length r \<noteq> 1"
  shows "get_tlv_length_loop (pre @ tlv_frag ty v @ r) ty (int (length (tlv_frag ty v @ r)))
           (int (length pre)) vl found
         = Some (vl + int (length v))"
  using assms
proof (induction ty v arbitrary: pre vl found rule: tlv_frag.induct)
  case (1 ty v)
  show ?case
  proof (cases "length v \<le> 255")
    case True
    then have frag: "tlv_frag ty v = ty # of_nat (length v) # v"
      and len: "uint (of_nat (length v) :: u8) = int (length v)"
      by (simp_all add: tlv_frag.simps uint_of_nat_u8)
    show ?thesis
      using get_tlv_length_loop_hit [OF len, of pre ty r vl found] len
        get_tlv_length_stop [OF "1.prems", of "int (length pre) + (2 + int (length v))" "pre @ ty # of_nat (length v) # v"]
      by (simp add: frag)
  next
    case False
    let ?p = "pre @ ty # 255 # take 255 v"
    have frag: "tlv_frag ty v = ty # 255 # take 255 v @ tlv_frag ty (drop 255 v)"
      using False by (subst tlv_frag.simps) simp
    have tk: "length (take 255 v) = 255" using False by simp
    have "get_tlv_length_loop (?p @ tlv_frag ty (drop 255 v) @ r) ty
        (int (length (tlv_frag ty (drop 255 v) @ r))) (int (length ?p)) (vl + 255) True
      = Some (vl + 255 + int (length (drop 255 v)))"
      by (rule "1.IH" [OF False "1.prems"])
    then show ?thesis
      using get_tlv_length_loop_hit [of 255 "take 255 v" pre ty "tlv_frag ty (drop 255 v) @ r" vl found] False tk
      by (simp add: frag)
  qed
qed


subsection \<open>Decoding a whole stream\<close>

lemma length_tlv_stream_not_1 [simp]: "length (tlv_stream ts) \<noteq> Suc 0"
proof (cases ts)
  case (Cons p ts')
  then show ?thesis
    using tlv_frag_Cons [of "fst p" "snd p"] by (cases p) auto
qed simp

lemma hd_tlv_stream: "ts \<noteq> [] \<Longrightarrow> hd (tlv_stream ts) = fst (hd ts)"
  by (cases ts) (auto simp: hd_append)

lemma tlv_stream_hd_other:
  assumes "ty \<notin> fst ` set ts"
  shows "tlv_stream ts = [] \<or> hd (tlv_stream ts) \<noteq> ty"
  using assms by (cases ts) (auto simp: hd_append)

lemma get_value_stream_aux:
  assumes "distinct (map fst ts)"
    and "\<And>v. map_of ts ty = Some v \<Longrightarrow> length v \<le> length val \<and> int (length v) \<le> vs"
  shows "get_value_loop (pre @ tlv_stream ts) ty (int (length (tlv_stream ts))) (int (length pre)) 0 False val vs
    = Some (case map_of ts ty of
        None \<Rightarrow> (-1, val)
      | Some v \<Rightarrow> (int (length v), v @ drop (length v) val))"
  using assms
proof (induction ts arbitrary: pre)
  case Nil
  then show ?case by (simp add: get_value_loop_end)
next
  case (Cons p ts)
  obtain t v where p: "p = (t, v)" by (cases p)
  show ?case
  proof (cases "t = ty")
    case True
    with Cons.prems p have other: "tlv_stream ts = [] \<or> hd (tlv_stream ts) \<noteq> ty"
      and fit: "length v \<le> length val" "int (length v) \<le> vs"
      by (auto intro!: tlv_stream_hd_other)
    show ?thesis
      using get_value_take [where ys = "take (length v) val" and wpost = "drop (length v) val" and wpre = "[]"
          and pre = pre and found = False, OF other _ _ fit(2)] fit(1) True p
      by simp
  next
    case False
    with Cons.prems p
    have "get_value_loop ((pre @ tlv_frag t v) @ tlv_stream ts) ty (int (length (tlv_stream ts)))
        (int (length (pre @ tlv_frag t v))) 0 False val vs
      = Some (case map_of ts ty of None \<Rightarrow> (-1, val) | Some v \<Rightarrow> (int (length v), v @ drop (length v) val))"
      by (intro Cons.IH) auto
    then show ?thesis
      using get_value_skip [OF False, of pre v "tlv_stream ts" 0 val vs] False p by simp
  qed
qed

lemma get_value_stream:
  assumes "distinct (map fst ts)"
    and "\<And>v. map_of ts ty = Some v \<Longrightarrow> length v \<le> length val \<and> int (length v) \<le> vs"
  shows "esp_rmaker_get_value_from_tlv (Some (tlv_stream ts)) (int (length (tlv_stream ts))) ty val vs
    = Some (case map_of ts ty of
        None \<Rightarrow> (-1, val)
      | Some v \<Rightarrow> (int (length v), v @ drop (length v) val))"
  using get_value_stream_aux [where pre = "[]", OF assms] by (simp add: esp_rmaker_get_value_from_tlv_def)

lemma get_value_found:
  assumes "distinct (map fst ts)" and "map_of ts ty = Some v" and "length v \<le> length val" and "int (length v) \<le> vs"
  shows "esp_rmaker_get_value_from_tlv (Some (tlv_stream ts)) (int (length (tlv_stream ts))) ty val vs
    = Some (int (length v), v @ drop (length v) val)"
  using get_value_stream [of ts ty val vs] assms by simp

lemma get_tlv_length_stream_aux:
  assumes "distinct (map fst ts)"
  shows "get_tlv_length_loop (pre @ tlv_stream ts) ty (int (length (tlv_stream ts))) (int (length pre)) 0 False
    = Some (case map_of ts ty of None \<Rightarrow> -1 | Some v \<Rightarrow> int (length v))"
  using assms
proof (induction ts arbitrary: pre)
  case Nil
  then show ?case by (simp add: get_tlv_length_loop_end)
next
  case (Cons p ts)
  obtain t v where p: "p = (t, v)" by (cases p)
  show ?case
  proof (cases "t = ty")
    case True
    with Cons.prems p have other: "tlv_stream ts = [] \<or> hd (tlv_stream ts) \<noteq> ty"
      by (auto intro!: tlv_stream_hd_other)
    show ?thesis
      using get_tlv_length_take [OF other, of pre v 0 False] True p by simp
  next
    case False
    with Cons.prems p
    have "get_tlv_length_loop ((pre @ tlv_frag t v) @ tlv_stream ts) ty (int (length (tlv_stream ts)))
        (int (length (pre @ tlv_frag t v))) 0 False
      = Some (case map_of ts ty of None \<Rightarrow> -1 | Some v \<Rightarrow> int (length v))"
      by (intro Cons.IH) auto
    then show ?thesis
      using get_tlv_length_skip [OF False, of pre v "tlv_stream ts" 0] False p by simp
  qed
qed

lemma get_tlv_length_stream:
  assumes "distinct (map fst ts)"
  shows "esp_rmaker_get_tlv_length (Some (tlv_stream ts)) (int (length (tlv_stream ts))) ty
    = Some (case map_of ts ty of None \<Rightarrow> -1 | Some v \<Rightarrow> int (length v))"
  using get_tlv_length_stream_aux [where pre = "[]", OF assms] by (simp add: esp_rmaker_get_tlv_length_def)

subsection \<open>What the decoders read and write, on any input\<close>

lemma rd_Some: "0 \<le> i \<Longrightarrow> i < int (length buf) \<Longrightarrow> rd buf i = Some (buf ! nat i)"
  by (simp add: rd_def)

lemma rd_n_Some:
  "0 \<le> i \<Longrightarrow> 0 \<le> n \<Longrightarrow> i + n \<le> int (length buf) \<Longrightarrow> rd_n buf i n = Some (take (nat n) (drop (nat i) buf))"
  by (simp add: rd_n_def)

lemma rd_n_Some_length:
  "0 \<le> i \<Longrightarrow> 0 \<le> n \<Longrightarrow> i + n \<le> int (length buf) \<Longrightarrow> \<exists>xs. rd_n buf i n = Some xs \<and> length xs = nat n"
  by (auto simp: rd_n_def min_def nat_le_iff)

lemma uint_u8_nonneg [simp]: "0 \<le> uint (w :: u8)"
  by simp

text \<open>
  One byte more than the announced length has to be readable; then no read is outside the buffer,
  and the value buffer is changed in its first \<open>val_size\<close> bytes only.
\<close>

lemma get_tlv_length_loop_safe:
  assumes "0 \<le> c" and "c + buflen < int (length buf)" and "0 \<le> vl"
  shows "\<exists>r. get_tlv_length_loop buf ty buflen c vl found = Some r \<and> -1 \<le> r \<and> r \<le> vl + max 0 buflen"
  using assms
proof (induction buf ty buflen c vl found rule: get_tlv_length_loop.induct)
  case (1 buf ty buflen c vl found)
  let ?t = "buf ! nat c" and ?l = "buf ! nat (c + 1)"
  obtain L where L: "uint ?l = L" "0 \<le> L" by simp
  show ?case
  proof (cases "buflen > 0")
    case True
    have rds: "rd buf c = Some ?t" "rd buf (c + 1) = Some ?l"
      using True "1.prems" by (auto intro!: rd_Some)
    have next1: "\<exists>r. get_tlv_length_loop buf ty (buflen - (2 + L)) (c + (2 + L)) (vl + L) True
        = Some r \<and> -1 \<le> r \<and> r \<le> vl + L + max 0 (buflen - (2 + L))"
      if "?t = ty" "\<not> buflen - L < 2" "\<not> L < 255"
      using "1.IH"(1) [OF True rds(1) that(1) rds(2)] that "1.prems" L by auto
    have next2: "\<exists>r. get_tlv_length_loop buf ty (buflen - (2 + L)) (c + (2 + L)) vl found
        = Some r \<and> -1 \<le> r \<and> r \<le> vl + max 0 (buflen - (2 + L))"
      if "?t \<noteq> ty" "\<not> found"
      using "1.IH"(2) [OF True rds(1) that rds(2)] that "1.prems" L by auto
    show ?thesis
      using True rds "1.prems" L next1 next2
      by (subst get_tlv_length_loop.simps) (auto simp: L(1))
  next
    case False
    then show ?thesis
      using "1.prems" by (subst get_tlv_length_loop.simps) auto
  qed
qed

lemma get_value_loop_safe:
  assumes "0 \<le> c" and "c + buflen < int (length buf)" and "0 \<le> vl" and "0 \<le> vs"
    and "vl + vs \<le> int (length val)"
  shows "\<exists>r val'. get_value_loop buf ty buflen c vl found val vs = Some (r, val') \<and> -1 \<le> r \<and> r \<le> vl + vs \<and>
    length val' = length val \<and> drop (nat (vl + vs)) val' = drop (nat (vl + vs)) val"
  using assms
proof (induction buf ty buflen c vl found val vs rule: get_value_loop.induct)
  case (1 buf ty buflen c vl found val vs)
  let ?t = "buf ! nat c" and ?l = "buf ! nat (c + 1)"
  obtain L where L: "uint ?l = L" "0 \<le> L" by simp
  show ?case
  proof (cases "buflen > 0")
    case True
    have rds: "rd buf c = Some ?t" "rd buf (c + 1) = Some ?l"
      using True "1.prems" by (auto intro!: rd_Some)
    show ?thesis
    proof (cases "?t = ty")
      case hit: True
      show ?thesis
      proof (cases "vs < L \<or> buflen - L < 2")
        case True
        then show ?thesis
          using \<open>buflen > 0\<close> hit rds "1.prems" by (subst get_value_loop.simps) (auto simp: L(1))
      next
        case False
        define xs where "xs = take (nat L) (drop (nat (c + 2)) buf)"
        define val1 where "val1 = take (nat vl) val @ xs @ drop (nat vl + length xs) val"
        have len_xs: "length xs = nat L"
          using False L(2) "1.prems" by (auto simp: xs_def min_def nat_le_iff)
        have rn: "rd_n buf (c + 2) L = Some xs"
          using False L(2) "1.prems" by (auto simp: rd_n_def xs_def)
        have wn: "wr_n val vl xs = Some val1"
          using False L(2) "1.prems" len_xs by (auto simp: wr_n_def val1_def)
        have v1: "length val1 = length val" "drop (nat (vl + vs)) val1 = drop (nat (vl + vs)) val"
          using False L(2) "1.prems" len_xs by (auto simp: val1_def)
        show ?thesis
        proof (cases "L < 255")
          case True
          then show ?thesis
            using \<open>buflen > 0\<close> hit rds rn wn v1 False L(2) "1.prems"
            by (subst get_value_loop.simps) (auto simp: L(1))
        next
          case big: False
          have "\<exists>r val'. get_value_loop buf ty (buflen - (2 + L)) (c + (2 + L)) (vl + L) True val1 (vs - L)
              = Some (r, val') \<and> -1 \<le> r \<and> r \<le> vl + L + (vs - L) \<and>
              length val' = length val1 \<and> drop (nat (vl + L + (vs - L))) val' = drop (nat (vl + L + (vs - L))) val1"
            using "1.IH"(1) [OF True rds(1) hit rds(2), unfolded L(1), OF False rn wn big] False L(2) "1.prems" v1
            by simp
          then show ?thesis
            using True hit rds rn wn v1 False big
            by (subst get_value_loop.simps) (auto simp: L(1))
        qed
      qed
    next
      case miss: False
      show ?thesis
      proof (cases found)
        case True
        then show ?thesis
          using \<open>buflen > 0\<close> miss rds "1.prems" by (subst get_value_loop.simps) auto
      next
        case False
        then show ?thesis
          using "1.IH"(2) [OF True rds(1) miss False rds(2)] True miss rds "1.prems" L
          by (subst get_value_loop.simps) auto
      qed
    qed
  next
    case False
    then show ?thesis
      using "1.prems" by (subst get_value_loop.simps) auto
  qed
qed

subsection \<open>The two decoders agree\<close>

lemma get_tlv_length_loop_mono:
  assumes "get_tlv_length_loop buf ty buflen c vl found = Some n" and "n \<noteq> -1"
  shows "vl \<le> n"
  using assms
proof (induction buf ty buflen c vl found rule: get_tlv_length_loop.induct)
  case (1 buf ty buflen c vl found)
  have step: "vl \<le> n" if "vl + uint l \<le> n" for l :: u8
    using that uint_u8_nonneg [of l] by linarith
  show ?case
    using "1.prems" "1.IH"
    by (subst (asm) get_tlv_length_loop.simps) (auto split: if_splits option.splits intro: step)
qed

lemma get_value_loop_agree:
  assumes "get_tlv_length_loop buf ty buflen c vl found = Some n" and "n \<noteq> -1"
    and "0 \<le> c" and "c + buflen \<le> int (length buf)" and "0 \<le> vl"
    and "n = vl + vs" and "vl + vs \<le> int (length val)"
  shows "\<exists>val'. get_value_loop buf ty buflen c vl found val vs = Some (n, val')"
  using assms
proof (induction buf ty buflen c vl found arbitrary: val vs rule: get_tlv_length_loop.induct)
  case (1 buf ty buflen c vl found)
  show ?case
  proof (cases "buflen > 0")
    case True
    then obtain t where t: "rd buf c = Some t"
      using "1.prems" by (auto simp: rd_def)
    show ?thesis
    proof (cases "t = ty")
      case hit: True
      then obtain l where l: "rd buf (c + 1) = Some l" and fit: "\<not> buflen - uint l < 2"
        using "1.prems"(1,2) True t by (subst (asm) get_tlv_length_loop.simps) (auto split: option.splits if_splits)
      obtain L where L: "uint l = L" "0 \<le> L" by simp
      have n: "n = vl + L" if "L < 255"
        using "1.prems"(1) True t hit l fit that L(1) by (subst (asm) get_tlv_length_loop.simps) simp
      have more: "get_tlv_length_loop buf ty (buflen - (2 + L)) (c + (2 + L)) (vl + L) True = Some n"
        if "\<not> L < 255"
        using "1.prems"(1) True t hit l fit that L(1) by (subst (asm) get_tlv_length_loop.simps) simp
      have vs: "L \<le> vs"
        using n get_tlv_length_loop_mono [OF more "1.prems"(2)] "1.prems"(6) by linarith
      have "c + 2 + L \<le> int (length buf)"
        using fit L(1) "1.prems"(4) by simp
      then obtain xs where rn: "rd_n buf (c + 2) L = Some xs" and len_xs: "length xs = nat L"
        using rd_n_Some_length [of "c + 2" L buf] L(2) "1.prems"(3) by auto
      obtain val1 where wn: "wr_n val vl xs = Some val1" and len1: "length val1 = length val"
        using vs L len_xs "1.prems"(5,7) by (auto simp: wr_n_def)
      have "\<exists>val'. get_value_loop buf ty (buflen - (2 + L)) (c + (2 + L)) (vl + L) True val1 (vs - L)
          = Some (n, val')" if "\<not> L < 255"
        using "1.IH"(1) [OF True t hit l fit, unfolded L(1), OF that more [OF that] "1.prems"(2), of "vs - L" val1]
          fit L "1.prems" len1 by simp
      then show ?thesis
        using True t hit l fit L vs rn wn n by (subst get_value_loop.simps) auto
    next
      case miss: False
      show ?thesis
      proof (cases found)
        case True
        then show ?thesis
          using \<open>buflen > 0\<close> t miss "1.prems"(1) by (subst (asm) get_tlv_length_loop.simps, subst get_value_loop.simps) auto
      next
        case False
        then obtain l where l: "rd buf (c + 1) = Some l"
          and rest: "get_tlv_length_loop buf ty (buflen - (2 + uint l)) (c + (2 + uint l)) vl found = Some n"
          using "1.prems"(1) True t miss by (subst (asm) get_tlv_length_loop.simps) (auto split: option.splits)
        obtain L where L: "uint l = L" "0 \<le> L" by simp
        show ?thesis
          using "1.IH"(2) [OF True t miss False l rest "1.prems"(2) _ _ "1.prems"(5,6,7)] "1.prems"(3,4) True t miss False l L
          by (subst get_value_loop.simps) auto
      qed
    qed
  next
    case False
    then show ?thesis
      using "1.prems"(1,2) by (subst (asm) get_tlv_length_loop.simps, subst get_value_loop.simps) (auto split: if_splits)
  qed
qed

subsection \<open>Properties of the codec\<close>

lemma get_value_skip_all:
  assumes "ty \<notin> fst ` set ts"
  shows "get_value_loop (pre @ tlv_stream ts @ r) ty (int (length (tlv_stream ts @ r))) (int (length pre)) vl False val vs
    = get_value_loop (pre @ tlv_stream ts @ r) ty (int (length r)) (int (length (pre @ tlv_stream ts))) vl False val vs"
  using assms
proof (induction ts arbitrary: pre)
  case (Cons p ts)
  obtain t v where p: "p = (t, v)" by (cases p)
  with Cons.prems have ne: "t \<noteq> ty" and rest: "ty \<notin> fst ` set ts" by auto
  show ?case
    using get_value_skip [OF ne, of pre v "tlv_stream ts @ r" vl val vs] Cons.IH [OF rest, of "pre @ tlv_frag t v"] p
    by simp
qed simp

text \<open>
  C15. Round trip of the TLV8 codec. On the byte string of any list of TLVs of different types
  (values of any length, those over 255 bytes fragmented), \<open>esp_rmaker_get_tlv_length\<close> and
  \<open>esp_rmaker_get_value_from_tlv\<close> return for every type exactly the value encoded for it, -1 when
  there is none, and leave the rest of the value buffer as it was.
\<close>

theorem tlv_decode_stream:
  assumes "distinct (map fst ts)"
    and "\<And>v. map_of ts ty = Some v \<Longrightarrow> length v \<le> length val \<and> int (length v) \<le> vs"
  shows "esp_rmaker_get_tlv_length (Some (tlv_stream ts)) (int (length (tlv_stream ts))) ty
      = Some (case map_of ts ty of None \<Rightarrow> -1 | Some v \<Rightarrow> int (length v)) \<and>
    esp_rmaker_get_value_from_tlv (Some (tlv_stream ts)) (int (length (tlv_stream ts))) ty val vs
      = Some (case map_of ts ty of None \<Rightarrow> (-1, val) | Some v \<Rightarrow> (int (length v), v @ drop (length v) val))"
  using get_tlv_length_stream [OF assms(1)] get_value_stream [OF assms] by blast

theorem tlv_decode_stream_witness:
  "esp_rmaker_get_value_from_tlv (Some (tlv_stream [(1, [65]), (6, replicate 300 7), (5, [1, 16])]))
      (int (length (tlv_stream [(1, [65]), (6, replicate 300 7), (5, [1, 16])]))) 6 (replicate 301 0) 301
    = Some (300, replicate 300 7 @ [0])"
  using tlv_decode_stream [of "[(1, [65]), (6, replicate 300 7), (5, [1, 16])]" 6 "replicate 301 0" 301]
  by simp

text \<open>
  C33. Memory safety of the decoders on arbitrary input. If one byte more than the announced length is
  readable and the value buffer has its announced size, no access is outside a buffer, both loops end,
  the result is -1 or a length not above the announced sizes, and nothing is written past
  \<open>val_size\<close>.
\<close>

theorem tlv_decode_safe:
  assumes "0 \<le> buflen" and "buflen < int (length b)" and "0 \<le> vs" and "vs \<le> int (length val)"
  shows "(\<exists>r. esp_rmaker_get_tlv_length (Some b) buflen ty = Some r \<and> -1 \<le> r \<and> r \<le> buflen) \<and>
    (\<exists>r val'. esp_rmaker_get_value_from_tlv (Some b) buflen ty val vs = Some (r, val') \<and> -1 \<le> r \<and> r \<le> vs \<and>
      length val' = length val \<and> drop (nat vs) val' = drop (nat vs) val)"
  using get_tlv_length_loop_safe [of 0 buflen b 0 ty False] get_value_loop_safe [of 0 buflen b 0 vs val ty False] assms
  by (simp add: esp_rmaker_get_tlv_length_def esp_rmaker_get_value_from_tlv_def)

theorem tlv_decode_safe_witness:
  "\<exists>r val'. esp_rmaker_get_value_from_tlv (Some [5, 9, 1, 1]) 3 5 [0, 0] 2 = Some (r, val') \<and> -1 \<le> r \<and> r \<le> 2 \<and>
    length val' = length [0, 0 :: u8] \<and> drop (nat 2) val' = drop (nat 2) [0, 0]"
  using tlv_decode_safe [of 3 "[5, 9, 1, 1]" 2 "[0, 0]" 5] by simp

text \<open>
  The two decoders agree on any input, malformed or not: when \<open>esp_rmaker_get_tlv_length\<close> reports a
  length, copying into a buffer of that size with \<open>esp_rmaker_get_value_from_tlv\<close> succeeds with the same
  length. This is what \<open>esp_rmaker_cmd_response_handler\<close> relies on when it allocates \<open>data_size\<close> bytes and
  ignores the result of the copy.
\<close>

theorem tlv_decoders_agree:
  assumes "esp_rmaker_get_tlv_length (Some b) buflen ty = Some n" and "n \<noteq> -1"
    and "buflen \<le> int (length b)" and "length val = nat n"
  shows "\<exists>val'. esp_rmaker_get_value_from_tlv (Some b) buflen ty val n = Some (n, val')"
proof -
  have loop: "get_tlv_length_loop b ty buflen 0 0 False = Some n"
    using assms(1) by (simp add: esp_rmaker_get_tlv_length_def)
  have "0 \<le> n" by (rule get_tlv_length_loop_mono [OF loop assms(2)])
  with get_value_loop_agree [OF loop assms(2) order_refl _ order_refl, of n val] assms(3,4) show ?thesis
    by (simp add: esp_rmaker_get_value_from_tlv_def)
qed

theorem tlv_decoders_agree_witness:
  "\<exists>val'. esp_rmaker_get_value_from_tlv (Some (tlv_stream [(6, replicate 256 3)])) 260 6 (replicate 256 0) 256 = Some (256, val')"
  using tlv_decoders_agree [of "tlv_stream [(6, replicate 256 3)]" 260 6 256 "replicate 256 0"]
    get_tlv_length_stream [of "[(6, replicate 256 3)]" 6]
  by (simp add: tlv_frag.simps)

text \<open>
  The decoders do read one byte past a buffer: on a well-formed stream followed by one stray byte, looking
  up a type that the stream does not hold reads the length byte that would follow the stray byte, outside the
  buffer.
\<close>

theorem tlv_decode_overread:
  assumes "ty \<notin> fst ` set ts"
  shows "esp_rmaker_get_value_from_tlv (Some (tlv_stream ts @ [x])) (int (length (tlv_stream ts @ [x]))) ty val vs = None"
proof -
  have "get_value_loop (tlv_stream ts @ [x]) ty 1 (int (length (tlv_stream ts))) 0 False val vs = None"
    using rd_append [of "tlv_stream ts" x "[]"]
    by (subst get_value_loop.simps) (simp add: rd_def)
  then show ?thesis
    using get_value_skip_all [OF assms, of "[]" "[x]" 0 val vs] by (simp add: esp_rmaker_get_value_from_tlv_def)
qed

theorem tlv_decode_overread_witness:
  "esp_rmaker_get_value_from_tlv (Some (tlv_stream [(1, [65])] @ [2])) (int (length (tlv_stream [(1, [65 :: u8])] @ [2 :: u8]))) 5 [0, 0] 2 = None"
  using tlv_decode_overread [of 5 "[(1, [65])]" 2 "[0, 0]" 2] by simp

end
