(* ===== verification/Keyed_Table.thy ===== *)
theory Keyed_Table
  imports Rmk_Prelude
begin

section \<open>Interface: a bounded table with unique keys\<close>

text \<open>
  The contract a fixed-size registration table keeps: at most one entry for a key, a registration is
  refused when the key is taken, when the table is full or when the entry cannot be allocated, a
  removal of a key that is not there is refused. The locale gives the contract as laws of the three
  operations; its client lemma is the refinement of a bounded finite map by any sequence of
  registrations and removals. The command table of \<open>cmd_resp.c\<close> is its instance in \<open>Cmd_Resp\<close>.
\<close>

datatype ('k, 'v) tab_op = Ins 'v bool | Del 'k

text \<open>A sequence of operations, each with its result.\<close>

fun run_ops :: "('o \<Rightarrow> 's \<Rightarrow> 'r \<times> 's) \<Rightarrow> 'o list \<Rightarrow> 's \<Rightarrow> 'r list \<times> 's" where
  "run_ops step [] s = ([], s)"
| "run_ops step (x # xs) s =
     (case step x s of (r, s1) \<Rightarrow> (case run_ops step xs s1 of (rs, s2) \<Rightarrow> (r # rs, s2)))"

text \<open>The abstract table: a finite map of at most \<open>cap\<close> keys.\<close>

fun abs_step :: "nat \<Rightarrow> ('v \<Rightarrow> 'k) \<Rightarrow> ('k, 'v) tab_op \<Rightarrow> ('k \<rightharpoonup> 'v) \<Rightarrow> esp_err \<times> ('k \<rightharpoonup> 'v)" where
  "abs_step cap key (Ins v alloc) m =
     (if m (key v) \<noteq> None then (ESP_FAIL, m)
      else if card (dom m) < cap \<and> alloc then (ESP_OK, m(key v \<mapsto> v))
      else (ESP_ERR_NO_MEM, m))"
| "abs_step cap key (Del k) m =
     (if m k = None then (ESP_ERR_INVALID_ARG, m) else (ESP_OK, m(k := None)))"

text \<open>One operation of a concrete table.\<close>

fun table_step ::
  "('v \<Rightarrow> bool \<Rightarrow> 't \<Rightarrow> esp_err \<times> 't) \<Rightarrow> ('k \<Rightarrow> 't \<Rightarrow> esp_err \<times> 't) \<Rightarrow> ('k, 'v) tab_op \<Rightarrow> 't \<Rightarrow> esp_err \<times> 't" where
  "table_step ins del (Ins v a) t = ins v a t"
| "table_step ins del (Del k) t = del k t"

locale keyed_table =
  fixes ok :: "'t \<Rightarrow> bool"
    and cap :: "'t \<Rightarrow> nat"
    and key :: "'v \<Rightarrow> 'k"
    and lookup :: "'k \<Rightarrow> 't \<Rightarrow> 'v option"
    and ins :: "'v \<Rightarrow> bool \<Rightarrow> 't \<Rightarrow> esp_err \<times> 't"
    and del :: "'k \<Rightarrow> 't \<Rightarrow> esp_err \<times> 't"
  assumes ins_dup: "ok t \<Longrightarrow> lookup (key v) t \<noteq> None \<Longrightarrow> ins v a t = (ESP_FAIL, t)"
    and ins_refused: "ok t \<Longrightarrow> lookup (key v) t = None \<Longrightarrow> \<not> (card (dom (\<lambda>k. lookup k t)) < cap t \<and> a) \<Longrightarrow>
      ins v a t = (ESP_ERR_NO_MEM, t)"
    and ins_new: "ok t \<Longrightarrow> lookup (key v) t = None \<Longrightarrow> card (dom (\<lambda>k. lookup k t)) < cap t \<Longrightarrow>
      \<exists>t'. ins v True t = (ESP_OK, t') \<and> ok t' \<and> cap t' = cap t \<and>
        (\<forall>k. lookup k t' = (if k = key v then Some v else lookup k t))"
    and del_miss: "ok t \<Longrightarrow> lookup k t = None \<Longrightarrow> del k t = (ESP_ERR_INVALID_ARG, t)"
    and del_hit: "ok t \<Longrightarrow> lookup k t \<noteq> None \<Longrightarrow>
      \<exists>t'. del k t = (ESP_OK, t') \<and> ok t' \<and> cap t' = cap t \<and>
        (\<forall>k'. lookup k' t' = (if k' = k then None else lookup k' t))"
begin

lemma step_refines:
  assumes "ok t" and "table_step ins del x t = (r, t')"
  shows "abs_step (cap t) key x (\<lambda>k. lookup k t) = (r, \<lambda>k. lookup k t') \<and> ok t' \<and> cap t' = cap t"
proof (cases x)
  case (Ins v a)
  consider "lookup (key v) t \<noteq> None"
    | "lookup (key v) t = None" "\<not> (card (dom (\<lambda>k. lookup k t)) < cap t \<and> a)"
    | "lookup (key v) t = None" "card (dom (\<lambda>k. lookup k t)) < cap t" a
    by blast
  then show ?thesis
  proof cases
    case 1
    then show ?thesis using ins_dup [OF assms(1), of v a] assms Ins by auto
  next
    case 2
    then show ?thesis using ins_refused [OF assms(1), of v a] assms Ins by auto
  next
    case 3
    then show ?thesis using ins_new [OF assms(1), of v] assms Ins by (auto simp: fun_eq_iff)
  qed
next
  case (Del k)
  show ?thesis
  proof (cases "lookup k t")
    case None
    then show ?thesis using del_miss [OF assms(1), of k] assms Del by auto
  next
    case (Some v)
    then show ?thesis using del_hit [OF assms(1), of k] assms Del by (auto simp: fun_eq_iff)
  qed
qed

lemma run_refines:
  assumes "ok t" and "run_ops (table_step ins del) xs t = (rs, t')"
  shows "run_ops (abs_step (cap t) key) xs (\<lambda>k. lookup k t) = (rs, \<lambda>k. lookup k t') \<and> ok t' \<and> cap t' = cap t"
  using assms
proof (induction xs arbitrary: t rs)
  case (Cons x xs)
  obtain r t1 where s1: "table_step ins del x t = (r, t1)" by (cases "table_step ins del x t")
  obtain rs1 where s2: "run_ops (table_step ins del) xs t1 = (rs1, t')" "rs = r # rs1"
    using Cons.prems s1 by (auto split: prod.splits)
  show ?case
    using step_refines [OF Cons.prems(1) s1] Cons.IH [of t1 rs1] s2 by (auto split: prod.splits)
qed simp

end

end
