(* ===== verification/Cmd_Resp.thy ===== *)
theory Cmd_Resp
  imports Tlv Keyed_Table
begin

section \<open>The command-response framework\<close>

text \<open>
  Models \<open>components/rmaker_cmd_resp/src/cmd_resp.c\<close> above the TLV codec: building a payload
  (\<open>esp_rmaker_cmd_prepare_payload\<close>), the command table (\<open>register\<close>, \<open>deregister\<close>, the lookup), the
  dispatcher \<open>esp_rmaker_cmd_response_handler\<close> with its role check, and the two testing functions.
  A registered handler is a function of the caller that may change the caller's world \<open>'w\<close>, the command
  context it gets a pointer to, and the response it hands back. \<open>None\<close> is undefined behaviour: an access
  outside a buffer, a string that is not terminated, a call of a NULL handler. Whether an allocation
  succeeds is an argument.
\<close>

subsection \<open>Roles, types and status codes\<close>

definition ESP_RMAKER_GET_USER_ROLE :: "u8 \<Rightarrow> u8" where
  "ESP_RMAKER_GET_USER_ROLE role = and role 0x0F"

text \<open>\<open>esp_rmaker_tlv_type_t\<close> and \<open>esp_rmaker_cmd_status_t\<close>.\<close>

definition TLV_REQ_ID :: u8 where "TLV_REQ_ID = 1"
definition TLV_USER_ROLE :: u8 where "TLV_USER_ROLE = 2"
definition TLV_STATUS :: u8 where "TLV_STATUS = 3"
definition TLV_TIMESTAMP :: u8 where "TLV_TIMESTAMP = 4"
definition TLV_CMD :: u8 where "TLV_CMD = 5"
definition TLV_DATA :: u8 where "TLV_DATA = 6"

lemmas tlv_types = TLV_REQ_ID_def TLV_USER_ROLE_def TLV_STATUS_def TLV_TIMESTAMP_def TLV_CMD_def TLV_DATA_def

definition STATUS_SUCCESS :: u8 where "STATUS_SUCCESS = 0"
definition STATUS_FAILED :: u8 where "STATUS_FAILED = 1"
definition STATUS_CMD_INVALID :: u8 where "STATUS_CMD_INVALID = 2"
definition STATUS_AUTH_FAIL :: u8 where "STATUS_AUTH_FAIL = 3"
definition STATUS_NOT_FOUND :: u8 where "STATUS_NOT_FOUND = 4"

definition esp_rmaker_get_user_role_string :: "u8 \<Rightarrow> string" where
  "esp_rmaker_get_user_role_string user_role =
     (let r = ESP_RMAKER_GET_USER_ROLE user_role in
      if r = 1 then ''Admin''
      else if r = 2 then ''Primary''
      else if r = 4 then ''Secondary''
      else if r = 8 then ''Node''
      else ''Invalid Role'')"

text \<open>\<open>strlen\<close> on an array: \<open>None\<close> when no byte of it is NUL.\<close>

fun c_strlen :: "bytes \<Rightarrow> nat option" where
  "c_strlen [] = None"
| "c_strlen (b # bs) = (if b = 0 then Some 0 else map_option Suc (c_strlen bs))"

subsection \<open>Building a payload\<close>

text \<open>One \<open>add_tlv\<close> of the chain: skipped when its guard is off, or once a call has failed (\<open>goto exit\<close>).\<close>

definition payload_add ::
  "bool \<Rightarrow> u8 \<Rightarrow> int \<Rightarrow> bytes option \<Rightarrow> int \<times> tlv_data \<Rightarrow> (int \<times> tlv_data) option" where
  "payload_add present ty len val st =
     (if fst st < 0 \<or> \<not> present then Some st else esp_rmaker_add_tlv (snd st) ty len val)"

definition payload_size :: "nat option \<Rightarrow> u8 \<Rightarrow> bool \<Rightarrow> nat \<Rightarrow> nat" where
  "payload_size req_len role has_data data_size =
     (let s0 = (case req_len of None \<Rightarrow> 0 | Some n \<Rightarrow> usize (0 + esp_rmaker_get_tlv_encoded_size n));
          s1 = (if role \<noteq> 0 then usize (s0 + esp_rmaker_get_tlv_encoded_size 1) else s0);
          s2 = usize (s1 + esp_rmaker_get_tlv_encoded_size 1);
          s3 = usize (s2 + esp_rmaker_get_tlv_encoded_size 2)
      in if has_data then usize (s3 + esp_rmaker_get_tlv_encoded_size data_size) else s3)"

text \<open>
  \<open>out_ptrs\<close>: both output pointers are non-NULL. \<open>req_id\<close> is the memory the pointer points to, with
  its terminator. The second component is what was stored through \<open>output\<close> and \<open>output_len\<close>.
\<close>

definition esp_rmaker_cmd_prepare_payload ::
  "bool \<Rightarrow> bytes option \<Rightarrow> u8 \<Rightarrow> u8 \<Rightarrow> u16 \<Rightarrow> bytes option \<Rightarrow> nat \<Rightarrow> bool
     \<Rightarrow> (esp_err \<times> (bytes \<times> int) option) option" where
  "esp_rmaker_cmd_prepare_payload alloc req_id role status cmd data data_size out_ptrs =
     (if \<not> out_ptrs then Some (ESP_ERR_INVALID_ARG, None)
      else do {
        req_len \<leftarrow> (case req_id of None \<Rightarrow> Some None | Some s \<Rightarrow> map_option Some (c_strlen s));
        let has_data = (data \<noteq> None \<and> data_size \<noteq> 0);
        let size = payload_size req_len role has_data data_size;
        if \<not> alloc then Some (ESP_ERR_NO_MEM, None)
        else do {
          let td = esp_rmaker_tlv_data_init (Some (replicate size 0)) (c_int size);
          st1 \<leftarrow> payload_add (req_id \<noteq> None) TLV_REQ_ID (c_int (case req_len of None \<Rightarrow> 0 | Some n \<Rightarrow> n)) req_id (0, td);
          st2 \<leftarrow> payload_add (role \<noteq> 0) TLV_USER_ROLE 1 (Some [role]) st1;
          st3 \<leftarrow> payload_add True TLV_STATUS 1 (Some [status]) st2;
          cmd_buf \<leftarrow> put_u16_le [0, 0] cmd;
          st4 \<leftarrow> payload_add True TLV_CMD 2 (Some cmd_buf) st3;
          st5 \<leftarrow> payload_add has_data TLV_DATA (c_int data_size) data st4;
          (if fst st5 < 0 then Some (ESP_FAIL, None)
           else (case tlv_bufptr (snd st5) of
                   None \<Rightarrow> None
                 | Some buf \<Rightarrow> Some (ESP_OK, Some (buf, tlv_curlen (snd st5)))))
        }
      })"

definition esp_rmaker_cmd_prepare_empty_response ::
  "bool \<Rightarrow> bool \<Rightarrow> (esp_err \<times> (bytes \<times> int) option) option" where
  "esp_rmaker_cmd_prepare_empty_response alloc out_ptrs =
     esp_rmaker_cmd_prepare_payload alloc (Some [0]) 0 0 0 None 0 out_ptrs"

subsection \<open>The command table\<close>

record cmd_ctx =
  ctx_cmd :: u16
  ctx_req_id :: bytes
  ctx_user_role :: u8
  ctx_timestamp :: u32

text \<open>A handler call: the data and its size, the context, the private pointer; back come the error code,
  the response pointer and size, the context as the handler left it, and the world.\<close>

type_synonym ('w, 'p) cmd_handler =
  "'w \<Rightarrow> bytes option \<Rightarrow> int \<Rightarrow> cmd_ctx \<Rightarrow> 'p \<Rightarrow> esp_err \<times> bytes option \<times> nat \<times> cmd_ctx \<times> 'w"

record ('w, 'p) cmd_info =
  ci_cmd :: u16
  ci_access :: u8
  ci_free_on_return :: bool
  ci_handler :: "('w, 'p) cmd_handler option"
  ci_priv :: 'p

type_synonym ('w, 'p) cmd_table = "('w, 'p) cmd_info slots"

definition esp_rmaker_cmd_register ::
  "u16 \<Rightarrow> u8 \<Rightarrow> ('w, 'p) cmd_handler option \<Rightarrow> bool \<Rightarrow> 'p \<Rightarrow> bool \<Rightarrow> ('w, 'p) cmd_table \<Rightarrow> esp_err \<times> ('w, 'p) cmd_table" where
  "esp_rmaker_cmd_register cmd access handler free_on_return priv alloc t =
     (if find_slot (\<lambda>i. ci_cmd i = cmd) t \<noteq> None then (ESP_FAIL, t)
      else case free_slot t of
        Some i \<Rightarrow>
          if \<not> alloc then (ESP_ERR_NO_MEM, t)
          else (ESP_OK, t[i := Some \<lparr>ci_cmd = cmd, ci_access = access, ci_free_on_return = free_on_return,
                                ci_handler = handler, ci_priv = priv\<rparr>])
      | None \<Rightarrow> (ESP_ERR_NO_MEM, t))"

definition esp_rmaker_get_cmd_info :: "u16 \<Rightarrow> ('w, 'p) cmd_table \<Rightarrow> ('w, 'p) cmd_info option" where
  "esp_rmaker_get_cmd_info cmd t =
     (case find_slot (\<lambda>i. ci_cmd i = cmd) t of Some i \<Rightarrow> t ! i | None \<Rightarrow> None)"

definition esp_rmaker_cmd_deregister :: "u16 \<Rightarrow> ('w, 'p) cmd_table \<Rightarrow> esp_err \<times> ('w, 'p) cmd_table" where
  "esp_rmaker_cmd_deregister cmd t =
     (case find_slot (\<lambda>i. ci_cmd i = cmd) t of
        Some i \<Rightarrow> (ESP_OK, t[i := None])
      | None \<Rightarrow> (ESP_ERR_INVALID_ARG, t))"

subsection \<open>The dispatcher\<close>

text \<open>What the dispatcher did: its return code, what it stored through the output pointers (nothing, or a
  pointer and a length), the world after it, and the buffers it freed.\<close>

record 'w cmd_result =
  cr_err :: esp_err
  cr_output :: "(bytes option \<times> int) option"
  cr_world :: 'w
  cr_freed :: "bytes list"

definition payload_result :: "'w \<Rightarrow> bytes list \<Rightarrow> esp_err \<times> (bytes \<times> int) option \<Rightarrow> 'w cmd_result" where
  "payload_result w freed r =
     \<lparr>cr_err = fst r, cr_output = map_option (\<lambda>(b, n). (Some b, n)) (snd r), cr_world = w, cr_freed = freed\<rparr>"

text \<open>The fields of the request: \<open>req_id\<close>, role, command and timestamp over a zeroed context.\<close>

definition parse_request :: "bytes option \<Rightarrow> int \<Rightarrow> cmd_ctx option" where
  "parse_request input input_len = do {
     (_, req) \<leftarrow> esp_rmaker_get_value_from_tlv input input_len TLV_REQ_ID (replicate 32 0) 32;
     (_, role) \<leftarrow> esp_rmaker_get_value_from_tlv input input_len TLV_USER_ROLE [0] 1;
     (_, cmd_buf) \<leftarrow> esp_rmaker_get_value_from_tlv input input_len TLV_CMD [0, 0] 2;
     cmd \<leftarrow> get_u16_le cmd_buf;
     (n, ts) \<leftarrow> esp_rmaker_get_value_from_tlv input input_len TLV_TIMESTAMP [0, 0, 0, 0] 4;
     Some \<lparr>ctx_cmd = cmd, ctx_req_id = req, ctx_user_role = hd role,
       ctx_timestamp =
         (if n = 4
          then or (or (or (ucast (ts ! 0)) (push_bit 8 (ucast (ts ! 1)))) (push_bit 16 (ucast (ts ! 2))))
                 (push_bit 24 (ucast (ts ! 3)))
          else 0)\<rparr>
   }"

text \<open>What follows the handler's return: build the response by its code, free the buffers.\<close>

fun finish_command ::
  "bool \<Rightarrow> bytes option \<Rightarrow> bool \<Rightarrow> bool \<Rightarrow> esp_err \<times> bytes option \<times> nat \<times> cmd_ctx \<times> 'w \<Rightarrow> 'w cmd_result option" where
  "finish_command free_on_return data out_alloc out_ptrs (err, response, response_size, ctx, w) =
     (let freed = (case response of Some r \<Rightarrow> (if free_on_return then [r] else []) | None \<Rightarrow> [])
                  @ (case data of Some d \<Rightarrow> [d] | None \<Rightarrow> [])
      in if err = ESP_ERR_NOT_FINISHED
         then (if out_ptrs
               then Some \<lparr>cr_err = ESP_OK, cr_output = Some (None, 0), cr_world = w, cr_freed = freed\<rparr>
               else None)
         else if err = ESP_OK
         then map_option (payload_result w freed)
                (esp_rmaker_cmd_prepare_payload out_alloc (Some (ctx_req_id ctx)) 0 STATUS_SUCCESS (ctx_cmd ctx)
                   response response_size out_ptrs)
         else map_option (payload_result w freed)
                (esp_rmaker_cmd_prepare_payload out_alloc (Some (ctx_req_id ctx)) 0 STATUS_FAILED (ctx_cmd ctx)
                   None 0 out_ptrs))"

text \<open>The branch of a permitted command: read the data, call the handler, finish.\<close>

definition run_command ::
  "('w, 'p) cmd_info \<Rightarrow> cmd_ctx \<Rightarrow> bytes option \<Rightarrow> int \<Rightarrow> bool \<Rightarrow> bool \<Rightarrow> bool \<Rightarrow> 'w \<Rightarrow> 'w cmd_result option" where
  "run_command info ctx input input_len data_alloc out_alloc out_ptrs w = do {
     n \<leftarrow> esp_rmaker_get_tlv_length input input_len TLV_DATA;
     if n > 0 \<and> \<not> data_alloc
     then Some \<lparr>cr_err = ESP_ERR_NO_MEM, cr_output = None, cr_world = w, cr_freed = []\<rparr>
     else do {
       data \<leftarrow> (if n > 0
                then map_option (\<lambda>(_, d). Some d)
                       (esp_rmaker_get_value_from_tlv input input_len TLV_DATA (replicate (nat n) 0) n)
                else Some None);
       h \<leftarrow> ci_handler info;
       finish_command (ci_free_on_return info) data out_alloc out_ptrs
         (h w data (if n > 0 then n else 0) ctx (ci_priv info))
     }
   }"

definition esp_rmaker_cmd_response_handler ::
  "('w, 'p) cmd_table \<Rightarrow> bytes option \<Rightarrow> nat \<Rightarrow> bool \<Rightarrow> bool \<Rightarrow> bool \<Rightarrow> 'w \<Rightarrow> 'w cmd_result option" where
  "esp_rmaker_cmd_response_handler t input input_len data_alloc out_alloc out_ptrs w = do {
     let reply = (\<lambda>ctx status. map_option (payload_result w [])
       (esp_rmaker_cmd_prepare_payload out_alloc (Some (ctx_req_id ctx)) 0 status (ctx_cmd ctx) None 0 out_ptrs));
     ctx \<leftarrow> parse_request input (c_int input_len);
     rlen \<leftarrow> c_strlen (ctx_req_id ctx);
     if rlen = 0 \<or> ctx_user_role ctx = 0 \<or> ctx_cmd ctx = 0 then reply ctx STATUS_CMD_INVALID
     else (case esp_rmaker_get_cmd_info (ctx_cmd ctx) t of
        Some info \<Rightarrow>
          if and (ci_access info) (ESP_RMAKER_GET_USER_ROLE (ctx_user_role ctx)) \<noteq> 0
          then run_command info ctx input (c_int input_len) data_alloc out_alloc out_ptrs w
          else reply ctx STATUS_AUTH_FAIL
      | None \<Rightarrow> reply ctx STATUS_NOT_FOUND)
   }"

subsection \<open>Testing functions\<close>

text \<open>\<open>junk\<close> is the uninitialised content of the 200-byte stack buffer.\<close>

definition esp_rmaker_cmd_resp_test_send ::
  "bytes \<Rightarrow> bytes option \<Rightarrow> u8 \<Rightarrow> u16 \<Rightarrow> bytes option \<Rightarrow> nat
     \<Rightarrow> (bytes \<Rightarrow> int \<Rightarrow> 'w \<Rightarrow> esp_err \<times> 'w) option \<Rightarrow> 'w \<Rightarrow> (esp_err \<times> 'w) option" where
  "esp_rmaker_cmd_resp_test_send junk req_id role cmd data data_size cmd_send w =
     (case cmd_send of
        None \<Rightarrow> Some (ESP_ERR_INVALID_ARG, w)
      | Some send \<Rightarrow> do {
          let td0 = esp_rmaker_tlv_data_init (Some junk) 200;
          td1 \<leftarrow> (case req_id of
                    None \<Rightarrow> Some td0
                  | Some s \<Rightarrow> do {
                      n \<leftarrow> c_strlen s;
                      map_option snd (esp_rmaker_add_tlv td0 TLV_REQ_ID (c_int n) (Some s)) });
          td2 \<leftarrow> map_option snd (esp_rmaker_add_tlv td1 TLV_USER_ROLE 1 (Some [role]));
          cmd_buf \<leftarrow> put_u16_le [0, 0] cmd;
          td3 \<leftarrow> map_option snd (esp_rmaker_add_tlv td2 TLV_CMD 2 (Some cmd_buf));
          td4 \<leftarrow> (if data \<noteq> None \<and> data_size \<noteq> 0
                  then map_option snd (esp_rmaker_add_tlv td3 TLV_DATA (c_int data_size) data)
                  else Some td3);
          buf \<leftarrow> tlv_bufptr td4;
          Some (send buf (tlv_curlen td4) w)
        })"

text \<open>What \<open>esp_rmaker_cmd_resp_parse_response\<close> logs. \<open>%s\<close> reads its argument up to the terminator.\<close>

datatype resp_log = LogReqId bytes | LogCmd u16 | LogStatus u8 string | LogData bytes

definition cmd_status :: "string list" where
  "cmd_status = [''Success'', ''Fail'', ''Invalid command data'', ''Auth fail'', ''Command not found'']"

definition c_str :: "bytes \<Rightarrow> bytes option" where
  "c_str b = map_option (\<lambda>n. take n b) (c_strlen b)"

definition esp_rmaker_cmd_resp_parse_response ::
  "bytes \<Rightarrow> bytes \<Rightarrow> bytes \<Rightarrow> bytes option \<Rightarrow> nat \<Rightarrow> (esp_err \<times> resp_log list) option" where
  "esp_rmaker_cmd_resp_parse_response cmd_junk status_junk data_junk response response_len =
     (if response = None then Some (ESP_ERR_INVALID_ARG, [])
      else do {
        let len = c_int response_len;
        (n1, req_id) \<leftarrow> esp_rmaker_get_value_from_tlv response len TLV_REQ_ID (replicate 32 0) 32;
        l1 \<leftarrow> (if n1 > 0 then map_option (\<lambda>s. [LogReqId s]) (c_str req_id) else Some []);
        (n2, cmd_buf) \<leftarrow> esp_rmaker_get_value_from_tlv response len TLV_CMD cmd_junk 2;
        l2 \<leftarrow> (if n2 > 0 then map_option (\<lambda>c. [LogCmd c]) (get_u16_le cmd_buf) else Some []);
        (n3, status) \<leftarrow> esp_rmaker_get_value_from_tlv response len TLV_STATUS status_junk 1;
        l3 \<leftarrow> (if n3 > 0
                then do { st \<leftarrow> rd status 0; name \<leftarrow> rd cmd_status (uint st); Some [LogStatus st name] }
                else Some []);
        (n4, resp_data) \<leftarrow> esp_rmaker_get_value_from_tlv response len TLV_DATA data_junk 200;
        l4 \<leftarrow> (if n4 > 0
                then do { d \<leftarrow> wr resp_data n4 0; map_option (\<lambda>s. [LogData s]) (c_str d) }
                else Some []);
        Some (ESP_OK, l1 @ l2 @ l3 @ l4)
      })"

subsection \<open>The payload is the specified stream\<close>

text \<open>The TLVs a payload consists of; an empty \<open>data\<close> stands for none.\<close>

definition u16_le :: "u16 \<Rightarrow> bytes" where
  "u16_le v = [ucast v, ucast (drop_bit 8 v)]"

definition payload_tlvs :: "bytes option \<Rightarrow> u8 \<Rightarrow> u8 \<Rightarrow> u16 \<Rightarrow> bytes \<Rightarrow> (u8 \<times> bytes) list" where
  "payload_tlvs req role status cmd data =
     (case req of None \<Rightarrow> [] | Some s \<Rightarrow> [(TLV_REQ_ID, s)]) @ (if role \<noteq> 0 then [(TLV_USER_ROLE, [role])] else [])
     @ [(TLV_STATUS, [status]), (TLV_CMD, u16_le cmd)] @ (if data \<noteq> [] then [(TLV_DATA, data)] else [])"

lemma length_u16_le [simp]: "length (u16_le v) = 2"
  by (simp add: u16_le_def)

lemma and_0xff_u8 [simp]: "and w 0xff = (w :: u8)"
proof -
  have "(0xff :: u8) = -1" by simp
  then show ?thesis by (simp only: and.right_neutral)
qed

lemma put_u16_le_eq: "put_u16_le [a, b] v = Some (u16_le v)"
  by (simp add: put_u16_le_def wr_def u16_le_def)

lemma get_u16_le_eq: "get_u16_le (u16_le v) = Some v"
  unfolding get_u16_le_def u16_le_def
  by (simp add: rd_def) (rule bit_word_eqI, auto simp: bit_simps)

lemma payload_add_at:
  assumes "0 \<le> fst st" and "tlv_at (snd st) d r" and "f = (if present then tlv_frag ty v else [])"
    and "length f \<le> length r" and "present \<Longrightarrow> n = int (length v) \<and> (\<exists>junk. val = Some (v @ junk))"
  shows "\<exists>st'. payload_add present ty n val st = Some st' \<and> 0 \<le> fst st' \<and>
    tlv_at (snd st') (d @ f) (drop (length f) r)"
proof (cases present)
  case True
  then obtain junk where "val = Some (v @ junk)" using assms(5) by blast
  then show ?thesis
    using True assms add_tlv_at [OF assms(2), of ty v junk] by (auto simp: payload_add_def)
next
  case False
  then show ?thesis
    using assms by (simp add: payload_add_def)
qed

lemma c_strlen_Some: "c_strlen m = Some n \<Longrightarrow> n < length m \<and> m ! n = 0 \<and> 0 \<notin> set (take n m)"
  by (induction m arbitrary: n) (auto split: if_splits)

lemma c_strlen_append: "0 \<notin> set s \<Longrightarrow> c_strlen (s @ 0 # r) = Some (length s)"
  by (induction s) auto

text \<open>The size estimate is large enough for the stream.\<close>

lemma payload_size_eq:
  assumes "\<And>n. req_len = Some n \<Longrightarrow> n < 2 ^ 29" and "data_size < 2 ^ 29"
  shows "payload_size req_len role has_data data_size =
    (case req_len of None \<Rightarrow> 0 | Some n \<Rightarrow> 2 * (n div 255 + 1) + n) + (if role \<noteq> 0 then 3 else 0) + 3 + 4
    + (if has_data then 2 * (data_size div 255 + 1) + data_size else 0)"
proof -
  have d: "data_size div 255 \<le> data_size" by simp
  have e1: "esp_rmaker_get_tlv_encoded_size 1 = 3" "esp_rmaker_get_tlv_encoded_size 2 = 4"
    by (simp_all add: encoded_size_eq)
  show ?thesis
  proof (cases req_len)
    case None
    then show ?thesis
      using assms d by (simp add: payload_size_def Let_def encoded_size_eq e1)
  next
    case (Some n)
    moreover have "n div 255 \<le> n" by simp
    ultimately show ?thesis
      using assms d by (simp add: payload_size_def Let_def encoded_size_eq e1)
  qed
qed

text \<open>\<open>c_mem req z\<close> is the memory of an optional C string; \<open>data_mem\<close> that of an optional data buffer.\<close>

definition c_mem :: "bytes option \<Rightarrow> bytes \<Rightarrow> bytes option" where
  "c_mem req z = map_option (\<lambda>s. s @ 0 # z) req"

definition data_mem :: "bytes option \<Rightarrow> nat \<Rightarrow> bytes \<Rightarrow> bool" where
  "data_mem data n d \<longleftrightarrow>
     (case data of None \<Rightarrow> d = [] | Some m \<Rightarrow> n \<le> length m \<and> d = take n m)"

lemma prepare_payload_spec:
  fixes role status :: u8 and cmd :: u16
  assumes req: "\<And>s. req = Some s \<Longrightarrow> 0 \<notin> set s \<and> length s < 2 ^ 29"
    and size: "data_size < 2 ^ 29" and data: "data_mem data data_size d"
  defines "stream \<equiv> tlv_stream (payload_tlvs req role status cmd d)"
  shows "\<exists>rest. esp_rmaker_cmd_prepare_payload True (c_mem req z) role status cmd data data_size True
      = Some (ESP_OK, Some (stream @ rest, int (length stream)))"
proof -
  let ?len = "case req of None \<Rightarrow> 0 | Some s \<Rightarrow> length s"
  let ?s = "case req of None \<Rightarrow> [] | Some s \<Rightarrow> s"
  let ?hd = "data \<noteq> None \<and> data_size \<noteq> 0"
  define size where "size = payload_size (map_option length req) role ?hd data_size"
  have d: "length d = (if data = None then 0 else data_size)" "?hd \<longleftrightarrow> d \<noteq> []"
    "?hd \<Longrightarrow> \<exists>junk. data = Some (d @ junk)"
    using data by (auto simp: data_mem_def intro: append_take_drop_id [symmetric] split: option.splits)
  have size_eq: "size = (case req of None \<Rightarrow> 0 | Some s \<Rightarrow> 2 * (length s div 255 + 1) + length s)
      + (if role \<noteq> 0 then 3 else 0) + 3 + 4 + (if ?hd then 2 * (data_size div 255 + 1) + data_size else 0)"
    unfolding size_def using req assms(2) by (subst payload_size_eq) (auto split: option.splits)
  have size_small: "size < 2 ^ 31"
  proof -
    have "2 * (n div 255 + 1) + n \<le> 2 ^ 30 + 1" if "n < 2 ^ 29" for n :: nat
      using that by (simp add: div_le_mono)
    then show ?thesis
      unfolding size_eq using req assms(2) by (auto split: option.splits)
  qed
  define f1 f2 f3 f4 f5 where
    "f1 = (if req \<noteq> None then tlv_frag TLV_REQ_ID ?s else [])"
    and "f2 = (if role \<noteq> 0 then tlv_frag TLV_USER_ROLE [role] else [])"
    and "f3 = (if True then tlv_frag TLV_STATUS [status] else [])"
    and "f4 = (if True then tlv_frag TLV_CMD (u16_le cmd) else [])"
    and "f5 = (if ?hd then tlv_frag TLV_DATA d else [])"
  have stream: "stream = f1 @ f2 @ f3 @ f4 @ f5"
    using d(2) by (auto simp: stream_def payload_tlvs_def f1_def f2_def f3_def f4_def f5_def split: option.splits)
  have lens: "length f1 \<le> (case req of None \<Rightarrow> 0 | Some s \<Rightarrow> 2 * (length s div 255 + 1) + length s)"
    "length f2 \<le> (if role \<noteq> 0 then 3 else 0)" "length f3 = 3" "length f4 = 4"
    "length f5 \<le> (if ?hd then 2 * (data_size div 255 + 1) + data_size else 0)"
    using length_tlv_frag_le [of TLV_DATA d] length_tlv_frag_le [of TLV_REQ_ID ?s] d(1)
    by (auto simp: f1_def f2_def f3_def f4_def f5_def length_tlv_frag_short split: option.splits)
  define td where "td = esp_rmaker_tlv_data_init (Some (replicate size 0)) (c_int size)"
  have td: "tlv_at td [] (replicate size 0)"
    using size_small by (simp add: td_def esp_rmaker_tlv_data_init_def tlv_at_def)
  let ?r = "replicate size (0 :: u8)"
  have fits: "length (f1 @ f2 @ f3 @ f4 @ f5) \<le> size"
    using lens unfolding size_eq by simp
  then have fit: "length f1 \<le> size" "length f2 \<le> size - length f1" "length f3 \<le> size - (length f1 + length f2)"
    "length f4 \<le> size - (length f1 + length f2 + length f3)"
    "length f5 \<le> size - (length f1 + length f2 + length f3 + length f4)"
    by simp_all
  obtain st1 where st1: "payload_add (req \<noteq> None) TLV_REQ_ID (int ?len) (c_mem req z) (0, td) = Some st1"
      "0 \<le> fst st1" "tlv_at (snd st1) f1 (drop (length f1) ?r)"
  proof -
    have "int ?len = int (length ?s) \<and> (\<exists>junk. c_mem req z = Some (?s @ junk))" if "req \<noteq> None"
      using that by (auto simp: c_mem_def)
    then show ?thesis
      using payload_add_at [OF _ _ f1_def, of "(0, td)" "[]" ?r "int ?len" "c_mem req z"] td fits that by auto
  qed
  obtain st2 where st2: "payload_add (role \<noteq> 0) TLV_USER_ROLE 1 (Some [role]) st1 = Some st2"
      "0 \<le> fst st2" "tlv_at (snd st2) (f1 @ f2) (drop (length f2) (drop (length f1) ?r))"
    using payload_add_at [OF st1(2,3) f2_def, of 1 "Some [role]"] fit by auto
  obtain st3 where st3: "payload_add True TLV_STATUS 1 (Some [status]) st2 = Some st3"
      "0 \<le> fst st3" "tlv_at (snd st3) ((f1 @ f2) @ f3) (drop (length f3) (drop (length f2) (drop (length f1) ?r)))"
    using payload_add_at [OF st2(2,3) f3_def, of 1 "Some [status]"] fit by auto
  obtain st4 where st4: "payload_add True TLV_CMD 2 (Some (u16_le cmd)) st3 = Some st4"
      "0 \<le> fst st4" "tlv_at (snd st4) (((f1 @ f2) @ f3) @ f4)
        (drop (length f4) (drop (length f3) (drop (length f2) (drop (length f1) ?r))))"
    using payload_add_at [OF st3(2,3) f4_def, of 2 "Some (u16_le cmd)"] fit by auto
  obtain st5 where st5: "payload_add ?hd TLV_DATA (int data_size) data st4 = Some st5"
      "0 \<le> fst st5" "tlv_at (snd st5) ((((f1 @ f2) @ f3) @ f4) @ f5)
        (drop (length f5) (drop (length f4) (drop (length f3) (drop (length f2) (drop (length f1) ?r)))))"
    using payload_add_at [OF st4(2,3) f5_def, of "int data_size" data] fit d by auto
  have strlen: "(case c_mem req z of None \<Rightarrow> Some None | Some s \<Rightarrow> map_option Some (c_strlen s))
      = Some (map_option length req)"
    using req by (auto simp: c_mem_def c_strlen_append split: option.splits)
  have len: "c_int (case map_option length req of None \<Rightarrow> 0 | Some n \<Rightarrow> n) = int ?len"
    using req by (auto split: option.splits)
  have data_int: "c_int data_size = int data_size"
    using assms(2) by simp
  have present: "c_mem req z \<noteq> None \<longleftrightarrow> req \<noteq> None"
    by (simp add: c_mem_def)
  have "esp_rmaker_cmd_prepare_payload True (c_mem req z) role status cmd data data_size True
      = (if fst st5 < 0 then Some (ESP_FAIL, None)
         else (case tlv_bufptr (snd st5) of
                 None \<Rightarrow> None
               | Some buf \<Rightarrow> Some (ESP_OK, Some (buf, tlv_curlen (snd st5)))))"
    using assms(2)
    by (simp only: esp_rmaker_cmd_prepare_payload_def strlen present Let_def size_def [symmetric] td_def [symmetric] len
        put_u16_le_eq bind.bind_lunit not_True_eq_False if_False st1(1) st2(1) st3(1) st4(1) st5(1) data_int)
  with st5(2,3) show ?thesis
    by (simp add: tlv_at_def stream)
qed

subsection \<open>The command table implements a bounded map\<close>

definition table_ok :: "('w, 'p) cmd_table \<Rightarrow> bool" where
  "table_ok t \<longleftrightarrow> distinct (map ci_cmd (entries t))"

definition register_entry :: "('w, 'p) cmd_info \<Rightarrow> bool \<Rightarrow> ('w, 'p) cmd_table \<Rightarrow> esp_err \<times> ('w, 'p) cmd_table" where
  "register_entry i = esp_rmaker_cmd_register (ci_cmd i) (ci_access i) (ci_handler i) (ci_free_on_return i) (ci_priv i)"

lemma lookup_entries:
  assumes "table_ok t"
  shows "esp_rmaker_get_cmd_info k t = map_of (map (\<lambda>i. (ci_cmd i, i)) (entries t)) k"
  using assms unfolding table_ok_def esp_rmaker_get_cmd_info_def
  by (induction t) (auto split: option.splits)

lemma lookup_None_iff: "esp_rmaker_get_cmd_info k t = None \<longleftrightarrow> find_slot (\<lambda>i. ci_cmd i = k) t = None"
  by (auto simp: esp_rmaker_get_cmd_info_def split: option.splits dest!: find_slot_SomeD)

lemma length_entries: "length (entries t) \<le> length t"
  by (induction t) (auto split: option.splits)

lemma entries_full: "None \<notin> set t \<longleftrightarrow> length (entries t) = length t"
proof (induction t)
  case (Cons s t)
  show ?case
    using Cons length_entries [of t] by (cases s) auto
qed simp

lemma map_of_key_None [simp]: "k \<notin> f ` set xs \<Longrightarrow> map_of (map (\<lambda>x. (f x, x)) xs) k = None"
  by (induction xs) auto

lemma card_lookup:
  assumes "table_ok t"
  shows "card (dom (\<lambda>k. esp_rmaker_get_cmd_info k t)) = length (entries t)"
proof -
  have "dom (\<lambda>k. esp_rmaker_get_cmd_info k t) = set (map ci_cmd (entries t))"
    using lookup_entries [OF assms] by (simp add: dom_map_of_conv_image_fst image_image)
  then show ?thesis
    using assms by (simp add: table_ok_def distinct_card flip: set_map)
qed

lemma table_fill:
  assumes "table_ok t" and "free_slot t = Some j" and "esp_rmaker_get_cmd_info (ci_cmd i) t = None"
  shows "table_ok (t[j := Some i])" and
    "esp_rmaker_get_cmd_info k (t[j := Some i]) = (if k = ci_cmd i then Some i else esp_rmaker_get_cmd_info k t)"
proof -
  obtain as bs where ab: "entries t = as @ bs" "entries (t[j := Some i]) = as @ i # bs"
    using entries_fill free_slot_SomeD [OF assms(2)] by metis
  have fresh: "ci_cmd i \<notin> ci_cmd ` set (entries t)"
    using assms(3) by (force simp: lookup_None_iff find_slot_None)
  then show ok: "table_ok (t[j := Some i])"
    using assms(1) ab by (auto simp: table_ok_def)
  have "ci_cmd i \<notin> ci_cmd ` set as" "ci_cmd i \<notin> ci_cmd ` set bs"
    using fresh ab by auto
  then show "esp_rmaker_get_cmd_info k (t[j := Some i]) = (if k = ci_cmd i then Some i else esp_rmaker_get_cmd_info k t)"
    using ab
    by (cases "k = ci_cmd i") (auto simp: lookup_entries [OF ok] lookup_entries [OF assms(1)] map_add_def split: option.splits)
qed

lemma table_clear:
  assumes "table_ok t" and "find_slot (\<lambda>i. ci_cmd i = c) t = Some j"
  shows "table_ok (t[j := None])" and
    "esp_rmaker_get_cmd_info k (t[j := None]) = (if k = c then None else esp_rmaker_get_cmd_info k t)"
proof -
  obtain x where j: "j < length t" "t ! j = Some x" "ci_cmd x = c"
    using find_slot_SomeD [OF assms(2)] by auto
  obtain as bs where ab: "entries t = as @ x # bs" "entries (t[j := None]) = as @ bs"
    using entries_clear [OF j(1,2)] by metis
  then show ok: "table_ok (t[j := None])"
    using assms(1) by (auto simp: table_ok_def)
  have "c \<notin> ci_cmd ` set as" "c \<notin> ci_cmd ` set bs"
    using assms(1) ab j(3) by (auto simp: table_ok_def)
  then show "esp_rmaker_get_cmd_info k (t[j := None]) = (if k = c then None else esp_rmaker_get_cmd_info k t)"
    using ab j(3) by (auto simp: lookup_entries [OF ok] lookup_entries [OF assms(1)] map_add_def split: option.splits)
qed

interpretation cmd: keyed_table table_ok length ci_cmd esp_rmaker_get_cmd_info register_entry esp_rmaker_cmd_deregister
proof unfold_locales
  fix t :: "('w, 'p) cmd_table" and v :: "('w, 'p) cmd_info" and a :: bool and k :: u16
  assume ok: "table_ok t"
  show "register_entry v a t = (ESP_FAIL, t)" if "esp_rmaker_get_cmd_info (ci_cmd v) t \<noteq> None"
    using that by (simp add: register_entry_def esp_rmaker_cmd_register_def lookup_None_iff)
  show "register_entry v a t = (ESP_ERR_NO_MEM, t)"
    if "esp_rmaker_get_cmd_info (ci_cmd v) t = None"
      "\<not> (card (dom (\<lambda>k. esp_rmaker_get_cmd_info k t)) < length t \<and> a)"
    using that length_entries [of t]
    by (auto simp: register_entry_def esp_rmaker_cmd_register_def lookup_None_iff card_lookup [OF ok]
        free_slot_None entries_full split: option.splits dest!: free_slot_SomeD nth_mem [of _ t])
  show "\<exists>t'. register_entry v True t = (ESP_OK, t') \<and> table_ok t' \<and> length t' = length t \<and>
      (\<forall>k. esp_rmaker_get_cmd_info k t' = (if k = ci_cmd v then Some v else esp_rmaker_get_cmd_info k t))"
    if fresh: "esp_rmaker_get_cmd_info (ci_cmd v) t = None"
      and room: "card (dom (\<lambda>k. esp_rmaker_get_cmd_info k t)) < length t"
  proof -
    obtain j where j: "free_slot t = Some j"
      using room by (cases "free_slot t") (auto simp: card_lookup [OF ok] free_slot_None entries_full)
    have eq: "\<lparr>ci_cmd = ci_cmd v, ci_access = ci_access v, ci_free_on_return = ci_free_on_return v,
        ci_handler = ci_handler v, ci_priv = ci_priv v\<rparr> = v"
      by simp
    have "register_entry v True t = (ESP_OK, t[j := Some v])"
      using fresh j by (simp add: eq register_entry_def esp_rmaker_cmd_register_def lookup_None_iff)
    with table_fill [OF ok j fresh] show ?thesis by simp
  qed
  show "esp_rmaker_cmd_deregister k t = (ESP_ERR_INVALID_ARG, t)" if "esp_rmaker_get_cmd_info k t = None"
    using that by (simp add: esp_rmaker_cmd_deregister_def lookup_None_iff)
  show "\<exists>t'. esp_rmaker_cmd_deregister k t = (ESP_OK, t') \<and> table_ok t' \<and> length t' = length t \<and>
      (\<forall>k'. esp_rmaker_get_cmd_info k' t' = (if k' = k then None else esp_rmaker_get_cmd_info k' t))"
    if hit: "esp_rmaker_get_cmd_info k t \<noteq> None"
  proof -
    obtain j where j: "find_slot (\<lambda>i. ci_cmd i = k) t = Some j"
      using hit by (auto simp: lookup_None_iff)
    then have "esp_rmaker_cmd_deregister k t = (ESP_OK, t[j := None])"
      by (simp add: esp_rmaker_cmd_deregister_def)
    with table_clear [OF ok j] show ?thesis by simp
  qed
qed

subsection \<open>Requests\<close>

text \<open>The TLVs of a request, as \<open>esp_rmaker_cmd_resp_test_send\<close> and the cloud build it.\<close>

definition request_tlvs :: "bytes \<Rightarrow> u8 \<Rightarrow> u16 \<Rightarrow> bytes \<Rightarrow> (u8 \<times> bytes) list" where
  "request_tlvs s role cmd d =
     [(TLV_REQ_ID, s), (TLV_USER_ROLE, [role]), (TLV_CMD, u16_le cmd)] @ (if d \<noteq> [] then [(TLV_DATA, d)] else [])"

definition request_ctx :: "bytes \<Rightarrow> u8 \<Rightarrow> u16 \<Rightarrow> cmd_ctx" where
  "request_ctx s role cmd =
     \<lparr>ctx_cmd = cmd, ctx_req_id = s @ replicate (32 - length s) 0, ctx_user_role = role, ctx_timestamp = 0\<rparr>"

lemma distinct_request_tlvs: "distinct (map fst (request_tlvs s role cmd d))"
  by (simp add: request_tlvs_def tlv_types)

lemma distinct_payload_tlvs: "distinct (map fst (payload_tlvs req role status cmd d))"
  by (simp add: payload_tlvs_def tlv_types split: option.splits)

lemma parse_request_stream:
  assumes "length s \<le> 32"
  shows "parse_request (Some (tlv_stream (request_tlvs s role cmd d))) (int (length (tlv_stream (request_tlvs s role cmd d))))
    = Some (request_ctx s role cmd)"
proof -
  let ?t = "request_tlvs s role cmd d"
  note gv = get_value_stream [OF distinct_request_tlvs, of s role cmd d]
  have 1: "esp_rmaker_get_value_from_tlv (Some (tlv_stream ?t)) (int (length (tlv_stream ?t))) TLV_REQ_ID (replicate 32 0) 32
      = Some (int (length s), s @ replicate (32 - length s) 0)"
    using assms by (subst gv) (simp_all add: request_tlvs_def tlv_types)
  have 2: "esp_rmaker_get_value_from_tlv (Some (tlv_stream ?t)) (int (length (tlv_stream ?t))) TLV_USER_ROLE [0] 1
      = Some (1, [role])"
    by (subst gv) (simp_all add: request_tlvs_def tlv_types)
  have 3: "esp_rmaker_get_value_from_tlv (Some (tlv_stream ?t)) (int (length (tlv_stream ?t))) TLV_CMD [0, 0] 2
      = Some (2, u16_le cmd)"
    by (subst gv) (simp_all add: request_tlvs_def tlv_types)
  have 4: "esp_rmaker_get_value_from_tlv (Some (tlv_stream ?t)) (int (length (tlv_stream ?t))) TLV_TIMESTAMP [0, 0, 0, 0] 4
      = Some (-1, [0, 0, 0, 0])"
    by (subst gv) (simp_all add: request_tlvs_def tlv_types)
  show ?thesis
    by (simp add: parse_request_def 1 2 3 4 get_u16_le_eq request_ctx_def)
qed

lemma request_data:
  assumes "d \<noteq> []"
  shows "esp_rmaker_get_value_from_tlv (Some (tlv_stream (request_tlvs s role cmd d)))
      (int (length (tlv_stream (request_tlvs s role cmd d)))) TLV_DATA (replicate (length d) 0) (int (length d))
    = Some (int (length d), d)"
  using assms
  by (subst get_value_stream [OF distinct_request_tlvs, of s role cmd d]) (simp_all add: request_tlvs_def tlv_types)

lemma request_data_length:
  "esp_rmaker_get_tlv_length (Some (tlv_stream (request_tlvs s role cmd d)))
      (int (length (tlv_stream (request_tlvs s role cmd d)))) TLV_DATA
    = Some (if d = [] then -1 else int (length d))"
  by (subst get_tlv_length_stream [OF distinct_request_tlvs]) (simp add: request_tlvs_def tlv_types)

lemma request_strlen:
  assumes "0 \<notin> set s" and "length s < 32"
  shows "c_strlen (ctx_req_id (request_ctx s role cmd)) = Some (length s)"
proof -
  obtain m where "32 - length s = Suc m" using assms(2) by (cases "32 - length s") auto
  then show ?thesis using assms(1) by (simp add: request_ctx_def c_strlen_append)
qed

lemma request_ctx_mem:
  assumes "length s < 32"
  shows "Some (ctx_req_id (request_ctx s role cmd)) = c_mem (Some s) (replicate (31 - length s) 0)"
proof -
  have "32 - length s = Suc (31 - length s)" using assms by simp
  then show ?thesis by (simp add: request_ctx_def c_mem_def)
qed

text \<open>The reply with a status and no data, from a context whose request id is the string \<open>s\<close>.\<close>

lemma reply_spec:
  assumes "0 \<notin> set s" and "length s < 32"
  shows "\<exists>rest. esp_rmaker_cmd_prepare_payload True (Some (ctx_req_id (request_ctx s role cmd))) 0 status cmd None 0 True
      = Some (ESP_OK, Some (tlv_stream (payload_tlvs (Some s) 0 status cmd []) @ rest,
          int (length (tlv_stream (payload_tlvs (Some s) 0 status cmd [])))))"
  unfolding request_ctx_mem [OF assms(2)]
  by (rule prepare_payload_spec) (use assms in \<open>auto simp: data_mem_def\<close>)

lemma ctx_fields [simp]:
  "ctx_cmd (request_ctx s role cmd) = cmd" "ctx_user_role (request_ctx s role cmd) = role"
  by (simp_all add: request_ctx_def)

text \<open>The test sender writes exactly the request stream when it fits into its 200 bytes.\<close>

lemma test_send_spec:
  assumes junk: "length junk = 200" and s: "0 \<notin> set s" and data: "data_mem data data_size d"
    and fits: "length (tlv_stream (request_tlvs s role cmd d)) \<le> 200" and size: "data_size \<le> 200"
  shows "\<exists>rest. esp_rmaker_cmd_resp_test_send junk (Some (s @ 0 # z)) role cmd data data_size (Some send) w
    = Some (send (tlv_stream (request_tlvs s role cmd d) @ rest)
        (int (length (tlv_stream (request_tlvs s role cmd d)))) w)"
proof -
  let ?hd = "data \<noteq> None \<and> data_size \<noteq> 0"
  have d: "length d = (if data = None then 0 else data_size)" "?hd \<longleftrightarrow> d \<noteq> []"
    "?hd \<Longrightarrow> \<exists>junk. data = Some (d @ junk)"
    using data by (auto simp: data_mem_def intro: append_take_drop_id [symmetric] split: option.splits)
  define f1 f2 f3 f4 where "f1 = tlv_frag TLV_REQ_ID s" and "f2 = tlv_frag TLV_USER_ROLE [role]"
    and "f3 = tlv_frag TLV_CMD (u16_le cmd)" and "f4 = (if d \<noteq> [] then tlv_frag TLV_DATA d else [])"
  have stream: "tlv_stream (request_tlvs s role cmd d) = f1 @ f2 @ f3 @ f4"
    by (simp add: request_tlvs_def f1_def f2_def f3_def f4_def)
  have len_s: "length s < 200"
    using fits length_tlv_frag_ge [of s TLV_REQ_ID] by (simp add: stream f1_def)
  define td where "td = esp_rmaker_tlv_data_init (Some junk) 200"
  have td: "tlv_at td [] junk"
    using junk by (simp add: td_def esp_rmaker_tlv_data_init_def tlv_at_def)
  have fit: "length f1 \<le> 200" "length f2 \<le> 200 - length f1" "length f3 \<le> 200 - (length f1 + length f2)"
    "length f4 \<le> 200 - (length f1 + length f2 + length f3)"
    using fits by (simp_all add: stream)
  obtain td1 where td1: "esp_rmaker_add_tlv td TLV_REQ_ID (int (length s)) (Some (s @ 0 # z)) = Some (int (length f1), td1)"
      "tlv_at td1 f1 (drop (length f1) junk)"
    using add_tlv_at [OF td, of TLV_REQ_ID s "0 # z"] fit junk by (auto simp: f1_def)
  obtain td2 where td2: "esp_rmaker_add_tlv td1 TLV_USER_ROLE 1 (Some [role]) = Some (int (length f2), td2)"
      "tlv_at td2 (f1 @ f2) (drop (length f2) (drop (length f1) junk))"
    using add_tlv_at [OF td1(2), of TLV_USER_ROLE "[role]" "[]"] fit junk by (auto simp: f2_def)
  obtain td3 where td3: "esp_rmaker_add_tlv td2 TLV_CMD 2 (Some (u16_le cmd)) = Some (int (length f3), td3)"
      "tlv_at td3 ((f1 @ f2) @ f3) (drop (length f3) (drop (length f2) (drop (length f1) junk)))"
    using add_tlv_at [OF td2(2), of TLV_CMD "u16_le cmd" "[]"] fit junk
    by (auto simp: f3_def add.commute add.left_commute)
  obtain td4 where td4: "(if ?hd then map_option snd (esp_rmaker_add_tlv td3 TLV_DATA (int data_size) data) else Some td3)
        = Some td4"
      "tlv_at td4 (((f1 @ f2) @ f3) @ f4) (drop (length f4) (drop (length f3) (drop (length f2) (drop (length f1) junk))))"
  proof (cases ?hd)
    case True
    then obtain junk2 where "data = Some (d @ junk2)" using d(3) by blast
    then show ?thesis
      using that add_tlv_at [OF td3(2), of TLV_DATA d junk2] fit junk True d
      by (auto simp: f4_def add.commute add.left_commute)
  next
    case False
    then show ?thesis
      using that [of td3] td3(2) d(2) by (auto simp: f4_def)
  qed
  have ints: "c_int (length s) = int (length s)" "c_int data_size = int data_size"
    using len_s size by simp_all
  have "esp_rmaker_cmd_resp_test_send junk (Some (s @ 0 # z)) role cmd data data_size (Some send) w
      = Option.bind (tlv_bufptr td4) (\<lambda>buf. Some (send buf (tlv_curlen td4) w))"
    by (simp only: esp_rmaker_cmd_resp_test_send_def option.case Let_def td_def [symmetric] c_strlen_append [OF s]
        bind.bind_lunit ints td1(1) td2(1) td3(1) put_u16_le_eq option.map snd_conv td4(1))
  with td4(2) show ?thesis
    by (intro exI [of _ "drop (length f4 + (length f3 + (length f2 + length f1))) junk"])
      (simp add: tlv_at_def stream)
qed

subsection \<open>Properties of the framework\<close>



text \<open>
  C35. The command table refines a bounded finite map: on any table without duplicates, every sequence of
  registrations and removals returns the codes the abstract map of at most \<open>RMAKER_MAX_CMD\<close> keys returns, and
  afterwards \<open>esp_rmaker_get_cmd_info\<close> finds exactly the entries of that map.
\<close>

theorem cmd_table_refines:
  assumes "table_ok t" and "run_ops (table_step register_entry esp_rmaker_cmd_deregister) ops t = (rs, t')"
  shows "run_ops (abs_step (length t) ci_cmd) ops (\<lambda>k. esp_rmaker_get_cmd_info k t) = (rs, \<lambda>k. esp_rmaker_get_cmd_info k t')
    \<and> table_ok t' \<and> length t' = length t"
  by (rule cmd.run_refines [OF assms])

theorem cmd_table_refines_witness:
  "run_ops (abs_step 2 ci_cmd) [Ins \<lparr>ci_cmd = 7, ci_access = 1, ci_free_on_return = False, ci_handler = None, ci_priv = ()\<rparr> True, Del 7, Del 8]
      (\<lambda>k. esp_rmaker_get_cmd_info k [None, None :: (unit, unit) cmd_info option])
    = ([ESP_OK, ESP_OK, ESP_ERR_INVALID_ARG], \<lambda>k. esp_rmaker_get_cmd_info k [None, None])"
proof -
  let ?t = "[None, None :: (unit, unit) cmd_info option]"
  let ?ops = "[Ins \<lparr>ci_cmd = 7, ci_access = 1, ci_free_on_return = False, ci_handler = None, ci_priv = ()\<rparr> True, Del 7, Del 8]"
  have "table_ok ?t" by (simp add: table_ok_def)
  moreover have "run_ops (table_step register_entry esp_rmaker_cmd_deregister) ?ops ?t
      = ([ESP_OK, ESP_OK, ESP_ERR_INVALID_ARG], ?t)"
    by (simp add: register_entry_def esp_rmaker_cmd_register_def esp_rmaker_cmd_deregister_def)
  ultimately show ?thesis
    using cmd_table_refines [of ?t ?ops] by (simp only: length_Cons list.size One_nat_def numeral_2_eq_2 add_0_right add_Suc_right)
qed

lemma finish_command_world:
  "finish_command f data out_alloc out_ptrs hr = Some r \<Longrightarrow> cr_world r = snd (snd (snd (snd hr)))"
  by (cases hr) (auto simp: Let_def payload_result_def split: if_splits)

text \<open>A permitted request: the handler gets the request's data, its successful response is returned.\<close>

lemma accepted_spec:
  assumes s: "0 \<notin> set s" "s \<noteq> []" "length s < 32" and ids: "role \<noteq> 0" "cmd \<noteq> 0"
    and info: "esp_rmaker_get_cmd_info cmd t = Some info"
    and perm: "and (ci_access info) (ESP_RMAKER_GET_USER_ROLE role) \<noteq> 0"
    and h: "ci_handler info = Some h"
    and res: "h w (if d = [] then None else Some d) (int (length d)) (request_ctx s role cmd) (ci_priv info)
        = (ESP_OK, resp, rsize, request_ctx s role cmd, w')"
    and rd: "data_mem resp rsize rdata" "rsize < 2 ^ 29"
    and small: "length (tlv_stream (request_tlvs s role cmd d)) < 2 ^ 31"
  shows "\<exists>rest. esp_rmaker_cmd_response_handler t (Some (tlv_stream (request_tlvs s role cmd d)))
      (length (tlv_stream (request_tlvs s role cmd d))) True True True w
    = Some \<lparr>cr_err = ESP_OK,
        cr_output = Some (Some (tlv_stream (payload_tlvs (Some s) 0 STATUS_SUCCESS cmd rdata) @ rest),
          int (length (tlv_stream (payload_tlvs (Some s) 0 STATUS_SUCCESS cmd rdata)))),
        cr_world = w',
        cr_freed = (case resp of Some r \<Rightarrow> if ci_free_on_return info then [r] else [] | None \<Rightarrow> [])
          @ (if d = [] then [] else [d])\<rparr>"
proof -
  let ?in = "tlv_stream (request_tlvs s role cmd d)"
  let ?freed = "(case resp of Some r \<Rightarrow> if ci_free_on_return info then [r] else [] | None \<Rightarrow> [])
    @ (if d = [] then [] else [d])"
  obtain rest where reply: "esp_rmaker_cmd_prepare_payload True (Some (ctx_req_id (request_ctx s role cmd))) 0 STATUS_SUCCESS cmd
      resp rsize True = Some (ESP_OK, Some (tlv_stream (payload_tlvs (Some s) 0 STATUS_SUCCESS cmd rdata) @ rest,
        int (length (tlv_stream (payload_tlvs (Some s) 0 STATUS_SUCCESS cmd rdata)))))"
    unfolding request_ctx_mem [OF s(3)]
    using prepare_payload_spec [where req = "Some s" and role = 0 and status = STATUS_SUCCESS and cmd = cmd
        and z = "replicate (31 - length s) 0", OF _ rd(2,1)] s by auto
  have "run_command info (request_ctx s role cmd) (Some ?in) (int (length ?in)) True True True w
      = finish_command (ci_free_on_return info) (if d = [] then None else Some d) True True
          (ESP_OK, resp, rsize, request_ctx s role cmd, w')"
    using res h by (cases "d = []") (simp_all add: run_command_def request_data_length request_data del: finish_command.simps)
  also have "\<dots> = Some (payload_result w' ?freed (ESP_OK, Some (tlv_stream (payload_tlvs (Some s) 0 STATUS_SUCCESS cmd rdata) @ rest,
        int (length (tlv_stream (payload_tlvs (Some s) 0 STATUS_SUCCESS cmd rdata))))))"
    using reply by (simp add: Let_def)
  finally show ?thesis
    using s ids info perm small parse_request_stream [of s role cmd d] request_strlen [of s role cmd]
    by (simp add: esp_rmaker_cmd_response_handler_def payload_result_def)
qed

text \<open>A sample entry for the concrete instances: its handler counts its calls in the world.\<close>

definition sample_info :: "(nat, unit) cmd_info" where
  "sample_info = \<lparr>ci_cmd = 7, ci_access = 2, ci_free_on_return = True,
     ci_handler = Some (\<lambda>w d n c p. (ESP_OK, d, nat n, c, w + 1)), ci_priv = ()\<rparr>"

lemma sample_lookup: "esp_rmaker_get_cmd_info 7 [Some sample_info] = Some sample_info"
  by (simp add: esp_rmaker_get_cmd_info_def sample_info_def)

lemma sample_fields: "ci_access sample_info = 2" "ci_free_on_return sample_info" "ci_priv sample_info = ()"
  by (simp_all add: sample_info_def)

lemma sample_handler: "ci_handler sample_info = Some (\<lambda>w d n c p. (ESP_OK, d, nat n, c, w + 1))"
  by (simp add: sample_info_def)

text \<open>
  C12. Dispatch is authorised: whatever the input bytes and the table, when the world has changed the request
  had a non-empty id, a role and a command, the table holds an entry for that command whose access mask has a
  bit of the base role, and the change is one call of that entry's handler with its private data and the
  context parsed from the input.
\<close>

theorem dispatch_authorised:
  assumes "esp_rmaker_cmd_response_handler t input input_len data_alloc out_alloc out_ptrs w = Some r" and "cr_world r \<noteq> w"
  shows "\<exists>ctx info h data n. parse_request input (c_int input_len) = Some ctx \<and> c_strlen (ctx_req_id ctx) \<noteq> Some 0 \<and>
    ctx_user_role ctx \<noteq> 0 \<and> ctx_cmd ctx \<noteq> 0 \<and> Some info \<in> set t \<and> ci_cmd info = ctx_cmd ctx \<and>
    and (ci_access info) (and (ctx_user_role ctx) 0x0F) \<noteq> 0 \<and> ci_handler info = Some h \<and>
    cr_world r = snd (snd (snd (snd (h w data n ctx (ci_priv info)))))"
proof -
  obtain ctx where ctx: "parse_request input (c_int input_len) = Some ctx"
    using assms(1) by (auto simp: esp_rmaker_cmd_response_handler_def Let_def bind_eq_Some_conv)
  have rejected: "cr_world r = w"
    if "map_option (payload_result w []) x = Some r" for x
    using that by (auto simp: payload_result_def)
  obtain rlen where rlen: "c_strlen (ctx_req_id ctx) = Some rlen"
    using assms(1) ctx by (auto simp: esp_rmaker_cmd_response_handler_def Let_def bind_eq_Some_conv)
  with assms ctx rejected have fields: "rlen \<noteq> 0" "ctx_user_role ctx \<noteq> 0" "ctx_cmd ctx \<noteq> 0"
    by (auto simp: esp_rmaker_cmd_response_handler_def Let_def split: if_splits)
  with assms ctx rlen rejected obtain info where info: "esp_rmaker_get_cmd_info (ctx_cmd ctx) t = Some info"
    by (cases "esp_rmaker_get_cmd_info (ctx_cmd ctx) t") (auto simp: esp_rmaker_cmd_response_handler_def Let_def)
  with assms ctx rlen rejected fields
  have perm: "and (ci_access info) (ESP_RMAKER_GET_USER_ROLE (ctx_user_role ctx)) \<noteq> 0"
    and run: "run_command info ctx input (c_int input_len) data_alloc out_alloc out_ptrs w = Some r"
    by (auto simp: esp_rmaker_cmd_response_handler_def Let_def split: if_splits)
  from run assms(2) obtain h data n where "ci_handler info = Some h"
    and "cr_world r = snd (snd (snd (snd (h w data n ctx (ci_priv info)))))"
    by (auto simp: run_command_def bind_eq_Some_conv dest!: finish_command_world split: if_splits)
  moreover have "Some info \<in> set t \<and> ci_cmd info = ctx_cmd ctx"
    using info by (auto simp: esp_rmaker_get_cmd_info_def split: option.splits dest!: find_slot_SomeD)
      (metis nth_mem)
  ultimately show ?thesis
    using ctx rlen fields perm unfolding ESP_RMAKER_GET_USER_ROLE_def
    by (intro exI [of _ ctx] exI [of _ info] exI [of _ h] exI [of _ data] exI [of _ n]) simp
qed

theorem dispatch_authorised_witness:
  "\<exists>ctx info h data n. parse_request (Some (tlv_stream (request_tlvs [65] 2 7 []))) (c_int (length (tlv_stream (request_tlvs [65] 2 7 [])))) = Some ctx \<and>
    Some info \<in> set [Some sample_info] \<and>
    ci_handler info = Some h \<and> 1 = snd (snd (snd (snd (h 0 data n ctx (ci_priv info)))))"
proof -
  let ?in = "tlv_stream (request_tlvs [65] 2 7 [])"
  have small: "length ?in < 2 ^ 31"
    by (simp add: request_tlvs_def length_tlv_frag_short)
  obtain r where r: "esp_rmaker_cmd_response_handler [Some sample_info] (Some ?in) (length ?in) True True True 0 = Some r"
      "cr_world r = 1"
    using accepted_spec [where s = "[65]" and role = 2 and d = "[]" and w = 0 and resp = None and rsize = 0 and w' = 1
        and rdata = "[]", OF _ _ _ _ _ sample_lookup _ sample_handler] small
    by (auto simp: ESP_RMAKER_GET_USER_ROLE_def sample_info_def data_mem_def)
  show ?thesis
    using dispatch_authorised [OF r(1)] unfolding r(2) by simp blast
qed

text \<open>
  C3. A command sent reaches its handler and its answer comes back. When the sender's request fits its
  buffer and the entry permits the role, the dispatcher on the sent bytes calls the handler with exactly the
  data, the request id, role and command of the sender; on success the reply it stores is the payload with the
  same request id and command, status success and the handler's response; the input copy is freed, the
  response exactly when the entry says so.
\<close>

theorem request_reaches_handler:
  assumes "0 \<notin> set s" and "s \<noteq> []" and "length s < 32" and "role \<noteq> 0" and "cmd \<noteq> 0"
    and "data_mem data data_size d" and "data_size \<le> 200" and "length junk = 200"
    and "length (tlv_stream (request_tlvs s role cmd d)) \<le> 200"
    and "esp_rmaker_get_cmd_info cmd t = Some info" and "and (ci_access info) (ESP_RMAKER_GET_USER_ROLE role) \<noteq> 0"
    and "ci_handler info = Some h"
    and "h w (if d = [] then None else Some d) (int (length d)) (request_ctx s role cmd) (ci_priv info)
      = (ESP_OK, resp, rsize, request_ctx s role cmd, w')"
    and "data_mem resp rsize rdata" and "rsize < 2 ^ 29"
  shows "\<exists>sent n rest. esp_rmaker_cmd_resp_test_send junk (Some (s @ [0])) role cmd data data_size
        (Some (\<lambda>buf n log. (ESP_OK, (buf, n) # log))) [] = Some (ESP_OK, [(sent, n)]) \<and>
    esp_rmaker_cmd_response_handler t (Some (take (nat n) sent)) (nat n) True True True w
      = Some \<lparr>cr_err = ESP_OK,
          cr_output = Some (Some (tlv_stream (payload_tlvs (Some s) 0 STATUS_SUCCESS cmd rdata) @ rest),
            int (length (tlv_stream (payload_tlvs (Some s) 0 STATUS_SUCCESS cmd rdata)))),
          cr_world = w',
          cr_freed = (case resp of Some r \<Rightarrow> if ci_free_on_return info then [r] else [] | None \<Rightarrow> [])
            @ (if d = [] then [] else [d])\<rparr>"
proof -
  let ?in = "tlv_stream (request_tlvs s role cmd d)"
  obtain rest1 where sent: "esp_rmaker_cmd_resp_test_send junk (Some (s @ [0])) role cmd data data_size
        (Some (\<lambda>buf n log. (ESP_OK, (buf, n) # log))) [] = Some (ESP_OK, [(?in @ rest1, int (length ?in))])"
    using test_send_spec [where z = "[]" and w = "[]" and send = "\<lambda>buf n log. (ESP_OK, (buf, n) # log)",
        OF assms(8,1,6,9,7)] by auto
  have "length ?in < 2 ^ 31" using assms(9) by simp
  from accepted_spec [OF assms(1-5,10-15) this] sent show ?thesis
    by (metis append_eq_conv_conj nat_int)
qed

theorem request_reaches_handler_witness:
  "\<exists>sent n rest. esp_rmaker_cmd_resp_test_send (replicate 200 9) (Some [65, 0]) 0x12 7 (Some [5, 6]) 2
        (Some (\<lambda>buf n log. (ESP_OK, (buf, n) # log))) [] = Some (ESP_OK, [(sent, n)]) \<and>
    esp_rmaker_cmd_response_handler [None, Some sample_info] (Some (take (nat n) sent)) (nat n) True True True 41
      = Some \<lparr>cr_err = ESP_OK,
          cr_output = Some (Some (tlv_stream (payload_tlvs (Some [65]) 0 STATUS_SUCCESS 7 [5, 6]) @ rest), 14),
          cr_world = 42, cr_freed = [[5, 6], [5, 6]]\<rparr>"
proof -
  have look: "esp_rmaker_get_cmd_info 7 [None, Some sample_info] = Some sample_info"
    by (simp add: esp_rmaker_get_cmd_info_def sample_info_def)
  have len: "length (tlv_stream (request_tlvs [65] 0x12 7 [5, 6])) = 14"
    "length (tlv_stream (payload_tlvs (Some [65]) 0 STATUS_SUCCESS 7 [5, 6])) = 14"
    by (simp_all add: request_tlvs_def payload_tlvs_def length_tlv_frag_short)
  show ?thesis
    using request_reaches_handler [where s = "[65]" and role = "0x12" and d = "[5, 6]" and w = 41 and w' = 42
        and resp = "Some [5, 6]" and rsize = 2 and rdata = "[5, 6]" and data = "Some [5, 6]" and data_size = 2
        and junk = "replicate 200 9", OF _ _ _ _ _ _ _ _ _ look _ sample_handler] len
    by (simp add: data_mem_def ESP_RMAKER_GET_USER_ROLE_def sample_fields)
qed

text \<open>The status of the requests that do not reach a handler.\<close>

definition reject_status :: "('w, 'p) cmd_table \<Rightarrow> bytes \<Rightarrow> u8 \<Rightarrow> u16 \<Rightarrow> u8 option" where
  "reject_status t s role cmd =
     (if s = [] \<or> role = 0 \<or> cmd = 0 then Some STATUS_CMD_INVALID
      else case esp_rmaker_get_cmd_info cmd t of
        None \<Rightarrow> Some STATUS_NOT_FOUND
      | Some info \<Rightarrow>
          if and (ci_access info) (ESP_RMAKER_GET_USER_ROLE role) = 0 then Some STATUS_AUTH_FAIL else None)"

text \<open>
  C36. Every well-formed request that is not permitted is answered, with the right status and without a call: an
  empty id, a zero role or a zero command with \<open>CMD_INVALID\<close>, an unknown command with \<open>NOT_FOUND\<close>, a role the
  entry does not allow with \<open>AUTH_FAIL\<close>; the world and the heap are unchanged.
\<close>

theorem rejected_request_answered:
  assumes "0 \<notin> set s" and "length s < 32" and "reject_status t s role cmd = Some status"
    and "length (tlv_stream (request_tlvs s role cmd d)) < 2 ^ 31"
  shows "\<exists>rest. esp_rmaker_cmd_response_handler t (Some (tlv_stream (request_tlvs s role cmd d)))
      (length (tlv_stream (request_tlvs s role cmd d))) data_alloc True True w
    = Some \<lparr>cr_err = ESP_OK,
        cr_output = Some (Some (tlv_stream (payload_tlvs (Some s) 0 status cmd []) @ rest),
          int (length (tlv_stream (payload_tlvs (Some s) 0 status cmd [])))),
        cr_world = w, cr_freed = []\<rparr>"
  using assms reply_spec [OF assms(1,2), of role cmd status] parse_request_stream [of s role cmd d]
    request_strlen [OF assms(1,2), of role cmd]
  by (auto simp: esp_rmaker_cmd_response_handler_def reject_status_def payload_result_def Let_def
      split: if_splits option.splits)

theorem rejected_request_answered_witness:
  "\<exists>rest. esp_rmaker_cmd_response_handler [Some sample_info] (Some (tlv_stream (request_tlvs [65] 1 7 [])))
      (length (tlv_stream (request_tlvs [65] 1 7 []))) True True True 5
    = Some \<lparr>cr_err = ESP_OK,
        cr_output = Some (Some (tlv_stream (payload_tlvs (Some [65]) 0 STATUS_AUTH_FAIL 7 []) @ rest),
          int (length (tlv_stream (payload_tlvs (Some [65]) 0 STATUS_AUTH_FAIL 7 [])))),
        cr_world = 5, cr_freed = []\<rparr>"
  by (rule rejected_request_answered)
    (simp_all add: reject_status_def sample_lookup sample_fields ESP_RMAKER_GET_USER_ROLE_def request_tlvs_def
      length_tlv_frag_short)

subsection \<open>Freedom from undefined behaviour, and where it ends\<close>

lemma c_mem_split:
  assumes "0 \<in> set m"
  shows "\<exists>s z. Some m = c_mem (Some s) z \<and> 0 \<notin> set s \<and> length s < length m"
proof -
  obtain s z where m: "m = s @ 0 # z" and s: "0 \<notin> set s"
    using split_list_first [OF assms] by blast
  show ?thesis
    by (rule exI [of _ s], rule exI [of _ z]) (use m s in \<open>simp add: c_mem_def\<close>)
qed

lemma prepare_payload_total:
  assumes "0 \<in> set m" and "length m = 32" and "data_mem data n d" and "n < 2 ^ 29"
  shows "\<exists>r. esp_rmaker_cmd_prepare_payload alloc (Some m) role status cmd data n True = Some r \<and>
    fst r = (if alloc then ESP_OK else ESP_ERR_NO_MEM)"
proof -
  obtain s z where m: "Some m = c_mem (Some s) z" "0 \<notin> set s" "length s < length m"
    using c_mem_split [OF assms(1)] by blast
  show ?thesis
  proof (cases alloc)
    case True
    then show ?thesis
      using prepare_payload_spec [where req = "Some s" and role = role and status = status and cmd = cmd and z = z,
          OF _ assms(4,3)] m assms(2) by auto
  next
    case False
    have "c_strlen m = Some (length s)"
      using m by (simp add: c_mem_def c_strlen_append)
    with False show ?thesis
      by (simp add: esp_rmaker_cmd_prepare_payload_def Let_def)
  qed
qed

text \<open>What the dispatcher needs of a registered handler: a terminated context and a valid response.\<close>

definition good_handler :: "('w, 'p) cmd_info \<Rightarrow> bool" where
  "good_handler info \<longleftrightarrow> (\<exists>h. ci_handler info = Some h \<and>
     (\<forall>w d n c. 0 \<in> set (ctx_req_id c) \<and> length (ctx_req_id c) = 32 \<longrightarrow>
        (case h w d n c (ci_priv info) of (err, resp, sz, c', w') \<Rightarrow>
           0 \<in> set (ctx_req_id c') \<and> length (ctx_req_id c') = 32 \<and> sz < 2 ^ 29 \<and>
           (case resp of None \<Rightarrow> True | Some r \<Rightarrow> sz \<le> length r))))"

lemma finish_command_total:
  assumes "hr = (err, resp, sz, c', w')" and "0 \<in> set (ctx_req_id c')" and "length (ctx_req_id c') = 32"
    and "sz < 2 ^ 29" and "case resp of None \<Rightarrow> True | Some r \<Rightarrow> sz \<le> length r"
  shows "\<exists>r. finish_command f data alloc True hr = Some r \<and> (cr_err r = ESP_OK \<or> \<not> alloc \<and> cr_err r = ESP_ERR_NO_MEM)"
proof -
  have "data_mem resp sz (case resp of None \<Rightarrow> [] | Some r \<Rightarrow> take sz r)"
    using assms(5) by (simp add: data_mem_def split: option.splits)
  from prepare_payload_total [OF assms(2,3) this assms(4), of alloc 0 STATUS_SUCCESS "ctx_cmd c'"]
    prepare_payload_total [OF assms(2,3), of None 0 "[]" alloc 0 STATUS_FAILED "ctx_cmd c'"]
  show ?thesis
    by (auto simp: assms(1) Let_def data_mem_def payload_result_def split: if_splits)
qed

lemma parse_request_total:
  assumes "n < length b" and "n < 2 ^ 31"
  shows "\<exists>ctx. parse_request (Some b) (c_int n) = Some ctx \<and> length (ctx_req_id ctx) = 32"
proof -
  have n: "c_int n = int n" "0 \<le> int n" "0 + int n < int (length b)"
    using assms by simp_all
  have safe: "\<exists>r val'. esp_rmaker_get_value_from_tlv (Some b) (int n) ty val (int (length val)) = Some (r, val') \<and> length val' = length val"
    for ty val
    using get_value_loop_safe [OF order_refl n(3) order_refl, of "int (length val)" val ty False]
    by (auto simp: esp_rmaker_get_value_from_tlv_def)
  obtain r1 v1 where 1: "esp_rmaker_get_value_from_tlv (Some b) (int n) TLV_REQ_ID (replicate 32 0) 32 = Some (r1, v1)" "length v1 = 32"
    using safe [of TLV_REQ_ID "replicate 32 0"] by auto
  obtain r2 v2 where 2: "esp_rmaker_get_value_from_tlv (Some b) (int n) TLV_USER_ROLE [0] 1 = Some (r2, v2)"
    using safe [of TLV_USER_ROLE "[0]"] by auto
  obtain r3 v3 where 3: "esp_rmaker_get_value_from_tlv (Some b) (int n) TLV_CMD [0, 0] 2 = Some (r3, v3)" "length v3 = 2"
    using safe [of TLV_CMD "[0, 0]"] by auto
  obtain r4 v4 where 4: "esp_rmaker_get_value_from_tlv (Some b) (int n) TLV_TIMESTAMP [0, 0, 0, 0] 4 = Some (r4, v4)"
    using safe [of TLV_TIMESTAMP "[0, 0, 0, 0]"] by auto
  show ?thesis
    using 1 2 3 4 by (auto simp: parse_request_def n(1) get_u16_le_def rd_def)
qed

lemma run_command_total:
  assumes "n < length b" and "n < 2 ^ 31" and "good_handler info" and "0 \<in> set (ctx_req_id ctx)" and "length (ctx_req_id ctx) = 32"
  shows "\<exists>r. run_command info ctx (Some b) (c_int n) data_alloc out_alloc True w = Some r \<and>
    (cr_err r = ESP_OK \<or> \<not> (data_alloc \<and> out_alloc) \<and> cr_err r = ESP_ERR_NO_MEM)"
proof -
  have n: "c_int n = int n" "0 + int n < int (length b)" "int n \<le> int (length b)"
    using assms by simp_all
  obtain k where k: "esp_rmaker_get_tlv_length (Some b) (int n) TLV_DATA = Some k" "-1 \<le> k"
    using get_tlv_length_loop_safe [OF order_refl n(2) order_refl, of TLV_DATA False]
    by (auto simp: esp_rmaker_get_tlv_length_def)
  have data: "\<exists>d. (if k > 0 then map_option (\<lambda>(_, d). Some d)
      (esp_rmaker_get_value_from_tlv (Some b) (int n) TLV_DATA (replicate (nat k) 0) k) else Some None) = Some d"
  proof (cases "k > 0")
    case True
    have "\<exists>val'. get_value_loop b TLV_DATA (int n) 0 0 False (replicate (nat k) 0) k = Some (k, val')"
      by (rule get_value_loop_agree) (use k True n in \<open>auto simp: esp_rmaker_get_tlv_length_def\<close>)
    with True show ?thesis by (auto simp: esp_rmaker_get_value_from_tlv_def)
  qed simp
  obtain h where h: "ci_handler info = Some h"
    using assms(3) by (auto simp: good_handler_def)
  have fin: "\<exists>r. finish_command f d2 out_alloc True (h w d m ctx (ci_priv info)) = Some r \<and>
      (cr_err r = ESP_OK \<or> \<not> out_alloc \<and> cr_err r = ESP_ERR_NO_MEM)" for f d2 d m
  proof -
    obtain err resp sz c' w' where hr: "h w d m ctx (ci_priv info) = (err, resp, sz, c', w')"
      by (metis prod_cases5)
    have "0 \<in> set (ctx_req_id c') \<and> length (ctx_req_id c') = 32 \<and> sz < 2 ^ 29 \<and>
        (case resp of None \<Rightarrow> True | Some r \<Rightarrow> sz \<le> length r)"
    proof -
      have "0 \<in> set (ctx_req_id ctx) \<and> length (ctx_req_id ctx) = 32" using assms(4,5) ..
      with assms(3) h hr show ?thesis
        unfolding good_handler_def by (elim exE conjE) (drule spec [of _ w], drule spec [of _ d], drule spec [of _ m], drule spec [of _ ctx], simp)
    qed
    then show ?thesis
      using finish_command_total [OF hr] by blast
  qed
  obtain d where d: "(if k > 0 then map_option (\<lambda>(_, d). Some d)
      (esp_rmaker_get_value_from_tlv (Some b) (int n) TLV_DATA (replicate (nat k) 0) k) else Some None) = Some d"
    using data by blast
  show ?thesis
    using fin [of "ci_free_on_return info" d d "if k > 0 then k else 0"] k h
    by (simp only: run_command_def n(1) bind.bind_lunit k(1) d h) auto
qed


lemma good_sample: "good_handler \<lparr>ci_cmd = 7, ci_access = 2, ci_free_on_return = False,
    ci_handler = Some (\<lambda>w d n c p. (ESP_FAIL, None, 0, c, Suc w)), ci_priv = ()\<rparr>"
  by (simp add: good_handler_def)


text \<open>
  The contract of the request id is off by one: the headers allow ids of up to 32 characters, the context
  has 32 bytes for the id and its terminator, so a request with an id of exactly 32 characters is accepted by the
  decoder and makes the dispatcher run \<open>strlen\<close> past the end of the field.
\<close>

theorem request_id_of_32_overruns:
  assumes "0 \<notin> set s" and "length s = 32" and "length (tlv_stream (request_tlvs s role cmd d)) < 2 ^ 31"
  shows "esp_rmaker_cmd_response_handler t (Some (tlv_stream (request_tlvs s role cmd d)))
      (length (tlv_stream (request_tlvs s role cmd d))) data_alloc out_alloc out_ptrs w = None"
proof -
  have none: "c_strlen s = None"
    using assms(1) by (induction s) auto
  show ?thesis
    using assms(2,3) parse_request_stream [of s role cmd d] none
    by (simp add: esp_rmaker_cmd_response_handler_def Let_def request_ctx_def)
qed

theorem request_id_of_32_overruns_witness:
  "esp_rmaker_cmd_response_handler [Some sample_info] (Some (tlv_stream (request_tlvs (replicate 32 65) 2 7 [])))
      (length (tlv_stream (request_tlvs (replicate 32 65) 2 7 []))) True True True 0 = None"
  by (rule request_id_of_32_overruns) (simp_all add: request_tlvs_def length_tlv_frag_short)

lemma c_str_zero: "c_str (d @ 0 # r) = Some (takeWhile (\<lambda>b. b \<noteq> 0) d)"
proof -
  have "c_str (d @ 0 # r) = Some (takeWhile (\<lambda>b. b \<noteq> 0) d)"
    by (induction d) (auto simp: c_str_def)
  then show ?thesis .
qed

lemma takeWhile_id: "0 \<notin> set s \<Longrightarrow> takeWhile (\<lambda>b. b \<noteq> 0) s = s"
  by (simp add: takeWhile_eq_all_conv) metis

text \<open>
  What \<open>esp_rmaker_cmd_resp_parse_response\<close> does with a response that carries data: it reads back the id,
  the command, the status with its name and the data up to its first NUL; but 200 bytes of data make it write
  the terminator one byte past its 200-byte buffer, and a status above 4 makes it index past the table of names.
\<close>

theorem parse_response_reads:
  assumes "0 \<notin> set s" and "s \<noteq> []" and "length s < 32" and "d \<noteq> []" and "length d \<le> 200"
    and "length data_junk = 200" and "length cmd_junk = 2" and "length status_junk = 1"
    and "stream = tlv_stream (payload_tlvs (Some s) 0 status cmd d)"
  shows "esp_rmaker_cmd_resp_parse_response cmd_junk status_junk data_junk (Some stream) (length stream)
    = (if length d = 200 \<or> 5 \<le> uint status then None
       else Some (ESP_OK, [LogReqId s, LogCmd cmd, LogStatus status (cmd_status ! nat (uint status)),
         LogData (takeWhile (\<lambda>b. b \<noteq> 0) d)]))"
proof -
  let ?ts = "payload_tlvs (Some s) 0 status cmd d"
  have look: "map_of ?ts TLV_REQ_ID = Some s" "map_of ?ts TLV_STATUS = Some [status]"
    "map_of ?ts TLV_CMD = Some (u16_le cmd)" "map_of ?ts TLV_DATA = Some d"
    using assms(4) by (simp_all add: payload_tlvs_def tlv_types)
  note found = get_value_found [OF distinct_payload_tlvs]
  have "length stream < 2 ^ 31"
    using assms(3,5) by (simp add: assms(9) payload_tlvs_def length_tlv_frag_short)
  then have len: "c_int (length stream) = int (length stream)" by simp
  obtain m where m: "32 - length s = Suc m" using assms(3) by (cases "32 - length s") auto
  have 1: "esp_rmaker_get_value_from_tlv (Some stream) (int (length stream)) TLV_REQ_ID (replicate 32 0) 32
      = Some (int (length s), s @ 0 # replicate m 0)"
    using found [OF look(1), of "replicate 32 0" 32] assms(3) m by (simp add: assms(9))
  have 2: "esp_rmaker_get_value_from_tlv (Some stream) (int (length stream)) TLV_CMD cmd_junk 2 = Some (2, u16_le cmd)"
    using found [OF look(3), of cmd_junk 2] assms(7) by (simp add: assms(9))
  have 3: "esp_rmaker_get_value_from_tlv (Some stream) (int (length stream)) TLV_STATUS status_junk 1 = Some (1, [status])"
    using found [OF look(2), of status_junk 1] assms(8) by (simp add: assms(9))
  have 4: "esp_rmaker_get_value_from_tlv (Some stream) (int (length stream)) TLV_DATA data_junk 200
      = Some (int (length d), d @ drop (length d) data_junk)"
    using found [OF look(4), of data_junk 200] assms(5,6) by (simp add: assms(9))
  have 5: "c_str (s @ 0 # replicate m 0) = Some s"
    using assms(1) by (simp add: c_str_zero takeWhile_id)
  have 6: "wr (d @ drop (length d) data_junk) (int (length d)) 0 = None" if "length d = 200"
    using that assms(6) by (simp add: wr_def)
  have 7: "\<exists>d2. wr (d @ drop (length d) data_junk) (int (length d)) 0 = Some d2 \<and> c_str d2 = Some (takeWhile (\<lambda>b. b \<noteq> 0) d)"
    if short: "length d \<noteq> 200"
  proof -
    obtain y ys where y: "drop (length d) data_junk = y # ys"
      using short assms(5,6) by (cases "drop (length d) data_junk") auto
    show ?thesis
      using wr_append [of d y ys 0] by (simp add: y c_str_zero)
  qed
  have 8: "rd cmd_status (uint status) = (if 5 \<le> uint status then None else Some (cmd_status ! nat (uint status)))"
    by (simp add: rd_def cmd_status_def)
  have 9: "rd [status] 0 = Some status" by (simp add: rd_def)
  have eq: "esp_rmaker_cmd_resp_parse_response cmd_junk status_junk data_junk (Some stream) (length stream)
      = do { name \<leftarrow> rd cmd_status (uint status);
             d2 \<leftarrow> wr (d @ drop (length d) data_junk) (int (length d)) 0;
             v \<leftarrow> c_str d2;
             Some (ESP_OK, [LogReqId s, LogCmd cmd, LogStatus status name, LogData v]) }"
    using assms(2,4)
    by (simp add: esp_rmaker_cmd_resp_parse_response_def Let_def len 1 2 3 4 5 9 get_u16_le_eq Option.bind_map_option o_def)
  show ?thesis
    unfolding eq 8 using 6 7 by (cases "length d = 200") auto
qed

theorem parse_response_reads_witness:
  "esp_rmaker_cmd_resp_parse_response [0, 0] [0] (replicate 200 9)
      (Some (tlv_stream (payload_tlvs (Some [65]) 0 0 7 [72, 105])))
      (length (tlv_stream (payload_tlvs (Some [65]) 0 0 7 [72, 105])))
    = Some (ESP_OK, [LogReqId [65], LogCmd 7, LogStatus 0 ''Success'', LogData [72, 105]])"
  using parse_response_reads [of "[65]" "[72, 105]" "replicate 200 9" "[0, 0]" "[0]"
      "tlv_stream (payload_tlvs (Some [65]) 0 0 7 [72, 105])" 0 7]
  by (simp add: cmd_status_def)

end
