(* ===== verification/Mqtt_Topic.thy ===== *)
theory Mqtt_Topic
  imports Rmk_Prelude
begin

section \<open>MQTT topic filters\<close>

text \<open>
  Models \<open>mqtt_topic_matches\<close> of \<open>src/esp-mqtt/esp-mqtt-glue.c\<close>, the matcher that decides which callbacks get an
  incoming message, and relates it to the level-wise definition of the MQTT standard.
\<close>

text \<open>The loop over both strings; the topic name is the \<open>topic_len\<close> characters the pointer is given with.\<close>

function mqtt_topic_matches :: "string \<Rightarrow> string \<Rightarrow> bool" where
  "mqtt_topic_matches [] name = (name = [])"
| "mqtt_topic_matches (f # fs) [] = False"
| "mqtt_topic_matches (f # fs) (c # cs) =
     (if f = CHR ''+'' then mqtt_topic_matches fs (dropWhile (\<lambda>x. x \<noteq> CHR ''/'') (c # cs))
      else if f = c then mqtt_topic_matches fs cs
      else False)"
  by pat_completeness auto
termination by (relation "measure (length \<circ> fst)") auto

subsection \<open>Levels\<close>

text \<open>A topic is its levels joined with \<open>/\<close>; a level has no \<open>/\<close>. A filter level is \<open>+\<close> or has no \<open>+\<close>.\<close>

fun join_levels :: "string list \<Rightarrow> string" where
  "join_levels [] = []"
| "join_levels [l] = l"
| "join_levels (l # ls) = l @ CHR ''/'' # join_levels ls"

definition level :: "string \<Rightarrow> bool" where
  "level l \<longleftrightarrow> CHR ''/'' \<notin> set l"

definition filter_level :: "string \<Rightarrow> bool" where
  "filter_level f \<longleftrightarrow> level f \<and> (f = ''+'' \<or> CHR ''+'' \<notin> set f)"

definition level_matches :: "string \<Rightarrow> string \<Rightarrow> bool" where
  "level_matches f l \<longleftrightarrow> f = ''+'' \<or> f = l"

lemma matches_literal:
  assumes "CHR ''+'' \<notin> set xs"
  shows "mqtt_topic_matches (xs @ fs) (xs @ cs) = mqtt_topic_matches fs cs"
  using assms by (induction xs) auto

lemma matches_literal_end:
  assumes "CHR ''+'' \<notin> set xs"
  shows "mqtt_topic_matches xs cs \<longleftrightarrow> xs = cs"
  using assms
proof (induction xs arbitrary: cs)
  case (Cons x xs)
  then show ?case by (cases cs) auto
qed auto

lemma matches_literal_slash:
  assumes "CHR ''+'' \<notin> set f" and "level f" and "level l"
  shows "mqtt_topic_matches (f @ CHR ''/'' # fs) (l @ CHR ''/'' # cs) \<longleftrightarrow> f = l \<and> mqtt_topic_matches fs cs"
    and "\<not> mqtt_topic_matches (f @ CHR ''/'' # fs) l"
  using assms
proof (induction f arbitrary: l)
  case Nil
  {
    case 1
    then show ?case by (cases l) (auto simp: level_def)
  next
    case 2
    then show ?case by (cases l) (auto simp: level_def)
  }
next
  case (Cons a f)
  {
    case 1
    then show ?case using Cons.IH(1) [of "tl l"] by (cases l) (auto simp: level_def)
  next
    case 2
    then show ?case using Cons.IH(2) [of "tl l"] by (cases l) (auto simp: level_def)
  }
qed

lemma dropWhile_level: "level l \<Longrightarrow> dropWhile (\<lambda>x. x \<noteq> CHR ''/'') (l @ CHR ''/'' # cs) = CHR ''/'' # cs"
  "level l \<Longrightarrow> dropWhile (\<lambda>x. x \<noteq> CHR ''/'') l = []"
  by (induction l) (auto simp: level_def)

lemma matches_plus_slash:
  assumes "level l"
  shows "mqtt_topic_matches (CHR ''+'' # CHR ''/'' # fs) (l @ CHR ''/'' # cs) = mqtt_topic_matches fs cs"
    and "\<not> mqtt_topic_matches (CHR ''+'' # CHR ''/'' # fs) l"
  using assms by (cases l; auto simp: level_def dropWhile_level dropWhile_append3)+

lemma matches_plus_end:
  assumes "level l"
  shows "mqtt_topic_matches ''+'' l \<longleftrightarrow> l \<noteq> []" and "\<not> mqtt_topic_matches ''+'' (l @ CHR ''/'' # cs)"
  using assms by (cases l; auto simp: level_def dropWhile_level)+

subsection \<open>The matcher is level-wise matching\<close>

lemma level_matches_plus: "level_matches ''+'' l"
  by (simp add: level_matches_def)

lemma level_matches_other: "f \<noteq> ''+'' \<Longrightarrow> level_matches f l \<longleftrightarrow> f = l"
  by (simp add: level_matches_def)

lemma matches_levels:
  assumes "fl \<noteq> []" and "ts \<noteq> []" and "\<forall>f \<in> set fl. filter_level f" and "\<forall>l \<in> set ts. level l"
  shows "mqtt_topic_matches (join_levels fl) (join_levels ts) \<longleftrightarrow>
    list_all2 level_matches fl ts \<and> \<not> (last fl = ''+'' \<and> last ts = [])"
  using assms
proof (induction fl arbitrary: ts rule: join_levels.induct)
  case (2 f)
  then obtain l ls where ts: "ts = l # ls" by (cases ts) auto
  show ?case
  proof (cases "f = ''+''")
    case True
    with 2 ts show ?thesis
      by (cases ls) (auto simp: matches_plus_end level_matches_plus level_matches_other)
  next
    case False
    with 2 ts have f: "CHR ''+'' \<notin> set f" "level f" by (auto simp: filter_level_def)
    show ?thesis
    proof (cases ls)
      case Nil
      with False f ts show ?thesis by (simp add: matches_literal_end level_matches_plus level_matches_other)
    next
      case (Cons l2 ls2)
      then have "f \<noteq> l @ CHR ''/'' # join_levels ls" using f(2) by (auto simp: level_def)
      with f ts Cons show ?thesis by (simp add: matches_literal_end)
    qed
  qed
next
  case (3 f f2 fs)
  then obtain l ls where ts: "ts = l # ls" by (cases ts) auto
  have lvl: "level l" using 3 ts by simp
  show ?case
  proof (cases ls)
    case Nil
    with 3 ts lvl show ?thesis
      by (cases "f = ''+''") (auto simp: matches_plus_slash matches_literal_slash filter_level_def)
  next
    case (Cons l2 ls2)
    have IH: "mqtt_topic_matches (join_levels (f2 # fs)) (join_levels ls) \<longleftrightarrow>
        list_all2 level_matches (f2 # fs) ls \<and> \<not> (last (f2 # fs) = ''+'' \<and> last ls = [])"
      by (rule "3.IH") (use 3 ts Cons in auto)
    show ?thesis
    proof (cases "f = ''+''")
      case True
      with IH ts Cons matches_plus_slash(1) [OF lvl, of "join_levels (f2 # fs)" "join_levels ls"] show ?thesis
        by (simp add: level_matches_plus level_matches_other)
    next
      case False
      with 3 have f: "CHR ''+'' \<notin> set f" "level f" by (auto simp: filter_level_def)
      from False IH ts Cons matches_literal_slash(1) [OF f lvl, of "join_levels (f2 # fs)" "join_levels ls"] show ?thesis
        by (simp add: level_matches_plus level_matches_other)
    qed
  qed
qed simp

text \<open>
  C32. The matcher is level-wise matching: for a well-formed filter (a \<open>+\<close> is a level of its own) and any topic, it
  accepts exactly when both have the same number of levels and each filter level is \<open>+\<close> or equal to the topic's,
  except that a trailing \<open>+\<close> does not accept an empty last level, which the MQTT standard has it accept.
\<close>

theorem topic_matches_levels:
  assumes "fl \<noteq> []" and "ts \<noteq> []" and "\<forall>f \<in> set fl. filter_level f" and "\<forall>l \<in> set ts. level l"
  shows "mqtt_topic_matches (join_levels fl) (join_levels ts) \<longleftrightarrow>
    list_all2 (\<lambda>f l. f = ''+'' \<or> f = l) fl ts \<and> \<not> (last fl = ''+'' \<and> last ts = [])"
  using matches_levels [OF assms] by (simp add: level_matches_def [abs_def])

theorem topic_matches_levels_witness:
  "mqtt_topic_matches ''node/+/params'' ''node/dev1/params'' \<longleftrightarrow>
    list_all2 (\<lambda>f l. f = ''+'' \<or> f = l) [''node'', ''+'', ''params''] [''node'', ''dev1'', ''params'']
    \<and> \<not> (last [''node'', ''+'', ''params''] = ''+'' \<and> last [''node'', ''dev1'', ''params''] = [])"
  using topic_matches_levels [of "[''node'', ''+'', ''params'']" "[''node'', ''dev1'', ''params'']"]
  by (simp add: filter_level_def level_def)

end
