(* ===== verification/Mqtt_Glue.thy ===== *)
theory Mqtt_Glue
  imports Mqtt_Topic
begin

section \<open>The MQTT glue: subscriptions, retries and events\<close>

text \<open>
  Models \<open>src/esp-mqtt/esp-mqtt-glue.c\<close>. The state is \<open>mqtt_data\<close>: the table of subscriptions, the
  connection flags, the retry delay, the parked early SUBACKs and the counters of the deinit handshake. esp-mqtt,
  the FreeRTOS timer and the event loop are outside the repository: what they return (message ids, tick counts,
  whether a timer command was queued, allocations) are arguments, and the calls made to them are listed as
  outputs in order. An operation that releases the lock has an argument \<open>mid\<close> for what the other tasks do
  in between.
\<close>

definition SUB_RETRY_BASE_MS :: nat where "SUB_RETRY_BASE_MS = 5 * 1000"
definition SUB_RETRY_MAX_MS :: nat where "SUB_RETRY_MAX_MS = 60 * 1000"
definition SUB_EARLY_ACK_SLOTS :: nat where "SUB_EARLY_ACK_SLOTS = 4"
definition SUB_EARLY_ACK_TTL_MS :: nat where "SUB_EARLY_ACK_TTL_MS = 5000"

lemmas sub_consts = SUB_RETRY_BASE_MS_def SUB_RETRY_MAX_MS_def SUB_EARLY_ACK_SLOTS_def SUB_EARLY_ACK_TTL_MS_def

subsection \<open>Data\<close>

datatype sub_state = SUB_NONE | SUB_REQUESTED | SUB_ACKNOWLEDGED | SUB_FAILED

record ('c, 'p) sub =
  sub_topic :: string
  sub_cb :: 'c
  sub_priv :: 'p
  sub_state :: sub_state
  sub_msg_id :: int
  sub_qos :: nat
  sub_tick :: u32

record early_ack =
  ea_msg_id :: int
  ea_rejected :: bool
  ea_tick :: u32

record ('c, 'p) glue =
  g_subs :: "('c, 'p) sub slots"
  g_connected :: bool
  g_connecting :: bool
  g_delay :: nat
  g_arm_pending :: bool
  g_early :: "early_ack list"
  g_deleting :: bool
  g_busy :: int

text \<open>The build: tick period, \<open>pdMS_TO_TICKS\<close>, the outbox expiry, and whether the retry timer could be created.\<close>

record tick_config =
  tick_period_ms :: u32
  ms_to_ticks :: "nat \<Rightarrow> u32"
  request_expiry_ms :: nat
  sub_timer :: bool

datatype glue_out =
    Out_Subscribe string nat
  | Out_Unsubscribe string
  | Out_Publish string
  | Out_Timer_Arm nat
  | Out_Timer_Stop
  | Out_Event_Subscribed string
  | Out_Event_Failed string
  | Out_Event_Connected
  | Out_Event_Disconnected
  | Out_Event_Published int
  | Out_Event_Deleted int
  | Out_Event_Error

definition map_subs :: "(('c, 'p) sub \<Rightarrow> ('c, 'p) sub) \<Rightarrow> ('c, 'p) glue \<Rightarrow> ('c, 'p) glue" where
  "map_subs f g = g\<lparr>g_subs := map (map_option f) (g_subs g)\<rparr>"

subsection \<open>Entering and leaving operations\<close>

text \<open>\<open>lock\<close>: the recursive mutex has been created; \<open>d\<close> is \<open>mqtt_data\<close>.\<close>

definition glue_begin_op :: "bool \<Rightarrow> ('c, 'p) glue option \<Rightarrow> bool \<times> ('c, 'p) glue option" where
  "glue_begin_op lock d =
     (if \<not> lock then (False, d)
      else case d of
        None \<Rightarrow> (False, d)
      | Some g \<Rightarrow> if g_deleting g then (False, d) else (True, Some (g\<lparr>g_busy := g_busy g + 1\<rparr>)))"

text \<open>\<open>None\<close>: the pointer is NULL.\<close>

definition glue_end_op :: "('c, 'p) glue option \<Rightarrow> ('c, 'p) glue option" where
  "glue_end_op d = map_option (\<lambda>g. g\<lparr>g_busy := g_busy g - 1\<rparr>) d"

subsection \<open>Incoming messages\<close>

text \<open>\<open>esp_mqtt_glue_subscribe_callback\<close>: the callbacks to run with the topic and the data; \<open>alloc\<close> is the copy of the topic.\<close>

definition subscribe_callback ::
  "('c, 'p) glue \<Rightarrow> bool \<Rightarrow> string \<Rightarrow> bytes \<Rightarrow> ('c \<times> string \<times> bytes \<times> 'p) list" where
  "subscribe_callback g alloc topic data =
     (if \<not> alloc then []
      else map (\<lambda>s. (sub_cb s, topic, data, sub_priv s))
             (filter (\<lambda>s. mqtt_topic_matches (sub_topic s) topic) (entries (g_subs g))))"

definition reset_subscription_states :: "('c, 'p) glue \<Rightarrow> ('c, 'p) glue" where
  "reset_subscription_states g = map_subs (\<lambda>s. s\<lparr>sub_state := SUB_NONE\<rparr>) g"

subsection \<open>Early acknowledgements\<close>

text \<open>The slot loop: the first free or expired slot, else the oldest.\<close>

fun park_slot :: "u32 \<Rightarrow> u32 \<Rightarrow> early_ack list \<Rightarrow> nat list \<Rightarrow> nat \<Rightarrow> nat" where
  "park_slot now ttl es [] slot = slot"
| "park_slot now ttl es (i # is) slot =
     (if ea_msg_id (es ! i) = 0 \<or> now - ea_tick (es ! i) > ttl then i
      else park_slot now ttl es is
             (if now - ea_tick (es ! i) > now - ea_tick (es ! slot) then i else slot))"

definition park_early_ack :: "tick_config \<Rightarrow> u32 \<Rightarrow> int \<Rightarrow> bool \<Rightarrow> ('c, 'p) glue \<Rightarrow> ('c, 'p) glue" where
  "park_early_ack cfg now msg_id rejected g =
     (let es = g_early g;
          slot = park_slot now (ms_to_ticks cfg SUB_EARLY_ACK_TTL_MS) es [0..<length es] 0
      in g\<lparr>g_early := es[slot := \<lparr>ea_msg_id = msg_id, ea_rejected = rejected, ea_tick = now\<rparr>]\<rparr>)"

fun take_early :: "u32 \<Rightarrow> u32 \<Rightarrow> int \<Rightarrow> early_ack list \<Rightarrow> bool option \<times> early_ack list" where
  "take_early now ttl msg_id [] = (None, [])"
| "take_early now ttl msg_id (e # es) =
     (if ea_msg_id e = msg_id \<and> now - ea_tick e \<le> ttl then (Some (ea_rejected e), e\<lparr>ea_msg_id := 0\<rparr> # es)
      else (case take_early now ttl msg_id es of (r, es') \<Rightarrow> (r, e # es')))"

definition take_early_ack :: "tick_config \<Rightarrow> u32 \<Rightarrow> int \<Rightarrow> ('c, 'p) glue \<Rightarrow> bool option \<times> ('c, 'p) glue" where
  "take_early_ack cfg now msg_id g =
     (case take_early now (ms_to_ticks cfg SUB_EARLY_ACK_TTL_MS) msg_id (g_early g) of
        (r, es) \<Rightarrow> (r, g\<lparr>g_early := es\<rparr>))"

subsection \<open>The retry timer\<close>

text \<open>\<open>posted\<close>: the timer command was queued within its block time.\<close>

definition schedule_sub_retry ::
  "tick_config \<Rightarrow> u32 \<Rightarrow> bool \<Rightarrow> ('c, 'p) glue \<Rightarrow> ('c, 'p) glue \<times> glue_out list" where
  "schedule_sub_retry cfg tick posted g =
     (let subs = entries (g_subs g);
          requested = list_ex (\<lambda>s. sub_state s = SUB_REQUESTED) subs;
          failed = list_ex (\<lambda>s. sub_state s \<noteq> SUB_ACKNOWLEDGED \<and> sub_state s \<noteq> SUB_REQUESTED) subs;
          (delay_ms, g1) =
            (if \<not> g_connected g then (0, g\<lparr>g_delay := SUB_RETRY_BASE_MS\<rparr>)
             else if failed
             then (usize (g_delay g + unat (tick * tick_period_ms cfg) mod SUB_RETRY_BASE_MS), g)
             else if requested then (usize (request_expiry_ms cfg + 1000), g)
             else (0, g\<lparr>g_delay := SUB_RETRY_BASE_MS\<rparr>))
      in if \<not> sub_timer cfg then (g1, [])
         else if posted then (g1, [if delay_ms \<noteq> 0 then Out_Timer_Arm delay_ms else Out_Timer_Stop])
         else (g1\<lparr>g_arm_pending := True\<rparr>, []))"

definition report_suback ::
  "tick_config \<Rightarrow> u32 \<Rightarrow> bool \<Rightarrow> string \<Rightarrow> bool \<Rightarrow> ('c, 'p) glue \<Rightarrow> ('c, 'p) glue \<times> glue_out list" where
  "report_suback cfg tick posted topic rejected g =
     (case schedule_sub_retry cfg tick posted g of
        (g', outs) \<Rightarrow> (g', (if rejected then Out_Event_Failed topic else Out_Event_Subscribed topic) # outs))"

subsection \<open>Sending a SUBSCRIBE\<close>

text \<open>What the platform answers during one send: ticks, the message id, the timer command.\<close>

record send_env =
  se_tick :: u32
  se_ret :: int
  se_tick2 :: u32
  se_sched_tick :: u32
  se_posted :: bool

definition send_reserve :: "u32 \<Rightarrow> string \<Rightarrow> ('c, 'p) glue \<Rightarrow> ('c, 'p) glue" where
  "send_reserve now topic g =
     map_subs (\<lambda>s. if sub_topic s = topic then s\<lparr>sub_msg_id := -1, sub_state := SUB_REQUESTED, sub_tick := now\<rparr> else s) g"

definition send_record ::
  "tick_config \<Rightarrow> u32 \<Rightarrow> string \<Rightarrow> int \<Rightarrow> ('c, 'p) glue \<Rightarrow> bool option \<times> ('c, 'p) glue" where
  "send_record cfg now topic ret g =
     (let (early, g1) = (if ret \<ge> 0 then take_early_ack cfg now ret g else (None, g))
      in (early,
          map_subs (\<lambda>s.
            if sub_topic s \<noteq> topic \<or> sub_state s \<noteq> SUB_REQUESTED \<or> sub_msg_id s \<noteq> -1 then s
            else if ret < 0 then s\<lparr>sub_state := SUB_FAILED\<rparr>
            else (case early of
                    None \<Rightarrow> s\<lparr>sub_msg_id := ret\<rparr>
                  | Some rejected \<Rightarrow>
                      s\<lparr>sub_msg_id := ret, sub_state := (if rejected then SUB_FAILED else SUB_ACKNOWLEDGED)\<rparr>)) g1))"

definition send_subscribe ::
  "tick_config \<Rightarrow> send_env \<Rightarrow> (('c, 'p) glue \<Rightarrow> ('c, 'p) glue \<times> glue_out list) \<Rightarrow> string \<Rightarrow> nat
     \<Rightarrow> ('c, 'p) glue \<Rightarrow> ('c, 'p) glue \<times> glue_out list" where
  "send_subscribe cfg env mid topic qos g =
     (let connected = g_connected g;
          g1 = send_reserve (se_tick env) topic g;
          ret = (if connected then se_ret env else -1);
          outs1 = (if connected then [Out_Subscribe topic qos] else []);
          (g2, outs2) = mid g1;
          (early, g3) = send_record cfg (se_tick2 env) topic ret g2;
          (g4, outs4) =
            (if ret < 0 then (g3, [])
             else case early of
               Some rejected \<Rightarrow> report_suback cfg (se_sched_tick env) (se_posted env) topic rejected g3
             | None \<Rightarrow> (g3, []))
      in (g4, outs1 @ outs2 @ outs4))"

definition sub_needs_send :: "tick_config \<Rightarrow> u32 \<Rightarrow> ('c, 'p) sub \<Rightarrow> bool" where
  "sub_needs_send cfg now s =
     (case sub_state s of
        SUB_ACKNOWLEDGED \<Rightarrow> False
      | SUB_REQUESTED \<Rightarrow> now - sub_tick s > ms_to_ticks cfg (request_expiry_ms cfg)
      | _ \<Rightarrow> True)"

subsection \<open>Re-sending what is pending\<close>

record pending_sub =
  ps_topic :: string
  ps_qos :: nat
  ps_no_suback :: bool

text \<open>The inner loop: the first pending entry of the topic gets the higher QoS.\<close>

fun raise_qos :: "string \<Rightarrow> nat \<Rightarrow> pending_sub list \<Rightarrow> pending_sub list option" where
  "raise_qos topic qos [] = None"
| "raise_qos topic qos (p # ps) =
     (if ps_topic p = topic then Some ((if qos > ps_qos p then p\<lparr>ps_qos := qos\<rparr> else p) # ps)
      else map_option (Cons p) (raise_qos topic qos ps))"

text \<open>The collecting loop; \<open>alloc n\<close>: the copy of the \<open>n\<close>-th topic succeeds, otherwise the loop ends there.\<close>

fun collect_pending ::
  "tick_config \<Rightarrow> u32 \<Rightarrow> (nat \<Rightarrow> bool) \<Rightarrow> ('c, 'p) sub slots \<Rightarrow> pending_sub list \<Rightarrow> pending_sub list" where
  "collect_pending cfg now alloc [] ps = ps"
| "collect_pending cfg now alloc (None # ss) ps = collect_pending cfg now alloc ss ps"
| "collect_pending cfg now alloc (Some s # ss) ps =
     (if \<not> sub_needs_send cfg now s then collect_pending cfg now alloc ss ps
      else case raise_qos (sub_topic s) (sub_qos s) ps of
        Some ps' \<Rightarrow> collect_pending cfg now alloc ss ps'
      | None \<Rightarrow>
          if \<not> alloc (length ps) then ps
          else collect_pending cfg now alloc ss
                 (ps @ [\<lparr>ps_topic = sub_topic s, ps_qos = sub_qos s, ps_no_suback = (sub_state s = SUB_REQUESTED)\<rparr>]))"

text \<open>The sending loop; \<open>env i\<close>, \<open>mid i\<close> belong to the \<open>i\<close>-th send. The last component is \<open>resent_failed\<close>.\<close>

fun resend_all ::
  "tick_config \<Rightarrow> (nat \<Rightarrow> send_env) \<Rightarrow> (nat \<Rightarrow> ('c, 'p) glue \<Rightarrow> ('c, 'p) glue \<times> glue_out list) \<Rightarrow> nat
     \<Rightarrow> pending_sub list \<Rightarrow> ('c, 'p) glue \<Rightarrow> ('c, 'p) glue \<times> glue_out list \<times> bool" where
  "resend_all cfg env mid i [] g = (g, [], False)"
| "resend_all cfg env mid i (p # ps) g =
     (let outs1 = (if ps_no_suback p then [Out_Event_Failed (ps_topic p)] else []);
          (g2, outs2) = send_subscribe cfg (env i) (mid i) (ps_topic p) (ps_qos p) g;
          (g3, outs3, resent) = resend_all cfg env mid (Suc i) ps g2
      in (g3, outs1 @ outs2 @ outs3, \<not> ps_no_suback p \<or> resent))"

definition resubscribe_pending ::
  "tick_config \<Rightarrow> u32 \<Rightarrow> (nat \<Rightarrow> bool) \<Rightarrow> (nat \<Rightarrow> send_env) \<Rightarrow> (nat \<Rightarrow> ('c, 'p) glue \<Rightarrow> ('c, 'p) glue \<times> glue_out list)
     \<Rightarrow> ('c, 'p) glue \<Rightarrow> ('c, 'p) glue \<times> glue_out list \<times> bool" where
  "resubscribe_pending cfg now alloc env mid g =
     resend_all cfg env mid 0 (collect_pending cfg now alloc (g_subs g) []) g"

text \<open>One retry round between \<open>glue_begin_op\<close> and \<open>glue_end_op\<close>; \<open>tick\<close>, \<open>posted\<close> belong to its rescheduling.\<close>

definition back_off :: "('c, 'p) glue \<Rightarrow> ('c, 'p) glue" where
  "back_off g =
     (let d = usize (g_delay g * 2) in g\<lparr>g_delay := (if d > SUB_RETRY_MAX_MS then SUB_RETRY_MAX_MS else d)\<rparr>)"

definition sub_retry_work ::
  "tick_config \<Rightarrow> u32 \<Rightarrow> (nat \<Rightarrow> bool) \<Rightarrow> (nat \<Rightarrow> send_env) \<Rightarrow> (nat \<Rightarrow> ('c, 'p) glue \<Rightarrow> ('c, 'p) glue \<times> glue_out list)
     \<Rightarrow> u32 \<Rightarrow> bool \<Rightarrow> bool \<Rightarrow> ('c, 'p) glue option \<Rightarrow> ('c, 'p) glue option \<times> glue_out list" where
  "sub_retry_work cfg now alloc env mid tick posted lock d =
     (case glue_begin_op lock d of
        (True, Some g) \<Rightarrow>
          (let (g1, outs1, resent) = resubscribe_pending cfg now alloc env mid g;
               g2 = (if resent then back_off g1 else g1);
               (g3, outs3) = schedule_sub_retry cfg tick posted g2
           in (glue_end_op (Some g3), outs1 @ outs3))
      | (_, d') \<Rightarrow> (d', []))"

definition mark_disconnected :: "tick_config \<Rightarrow> bool \<Rightarrow> ('c, 'p) glue \<Rightarrow> ('c, 'p) glue \<times> glue_out list" where
  "mark_disconnected cfg posted g =
     ((reset_subscription_states (g\<lparr>g_connected := False, g_connecting := False\<rparr>))\<lparr>g_delay := SUB_RETRY_BASE_MS\<rparr>,
      if sub_timer cfg \<and> posted then [Out_Timer_Stop] else [])"

subsection \<open>Subscribe\<close>

text \<open>The single pass over the table: last entry of the topic with the same callback, whether the topic is
  acknowledged, first empty slot.\<close>

fun scan_subs ::
  "string \<Rightarrow> 'c \<Rightarrow> nat \<Rightarrow> ('c, 'p) sub slots \<Rightarrow> nat option \<times> bool \<times> nat option \<Rightarrow> nat option \<times> bool \<times> nat option" where
  "scan_subs topic cb i [] acc = acc"
| "scan_subs topic cb i (None # ss) (existing, active, vacant) =
     scan_subs topic cb (Suc i) ss (existing, active, if vacant = None then Some i else vacant)"
| "scan_subs topic cb i (Some s # ss) (existing, active, vacant) =
     scan_subs topic cb (Suc i) ss
       (if topic = sub_topic s
        then (if cb = sub_cb s then Some i else existing, active \<or> sub_state s = SUB_ACKNOWLEDGED, vacant)
        else (existing, active, vacant))"

text \<open>The table update under the lock; the last component is the QoS to send with, if a SUBSCRIBE is needed.\<close>

definition subscribe_update ::
  "bool \<Rightarrow> string \<Rightarrow> 'c \<Rightarrow> nat \<Rightarrow> 'p \<Rightarrow> ('c, 'p) glue \<Rightarrow> esp_err \<times> ('c, 'p) glue \<times> nat option" where
  "subscribe_update alloc topic cb qos priv g =
     (case scan_subs topic cb 0 (g_subs g) (None, False, None) of
        (Some i, _, _) \<Rightarrow>
          (case g_subs g ! i of
             None \<Rightarrow> (ESP_FAIL, g, None)
           | Some s \<Rightarrow>
               let need_send = (sub_qos s < qos \<or> sub_state s = SUB_NONE \<or> sub_state s = SUB_FAILED);
                   s' = s\<lparr>sub_priv := priv, sub_qos := (if sub_qos s < qos then qos else sub_qos s)\<rparr>
               in (ESP_OK, g\<lparr>g_subs := (g_subs g)[i := Some s']\<rparr>, if need_send then Some (sub_qos s') else None))
      | (None, active, vacant) \<Rightarrow>
          (case vacant of
             None \<Rightarrow> (ESP_FAIL, g, None)
           | Some i \<Rightarrow>
               if \<not> alloc then (ESP_FAIL, g, None)
               else (ESP_OK,
                     g\<lparr>g_subs := (g_subs g)[i := Some \<lparr>sub_topic = topic, sub_cb = cb, sub_priv = priv,
                         sub_state = (if active then SUB_ACKNOWLEDGED else SUB_NONE), sub_msg_id = 0, sub_qos = qos,
                         sub_tick = 0\<rparr>]\<rparr>,
                     if active then None else Some qos)))"

text \<open>The whole call; a NULL topic or callback is \<open>None\<close>.\<close>

definition esp_mqtt_glue_subscribe ::
  "tick_config \<Rightarrow> bool \<Rightarrow> send_env \<Rightarrow> (('c, 'p) glue \<Rightarrow> ('c, 'p) glue \<times> glue_out list) \<Rightarrow> u32 \<Rightarrow> bool \<Rightarrow> bool
     \<Rightarrow> string option \<Rightarrow> 'c option \<Rightarrow> nat \<Rightarrow> 'p \<Rightarrow> ('c, 'p) glue option \<Rightarrow> esp_err \<times> ('c, 'p) glue option \<times> glue_out list" where
  "esp_mqtt_glue_subscribe cfg alloc env mid tick posted lock topic cb qos priv d =
     (case (topic, cb) of
        (Some t, Some c) \<Rightarrow>
          (case glue_begin_op lock d of
             (True, Some g) \<Rightarrow>
               (case subscribe_update alloc t c qos priv g of
                  (err, g1, None) \<Rightarrow> (err, glue_end_op (Some g1), [])
                | (err, g1, Some q) \<Rightarrow>
                    (let (g2, outs2) = send_subscribe cfg env mid t q g1;
                         (g3, outs3) = schedule_sub_retry cfg tick posted g2
                     in (err, glue_end_op (Some g3), outs2 @ outs3)))
           | (_, d') \<Rightarrow> (ESP_FAIL, d', []))
      | _ \<Rightarrow> (ESP_FAIL, d, []))"

subsection \<open>Unsubscribe\<close>

definition detach :: "nat \<Rightarrow> ('c, 'p) glue \<Rightarrow> ('c, 'p) sub option \<times> bool \<times> ('c, 'p) glue" where
  "detach i g =
     (case g_subs g ! i of
        None \<Rightarrow> (None, False, g)
      | Some s \<Rightarrow>
          let subs' = (g_subs g)[i := None]
          in (Some s, g_connected g \<and> \<not> list_ex (\<lambda>s'. sub_topic s' = sub_topic s) (entries subs'), g\<lparr>g_subs := subs'\<rparr>))"

definition release_outs :: "('c, 'p) sub option \<Rightarrow> bool \<Rightarrow> glue_out list" where
  "release_outs s send = (case s of None \<Rightarrow> [] | Some x \<Rightarrow> if send then [Out_Unsubscribe (sub_topic x)] else [])"

definition esp_mqtt_glue_unsubscribe ::
  "bool \<Rightarrow> string option \<Rightarrow> ('c, 'p) glue option \<Rightarrow> esp_err \<times> ('c, 'p) glue option \<times> glue_out list" where
  "esp_mqtt_glue_unsubscribe lock topic d =
     (case topic of
        None \<Rightarrow> (ESP_FAIL, d, [])
      | Some t \<Rightarrow>
          (case glue_begin_op lock d of
             (True, Some g) \<Rightarrow>
               (case find_slot (\<lambda>s. take (length t) (sub_topic s) = t) (g_subs g) of
                  None \<Rightarrow> (ESP_FAIL, glue_end_op (Some g), [])
                | Some i \<Rightarrow>
                    (case detach i g of (s, send, g1) \<Rightarrow> (ESP_OK, glue_end_op (Some g1), release_outs s send)))
           | (_, d') \<Rightarrow> (ESP_FAIL, d', [])))"

fun unsubscribe_all_loop :: "nat list \<Rightarrow> ('c, 'p) glue \<Rightarrow> ('c, 'p) glue \<times> glue_out list" where
  "unsubscribe_all_loop [] g = (g, [])"
| "unsubscribe_all_loop (i # is) g =
     (case detach i g of (s, send, g1) \<Rightarrow>
        (case unsubscribe_all_loop is g1 of (g2, outs) \<Rightarrow> (g2, release_outs s send @ outs)))"

definition unsubscribe_all :: "('c, 'p) glue \<Rightarrow> ('c, 'p) glue \<times> glue_out list" where
  "unsubscribe_all g = unsubscribe_all_loop [0..<length (g_subs g)] g"

subsection \<open>Publish\<close>

text \<open>The stored message id is the last component; \<open>want_id\<close>: the pointer for it is not NULL.\<close>

definition esp_mqtt_glue_publish ::
  "int \<Rightarrow> bool \<Rightarrow> string option \<Rightarrow> bytes option \<Rightarrow> bool \<Rightarrow> ('c, 'p) glue option
     \<Rightarrow> esp_err \<times> ('c, 'p) glue option \<times> glue_out list \<times> int option" where
  "esp_mqtt_glue_publish ret lock topic data want_id d =
     (if topic = None \<or> data = None then (ESP_FAIL, d, [], None)
      else case glue_begin_op lock d of
        (True, Some g) \<Rightarrow>
          if g_connecting g then (ESP_ERR_INVALID_STATE, glue_end_op (Some g), [], None)
          else (if ret < 0 then ESP_FAIL else ESP_OK, glue_end_op (Some g), [Out_Publish (the topic)],
                if ret \<ge> 0 \<and> want_id then Some ret else None)
      | (_, d') \<Rightarrow> (ESP_FAIL, d', [], None))"

subsection \<open>Messages longer than the receive buffer\<close>

record long_data =
  ld_data :: bytes
  ld_topic :: string

record data_event =
  ev_topic :: "string option"
  ev_data :: bytes
  ev_total_len :: nat
  ev_offset :: nat

text \<open>
  \<open>alloc\<close>: the three allocations for a new message. The result is \<open>long_data\<close> afterwards and the complete message, if
  there is one; the outer \<open>None\<close> is a copy outside the buffer.
\<close>

definition manage_long_data ::
  "bool \<Rightarrow> long_data option \<Rightarrow> data_event \<Rightarrow> (long_data option \<times> (string \<times> bytes) option) option" where
  "manage_long_data alloc ld ev =
     (case (case ev_topic ev of
              Some t \<Rightarrow> (if alloc then Some \<lparr>ld_data = replicate (ev_total_len ev) 0, ld_topic = t\<rparr> else None)
            | None \<Rightarrow> ld) of
        None \<Rightarrow> Some (None, None)
      | Some l \<Rightarrow>
          (case wr_n (ld_data l) (int (ev_offset ev)) (ev_data ev) of
             None \<Rightarrow> None
           | Some buf \<Rightarrow>
               if ev_offset ev + length (ev_data ev) = ev_total_len ev
               then Some (None, Some (ld_topic l, take (ev_total_len ev) buf))
               else Some (Some (l\<lparr>ld_data := buf\<rparr>), None)))"

text \<open>The \<open>MQTT_EVENT_DATA\<close> branch; \<open>None\<close> also when a message in one piece comes without a topic.\<close>

definition data_event_handler ::
  "bool \<Rightarrow> long_data option \<Rightarrow> data_event \<Rightarrow> (long_data option \<times> (string \<times> bytes) option) option" where
  "data_event_handler alloc ld ev =
     (if length (ev_data ev) = ev_total_len ev
      then (case ev_topic ev of None \<Rightarrow> None | Some t \<Rightarrow> Some (None, Some (t, ev_data ev)))
      else manage_long_data alloc ld ev)"

subsection \<open>The event handler\<close>

datatype mqtt_event =
    Ev_Connected
  | Ev_Disconnected
  | Ev_Before_Connect
  | Ev_Subscribed int bool
  | Ev_Unsubscribed int
  | Ev_Published int
  | Ev_Deleted int
  | Ev_Error bool
  | Ev_Other

text \<open>What the platform answers while one event is handled: the timer commands, whether a topic can be copied, the
  sends of a reconnect.\<close>

record ('c, 'p) event_env =
  ee_tick :: u32
  ee_posted :: bool
  ee_tick2 :: u32
  ee_posted2 :: bool
  ee_dup :: bool
  ee_alloc :: "nat \<Rightarrow> bool"
  ee_send :: "nat \<Rightarrow> send_env"
  ee_mid :: "nat \<Rightarrow> ('c, 'p) glue \<Rightarrow> ('c, 'p) glue \<times> glue_out list"

text \<open>The part before the switch: re-issue a dropped timer command, leave the connecting state.\<close>

definition event_prologue ::
  "tick_config \<Rightarrow> ('c, 'p) event_env \<Rightarrow> mqtt_event \<Rightarrow> ('c, 'p) glue \<Rightarrow> ('c, 'p) glue \<times> glue_out list" where
  "event_prologue cfg env ev g =
     (let g1 = g\<lparr>g_arm_pending := False, g_connecting := (if ev \<noteq> Ev_Before_Connect then False else g_connecting g)\<rparr>
      in if g_arm_pending g then schedule_sub_retry cfg (ee_tick env) (ee_posted env) g1 else (g1, []))"

text \<open>The entries a SUBACK or a deleted message refers to, and the topic of the first of them.\<close>

definition matches_msg :: "int \<Rightarrow> ('c, 'p) sub \<Rightarrow> bool" where
  "matches_msg msg_id s \<longleftrightarrow> sub_state s = SUB_REQUESTED \<and> sub_msg_id s = msg_id"

definition settle_subs :: "bool \<Rightarrow> int \<Rightarrow> sub_state \<Rightarrow> ('c, 'p) glue \<Rightarrow> string option \<times> ('c, 'p) glue" where
  "settle_subs dup msg_id st g =
     (if dup then map_option sub_topic (find (matches_msg msg_id) (entries (g_subs g))) else None,
      map_subs (\<lambda>s. if matches_msg msg_id s then s\<lparr>sub_state := st\<rparr> else s) g)"

definition suback_handler ::
  "tick_config \<Rightarrow> ('c, 'p) event_env \<Rightarrow> int \<Rightarrow> bool \<Rightarrow> ('c, 'p) glue \<Rightarrow> ('c, 'p) glue \<times> glue_out list" where
  "suback_handler cfg env msg_id rejected g =
     (case settle_subs (ee_dup env) msg_id (if rejected then SUB_FAILED else SUB_ACKNOWLEDGED) g of
        (None, g1) \<Rightarrow> (park_early_ack cfg (ee_tick2 env) msg_id rejected g1, [])
      | (Some topic, g1) \<Rightarrow> report_suback cfg (ee_tick2 env) (ee_posted2 env) topic rejected g1)"

definition connected_handler ::
  "tick_config \<Rightarrow> ('c, 'p) event_env \<Rightarrow> ('c, 'p) glue \<Rightarrow> ('c, 'p) glue \<times> glue_out list" where
  "connected_handler cfg env g =
     (let g1 = (reset_subscription_states (g\<lparr>g_connected := True\<rparr>))\<lparr>g_delay := SUB_RETRY_BASE_MS\<rparr>;
          (g2, outs2, _) = resubscribe_pending cfg (ee_tick2 env) (ee_alloc env) (ee_send env) (ee_mid env) g1;
          (g3, outs3) = schedule_sub_retry cfg (ee_tick2 env) (ee_posted2 env) g2
      in (g3, outs2 @ outs3 @ [Out_Event_Connected]))"

definition deleted_handler ::
  "tick_config \<Rightarrow> ('c, 'p) event_env \<Rightarrow> int \<Rightarrow> ('c, 'p) glue \<Rightarrow> ('c, 'p) glue \<times> glue_out list" where
  "deleted_handler cfg env msg_id g =
     (case settle_subs (ee_dup env) msg_id SUB_FAILED g of
        (None, g1) \<Rightarrow> (g1, [Out_Event_Deleted msg_id])
      | (Some topic, g1) \<Rightarrow>
          (case schedule_sub_retry cfg (ee_tick2 env) (ee_posted2 env) g1 of
             (g2, outs2) \<Rightarrow> (g2, [Out_Event_Deleted msg_id, Out_Event_Failed topic] @ outs2)))"

definition mqtt_event_handler ::
  "tick_config \<Rightarrow> ('c, 'p) event_env \<Rightarrow> mqtt_event \<Rightarrow> ('c, 'p) glue \<Rightarrow> ('c, 'p) glue \<times> glue_out list" where
  "mqtt_event_handler cfg env ev g =
     (let (g1, outs1) = event_prologue cfg env ev g;
          (g2, outs2) =
            (case ev of
               Ev_Connected \<Rightarrow> connected_handler cfg env g1
             | Ev_Disconnected \<Rightarrow>
                 (case mark_disconnected cfg (ee_posted2 env) g1 of (g', outs) \<Rightarrow> (g', outs @ [Out_Event_Disconnected]))
             | Ev_Before_Connect \<Rightarrow> (g1\<lparr>g_connecting := True\<rparr>, [])
             | Ev_Subscribed msg_id rejected \<Rightarrow> suback_handler cfg env msg_id rejected g1
             | Ev_Unsubscribed msg_id \<Rightarrow> (g1, [])
             | Ev_Published msg_id \<Rightarrow> (g1, [Out_Event_Published msg_id])
             | Ev_Deleted msg_id \<Rightarrow> deleted_handler cfg env msg_id g1
             | Ev_Error has_handle \<Rightarrow> (g1, if has_handle then [Out_Event_Error] else [])
             | Ev_Other \<Rightarrow> (g1, []))
      in (g2, outs1 @ outs2))"

subsection \<open>Sample states for the concrete instances\<close>

definition sample_cfg :: tick_config where
  "sample_cfg = \<lparr>tick_period_ms = 1, ms_to_ticks = of_nat, request_expiry_ms = 30000, sub_timer = True\<rparr>"

definition sample_glue :: "(nat, nat) sub slots \<Rightarrow> (nat, nat) glue" where
  "sample_glue t = \<lparr>g_subs = t, g_connected = True, g_connecting = False, g_delay = 5000, g_arm_pending = False,
     g_early = replicate 4 \<lparr>ea_msg_id = 0, ea_rejected = False, ea_tick = 0\<rparr>, g_deleting = False, g_busy = 0\<rparr>"

definition sample_sub :: "string \<Rightarrow> nat \<Rightarrow> sub_state \<Rightarrow> int \<Rightarrow> nat \<Rightarrow> (nat, nat) sub" where
  "sample_sub topic cb st msg_id qos = \<lparr>sub_topic = topic, sub_cb = cb, sub_priv = 0, sub_state = st, sub_msg_id = msg_id,
     sub_qos = qos, sub_tick = 0\<rparr>"

definition sample_env :: "int \<Rightarrow> send_env" where
  "sample_env ret = \<lparr>se_tick = 0, se_ret = ret, se_tick2 = 0, se_sched_tick = 0, se_posted = True\<rparr>"

end
