(* ===== verification/State_Machine.thy ===== *)
theory State_Machine
  imports Rmk_Prelude
begin

section \<open>Interface: step relations and their invariants\<close>

text \<open>
  A component whose tasks interleave is a step relation with a set of initial states. \<open>reach\<close> is its set of
  reachable states. The locale is the contract of an inductive invariant, with the rule that carries it to
  every reachable state and to every step out of one; each component that has such a relation
  interprets it on its own relation and invariant.
\<close>

inductive reach :: "('s \<Rightarrow> bool) \<Rightarrow> ('s \<Rightarrow> 's \<Rightarrow> bool) \<Rightarrow> 's \<Rightarrow> bool" for start_state step where
  start: "start_state s \<Longrightarrow> reach start_state step s"
| step: "reach start_state step s \<Longrightarrow> step s s' \<Longrightarrow> reach start_state step s'"

locale inductive_invariant =
  fixes start_state :: "'s \<Rightarrow> bool"
    and step :: "'s \<Rightarrow> 's \<Rightarrow> bool"
    and inv :: "'s \<Rightarrow> bool"
  assumes base: "start_state s \<Longrightarrow> inv s"
    and preserved: "inv s \<Longrightarrow> step s s' \<Longrightarrow> inv s'"
begin

lemma reachable: "reach start_state step s \<Longrightarrow> inv s"
  by (induction rule: reach.induct) (auto intro: base preserved)

lemma reachable_step: "reach start_state step s \<Longrightarrow> step s s' \<Longrightarrow> inv s \<and> inv s'"
  by (auto intro: reachable preserved)

end

end
