(* ===== verification/Mqtt_Retry.thy ===== *)
theory Mqtt_Retry
  imports Mqtt_Glue State_Machine
begin

section \<open>Retries: no subscription is forgotten, the delays are bounded\<close>

text \<open>
  The operations of the glue as a step relation over \<open>mqtt_data\<close>, the retry timer and the retry round handed to the
  work queue, with the invariant of the retry logic: while connected, an entry that is not acknowledged always has a
  retry coming (timer armed, command pending for the next event, or round queued), and the delay stays between its
  base and its maximum.
\<close>

subsection \<open>The timer and the rounds\<close>

fun armed_after :: "bool \<Rightarrow> glue_out list \<Rightarrow> bool" where
  "armed_after a [] = a"
| "armed_after a (Out_Timer_Arm n # outs) = armed_after True outs"
| "armed_after a (Out_Timer_Stop # outs) = armed_after False outs"
| "armed_after a (out # outs) = armed_after a outs"

lemma armed_after_append: "armed_after a (xs @ ys) = armed_after (armed_after a xs) ys"
  by (induction a xs rule: armed_after.induct) auto

record ('c, 'p) glue_sys =
  gs_glue :: "('c, 'p) glue"
  gs_armed :: bool
  gs_round :: bool

definition unacked :: "('c, 'p) glue \<Rightarrow> bool" where
  "unacked g \<longleftrightarrow> (\<exists>s \<in> set (entries (g_subs g)). sub_state s \<noteq> SUB_ACKNOWLEDGED)"

definition delay_ok :: "('c, 'p) glue \<Rightarrow> bool" where
  "delay_ok g \<longleftrightarrow> SUB_RETRY_BASE_MS \<le> g_delay g \<and> g_delay g \<le> SUB_RETRY_MAX_MS"

definition retry_ok :: "('c, 'p) glue \<Rightarrow> bool \<Rightarrow> bool" where
  "retry_ok g coming \<longleftrightarrow> (g_connected g \<and> unacked g \<longrightarrow> coming \<or> g_arm_pending g)"

text \<open>What other tasks do while a send has released the lock keeps the delay in its bounds.\<close>

definition mid_ok :: "(('c, 'p) glue \<Rightarrow> ('c, 'p) glue \<times> glue_out list) \<Rightarrow> bool" where
  "mid_ok mid \<longleftrightarrow> (\<forall>g. delay_ok g \<longrightarrow> delay_ok (fst (mid g)))"

definition apply_outs :: "('c, 'p) glue_sys \<Rightarrow> ('c, 'p) glue \<Rightarrow> glue_out list \<Rightarrow> ('c, 'p) glue_sys" where
  "apply_outs s g outs = s\<lparr>gs_glue := g, gs_armed := armed_after (gs_armed s) outs\<rparr>"

inductive glue_step :: "tick_config \<Rightarrow> ('c, 'p) glue_sys \<Rightarrow> ('c, 'p) glue_sys \<Rightarrow> bool" for cfg where
  event: "mqtt_event_handler cfg env ev (gs_glue s) = (g', outs) \<Longrightarrow> \<forall>i. mid_ok (ee_mid env i) \<Longrightarrow>
    glue_step cfg s (apply_outs s g' outs)"
| subscribe: "esp_mqtt_glue_subscribe cfg alloc env mid tick posted True topic cb qos priv (Some (gs_glue s)) = (err, Some g', outs) \<Longrightarrow>
    mid_ok mid \<Longrightarrow> glue_step cfg s (apply_outs s g' outs)"
| unsubscribe: "esp_mqtt_glue_unsubscribe True topic (Some (gs_glue s)) = (err, Some g', outs) \<Longrightarrow>
    glue_step cfg s (apply_outs s g' outs)"
| publish: "esp_mqtt_glue_publish ret True topic data want_id (Some (gs_glue s)) = (err, Some g', outs, msg_id) \<Longrightarrow>
    glue_step cfg s (apply_outs s g' outs)"
| timer_fires: "gs_armed s \<Longrightarrow> glue_step cfg s (s\<lparr>gs_armed := False, gs_round := True\<rparr>)"
| retry_round: "gs_round s \<Longrightarrow> \<not> g_deleting (gs_glue s) \<Longrightarrow> \<forall>i. mid_ok (mid i) \<Longrightarrow>
    sub_retry_work cfg now alloc env mid tick posted True (Some (gs_glue s)) = (Some g', outs) \<Longrightarrow>
    glue_step cfg s ((apply_outs s g' outs)\<lparr>gs_round := False\<rparr>)"

text \<open>A new instance: no entry, not connected, the base delay.\<close>

definition glue_start :: "('c, 'p) glue_sys \<Rightarrow> bool" where
  "glue_start s \<longleftrightarrow> entries (g_subs (gs_glue s)) = [] \<and> g_delay (gs_glue s) = SUB_RETRY_BASE_MS"

subsection \<open>Every operation keeps the delay in its bounds\<close>

lemma delay_fields [simp]:
  "g_delay (map_subs f g) = g_delay g" "g_connected (map_subs f g) = g_connected g"
  "g_delay (send_reserve n t g) = g_delay g" "g_connected (send_reserve n t g) = g_connected g"
  "g_arm_pending (map_subs f g) = g_arm_pending g"
  by (simp_all add: map_subs_def send_reserve_def)

lemma delay_take: "take_early_ack cfg now m g = (r, g') \<Longrightarrow> g_delay g' = g_delay g \<and> g_connected g' = g_connected g"
  by (auto simp: take_early_ack_def split: prod.splits)

lemma delay_record: "send_record cfg now t ret g = (e, g') \<Longrightarrow> g_delay g' = g_delay g \<and> g_connected g' = g_connected g"
  by (auto simp: send_record_def split: prod.splits if_splits dest!: delay_take)

lemma delay_base [simp]: "delay_ok (g\<lparr>g_delay := SUB_RETRY_BASE_MS\<rparr>)"
  by (simp add: delay_ok_def sub_consts)

lemma delay_schedule: "schedule_sub_retry cfg tick posted g = (g', outs) \<Longrightarrow> delay_ok g \<Longrightarrow> delay_ok g'"
  by (auto simp: schedule_sub_retry_def Let_def delay_ok_def sub_consts split: if_splits)

lemma delay_report: "report_suback cfg tick posted t r g = (g', outs) \<Longrightarrow> delay_ok g \<Longrightarrow> delay_ok g'"
  by (auto simp: report_suback_def split: prod.splits dest: delay_schedule)

lemma delay_send:
  assumes "send_subscribe cfg env mid t q g = (g', outs)" and "delay_ok g" and "mid_ok mid"
  shows "delay_ok g'"
proof -
  obtain g2 outs2 where mid: "mid (send_reserve (se_tick env) t g) = (g2, outs2)" by fastforce
  have "delay_ok (send_reserve (se_tick env) t g)"
    using assms(2) by (simp add: delay_ok_def)
  then have 2: "delay_ok g2" using assms(3) mid by (metis fst_conv mid_ok_def)
  define ret where "ret = (if g_connected g then se_ret env else -1)"
  obtain e g3 where rec: "send_record cfg (se_tick2 env) t ret g2 = (e, g3)" by fastforce
  have 3: "delay_ok g3" using 2 delay_record [OF rec] by (simp add: delay_ok_def)
  show ?thesis
    using assms(1) 3 mid rec delay_report
    by (cases e) (auto simp: send_subscribe_def Let_def simp flip: ret_def split: prod.splits if_splits)
qed

lemma delay_resend:
  "resend_all cfg env mid i ps g = (g', outs, r) \<Longrightarrow> delay_ok g \<Longrightarrow> \<forall>i. mid_ok (mid i) \<Longrightarrow> delay_ok g'"
proof (induction ps arbitrary: i g outs r)
  case (Cons p ps)
  obtain g2 outs2 where send: "send_subscribe cfg (env i) (mid i) (ps_topic p) (ps_qos p) g = (g2, outs2)" by fastforce
  with Cons.prems have "delay_ok g2" by (blast intro: delay_send)
  moreover obtain outs3 r3 where "resend_all cfg env mid (Suc i) ps g2 = (g', outs3, r3)"
    using Cons.prems(1) send by (auto simp: Let_def split: prod.splits)
  ultimately show ?case using Cons.IH Cons.prems(3) by blast
qed simp

lemma delay_back_off: "delay_ok g \<Longrightarrow> delay_ok (back_off g)"
  by (auto simp: delay_ok_def back_off_def Let_def sub_consts)

subsection \<open>Rescheduling brings a retry\<close>

lemma schedule_covers:
  assumes "schedule_sub_retry cfg tick posted g = (g', outs)" and "delay_ok g" and "sub_timer cfg"
    and "request_expiry_ms cfg < 2 ^ 31"
  shows "retry_ok g' (armed_after a outs)"
proof -
  have d: "usize (g_delay g + unat (tick * tick_period_ms cfg) mod SUB_RETRY_BASE_MS) \<noteq> 0"
  proof -
    obtain m where m: "unat (tick * tick_period_ms cfg) mod SUB_RETRY_BASE_MS = m" "m < 5000"
      by (simp add: sub_consts)
    then have "g_delay g + m < 2 ^ 32"
      using assms(2) by (simp add: delay_ok_def sub_consts)
    from usize_small [OF this] show ?thesis using assms(2) m(1) by (simp add: delay_ok_def sub_consts)
  qed
  have e: "usize (request_expiry_ms cfg + 1000) \<noteq> 0" using assms(4) by simp
  show ?thesis
    using assms(1,3) d e
    by (auto simp: schedule_sub_retry_def Let_def retry_ok_def unacked_def list_ex_iff split: if_splits)
qed

subsection \<open>Each operation keeps the invariant\<close>

text \<open>\<open>good cfg g a r\<close>: the invariant of \<open>g\<close> with the timer armed (\<open>a\<close>) and a round queued (\<open>r\<close>).\<close>

definition good :: "tick_config \<Rightarrow> ('c, 'p) glue \<Rightarrow> bool \<Rightarrow> bool \<Rightarrow> bool" where
  "good cfg g a r \<longleftrightarrow> delay_ok g \<and> (sub_timer cfg \<and> request_expiry_ms cfg < 2 ^ 31 \<longrightarrow> retry_ok g (a \<or> r))"

lemma good_end:
  assumes "schedule_sub_retry cfg tick posted g = (g', outs)" and "delay_ok g"
  shows "good cfg g' (armed_after a (pre @ outs)) r"
  using delay_schedule [OF assms] schedule_covers [OF assms, of "armed_after a pre"]
  by (auto simp: good_def armed_after_append retry_ok_def)

lemma good_frame:
  assumes "good cfg g a r" and "g_delay g' = g_delay g" and "g_connected g' \<longrightarrow> g_connected g" and "unacked g' \<longrightarrow> unacked g"
    and "g_arm_pending g' = g_arm_pending g"
  shows "good cfg g' a r"
  using assms by (auto simp: good_def retry_ok_def delay_ok_def)

lemma busy_fields [simp]:
  "delay_ok (g\<lparr>g_busy := n\<rparr>) = delay_ok g" "retry_ok (g\<lparr>g_busy := n\<rparr>) a = retry_ok g a"
  by (simp_all add: delay_ok_def retry_ok_def unacked_def)

lemma begin_op_Some:
  "glue_begin_op True (Some g) = (if g_deleting g then (False, Some g) else (True, Some (g\<lparr>g_busy := g_busy g + 1\<rparr>)))"
  by (simp add: glue_begin_op_def)

lemma entries_set_slot:
  assumes "i < length t"
  shows "set (entries (t[i := Some x])) \<subseteq> insert x (set (entries t))"
    and "set (entries (t[i := None])) \<subseteq> set (entries t)"
  using set_update_subset_insert [of t i "Some x"] set_update_subset_insert [of t i None]
  by (auto simp: set_entries)

text \<open>What the single pass of \<open>subscribe\<close> finds.\<close>

definition scan_valid :: "string \<Rightarrow> 'c \<Rightarrow> ('c, 'p) sub slots \<Rightarrow> nat option \<times> bool \<times> nat option \<Rightarrow> bool" where
  "scan_valid topic cb t acc \<longleftrightarrow>
     (\<forall>j. fst acc = Some j \<longrightarrow> j < length t \<and> (\<exists>s. t ! j = Some s \<and> sub_topic s = topic \<and> sub_cb s = cb)) \<and>
     (\<forall>j. snd (snd acc) = Some j \<longrightarrow> j < length t \<and> t ! j = None)"

lemma scan_subs_valid:
  "scan_valid topic cb (pre @ ss) acc \<Longrightarrow> scan_valid topic cb (pre @ ss) (scan_subs topic cb (length pre) ss acc)"
proof (induction ss arbitrary: pre acc)
  case (Cons s ss)
  obtain ex act vac where acc: "acc = (ex, act, vac)" by (cases acc)
  show ?case
  proof (cases s)
    case None
    have "scan_valid topic cb ((pre @ [s]) @ ss) (ex, act, if vac = None then Some (length pre) else vac)"
      using Cons.prems None by (auto simp: scan_valid_def acc nth_append)
    from Cons.IH [OF this] show ?thesis by (simp add: acc None)
  next
    case (Some x)
    have "scan_valid topic cb ((pre @ [s]) @ ss)
        (if topic = sub_topic x
         then (if cb = sub_cb x then Some (length pre) else ex, act \<or> sub_state x = SUB_ACKNOWLEDGED, vac)
         else (ex, act, vac))"
      using Cons.prems Some by (auto simp: scan_valid_def acc nth_append)
    from Cons.IH [OF this] show ?thesis by (simp add: acc Some)
  qed
qed simp

lemma scan_start:
  "scan_valid topic cb t (scan_subs topic cb 0 t (None, False, None))"
  using scan_subs_valid [of topic cb "[]" t "(None, False, None)"] by (simp add: scan_valid_def)

lemma scan_subs_found:
  "(fst (scan_subs topic cb i ss acc) = None \<longleftrightarrow>
      fst acc = None \<and> (\<forall>s \<in> set (entries ss). \<not> (sub_topic s = topic \<and> sub_cb s = cb))) \<and>
   (fst (snd (scan_subs topic cb i ss acc)) \<longleftrightarrow>
      fst (snd acc) \<or> (\<exists>s \<in> set (entries ss). sub_topic s = topic \<and> sub_state s = SUB_ACKNOWLEDGED)) \<and>
   (snd (snd (scan_subs topic cb i ss acc)) = None \<longleftrightarrow> snd (snd acc) = None \<and> None \<notin> set ss)"
proof (induction ss arbitrary: i acc)
  case (Cons s ss)
  obtain ex act vac where acc: "acc = (ex, act, vac)" by (cases acc)
  show ?case
    by (cases s) (auto simp: acc Cons.IH)
qed simp

lemma unacked_set:
  assumes "i < length (g_subs g)" and "unacked (g\<lparr>g_subs := (g_subs g)[i := Some x]\<rparr>)"
  shows "sub_state x \<noteq> SUB_ACKNOWLEDGED \<or> unacked g"
  using assms(2) entries_set_slot(1) [OF assms(1), of x] unfolding unacked_def by auto

lemma unacked_clear:
  assumes "i < length (g_subs g)" and "unacked (g\<lparr>g_subs := (g_subs g)[i := None]\<rparr>)"
  shows "unacked g"
  using assms(2) entries_set_slot(2) [OF assms(1)] unfolding unacked_def by auto

lemma subscribe_update_frame:
  assumes "subscribe_update alloc topic cb qos priv g = (err, g', send)"
  shows "g_delay g' = g_delay g \<and> g_connected g' = g_connected g \<and> g_arm_pending g' = g_arm_pending g \<and>
    (send = None \<longrightarrow> unacked g' \<longrightarrow> unacked g)"
proof (cases "scan_subs topic cb 0 (g_subs g) (None, False, None)")
  case (fields ex act vac)
  have valid: "scan_valid topic cb (g_subs g) (ex, act, vac)"
    using scan_start [of topic cb "g_subs g"] fields by simp
  have found: "(ex = None \<longleftrightarrow> (\<forall>s \<in> set (entries (g_subs g)). \<not> (sub_topic s = topic \<and> sub_cb s = cb))) \<and>
      (vac = None \<longleftrightarrow> None \<notin> set (g_subs g))"
    using scan_subs_found [of topic cb 0 "g_subs g" "(None, False, None)"] fields by auto
  show ?thesis
  proof (cases ex)
    case None
    show ?thesis
    proof (cases vac)
      case None
      with \<open>ex = None\<close> fields assms show ?thesis by (auto simp: subscribe_update_def)
    next
      case (Some i)
      with valid have "i < length (g_subs g)" by (simp add: scan_valid_def)
      note unacked_set [OF this]
      with \<open>ex = None\<close> Some fields assms show ?thesis
        by (fastforce simp: subscribe_update_def split: if_splits)
    qed
  next
    case (Some i)
    with valid obtain s where i: "i < length (g_subs g)" "g_subs g ! i = Some s" by (auto simp: scan_valid_def)
    then have s: "s \<in> set (entries (g_subs g))" by (metis nth_mem set_entries)
    obtain x where "g' = g\<lparr>g_subs := (g_subs g)[i := Some x]\<rparr>" "sub_state x = sub_state s"
      using Some fields assms i(2) by (auto simp: subscribe_update_def Let_def)
    with unacked_set [OF i(1), of x] s show ?thesis
      unfolding unacked_def by auto
  qed
qed

lemma good_busy [simp]: "good cfg (g\<lparr>g_busy := n\<rparr>) a r = good cfg g a r"
  by (simp add: good_def)

lemma unacked_map_ack: "unacked (map_subs f g) \<Longrightarrow> (\<And>s. sub_state s = SUB_ACKNOWLEDGED \<Longrightarrow> sub_state (f s) = SUB_ACKNOWLEDGED)
    \<Longrightarrow> unacked g"
  by (auto simp: unacked_def map_subs_def slot_simps)

lemma good_detach:
  assumes "detach i g = (s, send, g')" and "good cfg g a r" and "i < length (g_subs g)"
  shows "good cfg g' (armed_after a (release_outs s send)) r \<and> length (g_subs g') = length (g_subs g)"
proof -
  have "armed_after a (release_outs s send) = a"
    by (auto simp: release_outs_def split: option.splits)
  with assms show ?thesis
    by (auto simp: detach_def Let_def split: option.splits intro!: good_frame [OF assms(2)] dest: unacked_clear [OF assms(3)])
qed

lemma good_subscribe:
  assumes "esp_mqtt_glue_subscribe cfg alloc env mid tick posted True topic cb qos priv (Some g) = (err, Some g', outs)"
    and "good cfg g a r" and "mid_ok mid"
  shows "good cfg g' (armed_after a outs) r"
proof (cases "topic = None \<or> cb = None \<or> g_deleting g")
  case True
  with assms(1,2) show ?thesis
    by (cases topic; cases cb) (auto simp: esp_mqtt_glue_subscribe_def begin_op_Some)
next
  case False
  then obtain t c where tc: "topic = Some t" "cb = Some c" by auto
  let ?g = "g\<lparr>g_busy := g_busy g + 1\<rparr>"
  obtain err1 g1 send where up: "subscribe_update alloc t c qos priv ?g = (err1, g1, send)" by (metis prod_cases3)
  note frame = subscribe_update_frame [OF up]
  have 1: "delay_ok g1" using assms(2) frame by (simp add: good_def delay_ok_def)
  show ?thesis
  proof (cases send)
    case None
    have "good cfg g1 a r"
      by (rule good_frame [of cfg ?g]) (use assms(2) frame None in auto)
    with assms(1) False tc up None show ?thesis
      by (auto simp: esp_mqtt_glue_subscribe_def begin_op_Some glue_end_op_def)
  next
    case (Some q)
    obtain g2 outs2 where snd: "send_subscribe cfg env mid t q g1 = (g2, outs2)" by fastforce
    obtain g3 outs3 where sch: "schedule_sub_retry cfg tick posted g2 = (g3, outs3)" by fastforce
    from good_end [OF sch delay_send [OF snd 1 assms(3)], of a outs2 r] assms(1) False tc up Some snd sch show ?thesis
      by (auto simp: esp_mqtt_glue_subscribe_def begin_op_Some glue_end_op_def)
  qed
qed

lemma good_unsubscribe:
  assumes "esp_mqtt_glue_unsubscribe True topic (Some g) = (err, Some g', outs)" and "good cfg g a r"
  shows "good cfg g' (armed_after a outs) r"
proof (cases "topic = None \<or> g_deleting g")
  case True
  with assms show ?thesis by (cases topic) (auto simp: esp_mqtt_glue_unsubscribe_def begin_op_Some)
next
  case False
  then obtain t where t: "topic = Some t" by auto
  let ?g = "g\<lparr>g_busy := g_busy g + 1\<rparr>"
  show ?thesis
  proof (cases "find_slot (\<lambda>s. take (length t) (sub_topic s) = t) (g_subs g)")
    case None
    with assms False t show ?thesis
      by (auto simp: esp_mqtt_glue_unsubscribe_def begin_op_Some glue_end_op_def)
  next
    case (Some i)
    obtain s send g1 where det: "detach i ?g = (s, send, g1)" by (metis prod_cases3)
    have "good cfg g1 (armed_after a (release_outs s send)) r"
      using good_detach [OF det, of cfg a r] assms(2) find_slot_SomeD [OF Some] by simp
    with assms(1) False t Some det show ?thesis
      by (auto simp: esp_mqtt_glue_unsubscribe_def begin_op_Some glue_end_op_def)
  qed
qed

lemma good_publish:
  assumes "esp_mqtt_glue_publish ret True topic data want (Some g) = (err, Some g', outs, m)" and "good cfg g a r"
  shows "good cfg g' (armed_after a outs) r"
  using assms by (auto simp: esp_mqtt_glue_publish_def begin_op_Some glue_end_op_def split: if_splits)

lemma good_round:
  assumes "sub_retry_work cfg now alloc env mid tick posted True (Some g) = (Some g', outs)" and "delay_ok g"
    and "\<not> g_deleting g" and "\<forall>i. mid_ok (mid i)"
  shows "good cfg g' (armed_after a outs) r"
proof -
  let ?g = "g\<lparr>g_busy := g_busy g + 1\<rparr>"
  obtain g1 outs1 resent where 1: "resubscribe_pending cfg now alloc env mid ?g = (g1, outs1, resent)" by (metis prod_cases3)
  have "delay_ok g1"
    using delay_resend [OF 1 [unfolded resubscribe_pending_def]] assms(2,4) by simp
  then have 2: "delay_ok (if resent then back_off g1 else g1)" by (simp add: delay_back_off)
  obtain g3 outs3 where 3: "schedule_sub_retry cfg tick posted (if resent then back_off g1 else g1) = (g3, outs3)" by fastforce
  from good_end [OF 3 2, of a outs1 r] assms(1,3) 1 3 show ?thesis
    by (auto simp: sub_retry_work_def begin_op_Some glue_end_op_def)
qed

lemma good_prologue:
  assumes "event_prologue cfg env ev g = (g', outs)" and "good cfg g a r"
  shows "good cfg g' (armed_after a outs) r"
proof (cases "g_arm_pending g")
  case True
  let ?g1 = "g\<lparr>g_arm_pending := False, g_connecting := (if ev \<noteq> Ev_Before_Connect then False else g_connecting g)\<rparr>"
  have sch: "schedule_sub_retry cfg (ee_tick env) (ee_posted env) ?g1 = (g', outs)"
    using assms(1) True by (simp add: event_prologue_def)
  have "delay_ok ?g1" using assms(2) by (simp add: good_def delay_ok_def)
  from good_end [OF sch this, of a "[]" r] show ?thesis by simp
next
  case False
  with assms(1) have "g' = g\<lparr>g_arm_pending := False, g_connecting := (if ev \<noteq> Ev_Before_Connect then False else g_connecting g)\<rparr>"
    "outs = []"
    by (auto simp: event_prologue_def)
  then show ?thesis
    using False by (auto intro!: good_frame [OF assms(2)] simp: unacked_def)
qed

lemma good_settle:
  assumes "settle_subs dup m st g = (t, g')" and "good cfg g a r"
  shows "good cfg g' a r"
proof -
  have g': "g' = map_subs (\<lambda>s. if matches_msg m s then s\<lparr>sub_state := st\<rparr> else s) g"
    using assms(1) by (simp add: settle_subs_def)
  have "unacked g" if "unacked g'"
    using that unfolding g' by (rule unacked_map_ack) (simp add: matches_msg_def)
  then show ?thesis
    by (intro good_frame [OF assms(2)]) (auto simp: g')
qed

lemma good_event:
  assumes "mqtt_event_handler cfg env ev g = (g', outs)" and "good cfg g a r" and "\<forall>i. mid_ok (ee_mid env i)"
  shows "good cfg g' (armed_after a outs) r"
proof -
  obtain g1 outs1 where pro: "event_prologue cfg env ev g = (g1, outs1)" by fastforce
  let ?a = "armed_after a outs1"
  have g1: "good cfg g1 ?a r" by (rule good_prologue [OF pro assms(2)])
  then have d1: "delay_ok g1" by (simp add: good_def)
  show ?thesis
  proof (cases ev)
    case Ev_Connected
    let ?g0 = "(reset_subscription_states (g1\<lparr>g_connected := True\<rparr>))\<lparr>g_delay := SUB_RETRY_BASE_MS\<rparr>"
    obtain g2 outs2 b where 2: "resubscribe_pending cfg (ee_tick2 env) (ee_alloc env) (ee_send env) (ee_mid env) ?g0 = (g2, outs2, b)"
      by (metis prod_cases3)
    have "delay_ok g2"
      by (rule delay_resend [OF 2 [unfolded resubscribe_pending_def]]) (use assms(3) in auto)
    moreover obtain g3 outs3 where 3: "schedule_sub_retry cfg (ee_tick2 env) (ee_posted2 env) g2 = (g3, outs3)" by fastforce
    ultimately have "good cfg g3 (armed_after a (outs1 @ outs2 @ outs3)) r"
      using good_end [OF 3, of a "outs1 @ outs2" r] by simp
    with assms(1) Ev_Connected pro 2 3 show ?thesis
      by (auto simp: mqtt_event_handler_def connected_handler_def armed_after_append)
  next
    case Ev_Disconnected
    with assms(1) pro show ?thesis
      by (auto simp: mqtt_event_handler_def mark_disconnected_def good_def retry_ok_def reset_subscription_states_def)
  next
    case Ev_Before_Connect
    have "good cfg (g1\<lparr>g_connecting := True\<rparr>) ?a r"
      by (rule good_frame [OF g1]) (auto simp: unacked_def)
    with Ev_Before_Connect assms(1) pro show ?thesis
      by (auto simp: mqtt_event_handler_def)
  next
    case (Ev_Subscribed m rej)
    obtain t g2 where st: "settle_subs (ee_dup env) m (if rej then SUB_FAILED else SUB_ACKNOWLEDGED) g1 = (t, g2)" by fastforce
    have g2: "good cfg g2 ?a r" by (rule good_settle [OF st g1])
    show ?thesis
    proof (cases t)
      case None
      have "good cfg (park_early_ack cfg (ee_tick2 env) m rej g2) ?a r"
        by (rule good_frame [OF g2]) (auto simp: park_early_ack_def Let_def unacked_def)
      with assms(1) Ev_Subscribed pro st None show ?thesis
        by (auto simp: mqtt_event_handler_def suback_handler_def)
    next
      case (Some topic)
      obtain g3 outs3 where sch: "schedule_sub_retry cfg (ee_tick2 env) (ee_posted2 env) g2 = (g3, outs3)" by fastforce
      have "delay_ok g2" using g2 by (simp add: good_def)
      from good_end [OF sch this, of ?a "[if rej then Out_Event_Failed topic else Out_Event_Subscribed topic]" r]
        assms(1) Ev_Subscribed pro st Some sch
      show ?thesis
        by (auto simp: mqtt_event_handler_def suback_handler_def report_suback_def armed_after_append)
    qed
  next
    case (Ev_Deleted m)
    obtain t g2 where st: "settle_subs (ee_dup env) m SUB_FAILED g1 = (t, g2)" by fastforce
    have g2: "good cfg g2 ?a r" by (rule good_settle [OF st g1])
    show ?thesis
    proof (cases t)
      case None
      with assms(1) Ev_Deleted pro st g2 show ?thesis
        by (auto simp: mqtt_event_handler_def deleted_handler_def armed_after_append)
    next
      case (Some topic)
      obtain g3 outs3 where sch: "schedule_sub_retry cfg (ee_tick2 env) (ee_posted2 env) g2 = (g3, outs3)" by fastforce
      have "delay_ok g2" using g2 by (simp add: good_def)
      from good_end [OF sch this, of ?a "[Out_Event_Deleted m, Out_Event_Failed topic]" r]
        assms(1) Ev_Deleted pro st Some sch
      show ?thesis
        by (auto simp: mqtt_event_handler_def deleted_handler_def armed_after_append)
    qed
  qed (use assms(1) pro g1 in \<open>auto simp: mqtt_event_handler_def armed_after_append split: if_splits\<close>)
qed

interpretation retry: inductive_invariant glue_start "glue_step cfg" "\<lambda>s. good cfg (gs_glue s) (gs_armed s) (gs_round s)" for cfg
proof unfold_locales
  show "good cfg (gs_glue s) (gs_armed s) (gs_round s)" if "glue_start s" for s
    using that by (simp add: glue_start_def good_def delay_ok_def sub_consts retry_ok_def unacked_def)
  show "good cfg (gs_glue s') (gs_armed s') (gs_round s')"
    if "good cfg (gs_glue s) (gs_armed s) (gs_round s)" "glue_step cfg s s'" for s s'
    using that(2)
  proof (cases rule: glue_step.cases)
    case (event env ev g' outs)
    with good_event [OF event(2) that(1) event(3)] show ?thesis by (simp add: apply_outs_def)
  next
    case (subscribe alloc env mid tick posted topic cb qos priv err g' outs)
    with good_subscribe [OF subscribe(2) that(1) subscribe(3)] show ?thesis by (simp add: apply_outs_def)
  next
    case (unsubscribe topic err g' outs)
    with good_unsubscribe [OF unsubscribe(2) that(1)] show ?thesis by (simp add: apply_outs_def)
  next
    case (publish ret topic data want_id err g' outs msg_id)
    with good_publish [OF publish(2) that(1)] show ?thesis by (simp add: apply_outs_def)
  next
    case timer_fires
    with that(1) show ?thesis by (simp add: good_def)
  next
    case (retry_round mid now alloc env tick posted g' outs)
    with good_round [OF retry_round(5) _ retry_round(3,4), of "gs_armed s" False] that(1) show ?thesis
      by (simp add: apply_outs_def good_def)
  qed
qed

text \<open>A subscribe on a connected instance with room, as a concrete run.\<close>

definition sample_sys :: "(nat, nat) glue_sys" where
  "sample_sys = \<lparr>gs_glue = sample_glue [Some (sample_sub ''t'' 1 SUB_REQUESTED 7 1), None], gs_armed = True, gs_round = False\<rparr>"

lemma take_early_free:
  "m \<noteq> 0 \<Longrightarrow> take_early now ttl m (replicate n \<lparr>ea_msg_id = 0, ea_rejected = r, ea_tick = k\<rparr>)
    = (None, replicate n \<lparr>ea_msg_id = 0, ea_rejected = r, ea_tick = k\<rparr>)"
  by (induction n) auto

lemma sample_step: "glue_step sample_cfg \<lparr>gs_glue = sample_glue [None, None], gs_armed = False, gs_round = False\<rparr> sample_sys"
proof -
  let ?s0 = "\<lparr>gs_glue = sample_glue [None, None], gs_armed = False, gs_round = False\<rparr> :: (nat, nat) glue_sys"
  have sub: "esp_mqtt_glue_subscribe sample_cfg True (sample_env 7) (\<lambda>g. (g, [])) 0 True True (Some ''t'') (Some 1) 1 0
      (Some (gs_glue ?s0))
    = (ESP_OK, Some (gs_glue sample_sys), [Out_Subscribe ''t'' 1, Out_Timer_Arm 31000])"
    by (simp add: esp_mqtt_glue_subscribe_def begin_op_Some glue_end_op_def sample_glue_def sample_sys_def sample_cfg_def
        sample_env_def sample_sub_def subscribe_update_def send_subscribe_def send_reserve_def send_record_def take_early_ack_def
        map_subs_def schedule_sub_retry_def Let_def take_early_free)
  show ?thesis
    using glue_step.subscribe [OF sub]
    by (simp add: mid_ok_def apply_outs_def sample_sys_def)
qed

lemma sample_reach: "reach glue_start (glue_step sample_cfg) sample_sys"
  using sample_step by (rule reach.step [rotated]) (rule reach.start, simp add: glue_start_def sample_glue_def sub_consts)

subsection \<open>Properties\<close>



text \<open>
  The back-off is bounded: in every reachable state the retry delay is between 5 s and 60 s, and whenever
  the timer is armed from it the period is at least 5 s and below 65 s, or the outbox expiry plus one second.
\<close>

theorem retry_delay_bounded:
  assumes "reach glue_start (glue_step cfg) s" and "request_expiry_ms cfg < 2 ^ 31"
    and "schedule_sub_retry cfg tick posted (gs_glue s) = (g', outs)" and "Out_Timer_Arm n \<in> set outs"
  shows "5000 \<le> g_delay (gs_glue s) \<and> g_delay (gs_glue s) \<le> 60000 \<and>
    (n = request_expiry_ms cfg + 1000 \<or> 5000 \<le> n \<and> n < 65000)"
proof -
  have d: "5000 \<le> g_delay (gs_glue s)" "g_delay (gs_glue s) \<le> 60000"
    using retry.reachable [OF assms(1)] by (simp_all add: good_def delay_ok_def sub_consts)
  obtain m where m: "unat (tick * tick_period_ms cfg) mod SUB_RETRY_BASE_MS = m" "m < 5000"
    by (simp add: sub_consts)
  have "usize (g_delay (gs_glue s) + m) = g_delay (gs_glue s) + m" "usize (request_expiry_ms cfg + 1000) = request_expiry_ms cfg + 1000"
    using d m(2) assms(2) by simp_all
  with d m assms(3,4) show ?thesis
    by (auto simp: schedule_sub_retry_def Let_def split: if_splits)
qed

theorem retry_delay_bounded_witness:
  "5000 \<le> g_delay (gs_glue sample_sys) \<and> g_delay (gs_glue sample_sys) \<le> 60000 \<and>
    ((31000 :: nat) = request_expiry_ms sample_cfg + 1000 \<or> 5000 \<le> (31000 :: nat) \<and> (31000 :: nat) < 65000)"
proof -
  have "schedule_sub_retry sample_cfg 0 True (gs_glue sample_sys) = (gs_glue sample_sys, [Out_Timer_Arm 31000])"
    by (simp add: schedule_sub_retry_def sample_cfg_def sample_sys_def sample_glue_def sample_sub_def)
  from retry_delay_bounded [OF sample_reach _ this, of 31000] show ?thesis
    by (simp add: sample_cfg_def)
qed

end
