(* ===== verification/Work_Queue.thy ===== *)
theory Work_Queue
  imports State_Machine
begin

section \<open>The work queue\<close>

text \<open>
  Models \<open>components/rmaker_work_queue/src/work_queue.c\<close>: one worker task that runs queued functions one after
  the other. FreeRTOS is not part of the repository: its queue is the argument \<open>qo\<close> with the
  operations the source calls, \<open>fifo_queue\<close> states their documented behaviour, and whether a task or a control block
  can be created is an argument. The worker is a program counter with one step for each access to shared state
  (the state flag, the queue, its own suspension); a call that busy-waits for the worker is an option,
  \<open>None\<close> while it is still waiting. The step relation interleaves the worker with one task that controls the queue
  (init, start, stop, deinit), with work functions that call \<open>stop\<close>, and with any task that adds entries.
\<close>

subsection \<open>FreeRTOS queues\<close>

record ('q, 'e) queue_ops =
  q_create :: "nat \<Rightarrow> 'q option"
  q_send :: "'q \<Rightarrow> 'e \<Rightarrow> bool \<times> 'q"
  q_receive :: "'q \<Rightarrow> ('e \<times> 'q) option"

text \<open>The documented behaviour: a bounded first-in first-out queue, sends and receives with zero timeout.\<close>

definition fifo_queue :: "('q, 'e) queue_ops \<Rightarrow> ('q \<Rightarrow> 'e list) \<Rightarrow> ('q \<Rightarrow> nat) \<Rightarrow> bool" where
  "fifo_queue qo items cap \<longleftrightarrow>
     (\<forall>n q. q_create qo n = Some q \<longrightarrow> items q = [] \<and> cap q = n) \<and>
     (\<forall>q e. length (items q) < cap q \<longrightarrow>
        (\<exists>q'. q_send qo q e = (True, q') \<and> items q' = items q @ [e] \<and> cap q' = cap q)) \<and>
     (\<forall>q e. \<not> length (items q) < cap q \<longrightarrow> q_send qo q e = (False, q)) \<and>
     (\<forall>q. case q_receive qo q of None \<Rightarrow> items q = [] | Some (e, q') \<Rightarrow> items q = e # items q' \<and> cap q' = cap q)"

subsection \<open>Data\<close>

datatype work_queue_state = WQ_DEINIT | WQ_INIT_DONE | WQ_RUNNING | WQ_STOP_REQUESTED

record work_queue_config =
  cfg_size :: u32
  cfg_stack_size :: u32
  cfg_priority :: u32
  cfg_prefer_ext_ram :: bool
  cfg_name :: "string option"
  cfg_core_id :: int

text \<open>The FreeRTOS build constants.\<close>

record rtos_config =
  configMAX_PRIORITIES :: nat
  configMAX_TASK_NAME_LEN :: nat
  tskNO_AFFINITY :: int
  portNUM_PROCESSORS :: int

text \<open>An entry is a work function with its data, here one value of \<open>'j\<close>; \<open>None\<close> is the entry with a NULL
  function that \<open>stop\<close> sends.\<close>

record 'q work_queue =
  wq_name :: string
  wq_queue :: 'q
  wq_task :: bool
  wq_config :: work_queue_config
  wq_state :: work_queue_state

subsection \<open>The worker task\<close>

text \<open>
  Where the worker is: no task, testing the state flag, in the first receive of
  \<open>esp_rmaker_handle_work_queue\<close>, holding an entry it will run, in the draining receive, about to store
  \<open>INIT_DONE\<close>, about to suspend itself, suspended.
\<close>

datatype 'j worker_pc = W_None | W_Loop | W_Recv | W_Run "'j option" | W_Next | W_Park | W_Suspending | W_Suspended

text \<open>One step of the worker; the list is the function that returned. \<open>None\<close>: no step until another task resumes it.\<close>

fun worker_step ::
  "('q, 'j option) queue_ops \<Rightarrow> 'q work_queue \<Rightarrow> 'j worker_pc \<Rightarrow> ('q work_queue \<times> 'j worker_pc \<times> 'j list) option" where
  "worker_step qo w W_None = None"
| "worker_step qo w W_Loop = Some (w, if wq_state w \<noteq> WQ_STOP_REQUESTED then W_Recv else W_Park, [])"
| "worker_step qo w W_Recv =
     (case q_receive qo (wq_queue w) of
        Some (e, q') \<Rightarrow> Some (w\<lparr>wq_queue := q'\<rparr>, W_Run e, [])
      | None \<Rightarrow> Some (w, W_Loop, []))"
| "worker_step qo w (W_Run e) = Some (w, W_Next, case e of Some j \<Rightarrow> [j] | None \<Rightarrow> [])"
| "worker_step qo w W_Next =
     (case q_receive qo (wq_queue w) of
        Some (e, q') \<Rightarrow> Some (w\<lparr>wq_queue := q'\<rparr>, W_Run e, [])
      | None \<Rightarrow> Some (w, W_Loop, []))"
| "worker_step qo w W_Park = Some (w\<lparr>wq_state := WQ_INIT_DONE\<rparr>, W_Suspending, [])"
| "worker_step qo w W_Suspending = Some (w, W_Suspended, [])"
| "worker_step qo w W_Suspended = None"

subsection \<open>Operations\<close>

text \<open>\<open>is_worker\<close>: the call comes from the queue's own worker.\<close>

definition is_own_worker :: "'q work_queue \<Rightarrow> bool \<Rightarrow> bool" where
  "is_own_worker w is_worker \<longleftrightarrow> wq_task w \<and> is_worker"

text \<open>The two polling loops of \<open>esp_rmaker_work_queue_wait_stopped\<close> are over.\<close>

definition wait_stopped :: "'q work_queue \<Rightarrow> 'j worker_pc \<Rightarrow> bool" where
  "wait_stopped w pc \<longleftrightarrow> wq_state w \<noteq> WQ_STOP_REQUESTED \<and> (wq_task w \<longrightarrow> pc = W_Suspended)"

definition add_task_internal ::
  "('q, 'j option) queue_ops \<Rightarrow> 'q work_queue option \<Rightarrow> 'j option \<Rightarrow> esp_err \<times> 'q work_queue option" where
  "add_task_internal qo p work =
     (case p of
        None \<Rightarrow> (ESP_ERR_INVALID_STATE, p)
      | Some w \<Rightarrow>
          if work = None then (ESP_ERR_INVALID_ARG, p)
          else (case q_send qo (wq_queue w) work of
                  (sent, q') \<Rightarrow> (if sent then ESP_OK else ESP_FAIL, Some (w\<lparr>wq_queue := q'\<rparr>))))"

definition config_valid :: "rtos_config \<Rightarrow> work_queue_config \<Rightarrow> bool" where
  "config_valid rt c \<longleftrightarrow> \<not> (cfg_size c = 0 \<or> cfg_stack_size c = 0
     \<or> cfg_priority c = 0 \<or> unat (cfg_priority c) \<ge> configMAX_PRIORITIES rt
     \<or> cfg_core_id c \<noteq> tskNO_AFFINITY rt \<and> (cfg_core_id c < 0 \<or> cfg_core_id c \<ge> portNUM_PROCESSORS rt))"

text \<open>Decimal digits, as \<open>%d\<close> prints a non-negative int.\<close>

fun dec_string :: "nat \<Rightarrow> string" where
  "dec_string n = (if n < 10 then [char_of (48 + n)] else dec_string (n div 10) @ [char_of (48 + n mod 10)])"

declare dec_string.simps [simp del]

text \<open>\<open>strlcpy\<close> and \<open>snprintf\<close> keep at most one byte less than the field; \<open>work_queue_count\<close> is the static
  counter. The handle stays as it was when the call fails.\<close>

definition init_internal ::
  "rtos_config \<Rightarrow> ('q, 'e) queue_ops \<Rightarrow> bool \<Rightarrow> work_queue_config option \<Rightarrow> bool \<Rightarrow> nat \<Rightarrow> 'q work_queue option
     \<Rightarrow> esp_err \<times> 'q work_queue option \<times> nat" where
  "init_internal rt qo pp config alloc count p =
     (if \<not> pp \<or> config = None then (ESP_ERR_INVALID_ARG, p, count)
      else let c = the config in
        if \<not> config_valid rt c then (ESP_ERR_INVALID_ARG, p, count)
        else if \<not> alloc then (ESP_ERR_NO_MEM, p, count)
        else (case q_create qo (unat (cfg_size c)) of
                None \<Rightarrow> (ESP_ERR_NO_MEM, p, count)
              | Some q \<Rightarrow>
                  let (name, count') =
                    (case cfg_name c of
                       Some n \<Rightarrow> (take (configMAX_TASK_NAME_LEN rt - 1) n, count)
                     | None \<Rightarrow> (take (configMAX_TASK_NAME_LEN rt - 1) (''rmaker_wq-'' @ dec_string count), count + 1))
                  in (ESP_OK,
                      Some \<lparr>wq_name = name, wq_queue = q, wq_task = False, wq_config = c\<lparr>cfg_name := None\<rparr>,
                            wq_state = WQ_INIT_DONE\<rparr>, count')))"

text \<open>\<open>stop\<close> in its two accesses: the flag, then the wake-up entry.\<close>

definition stop_flag :: "'q work_queue \<Rightarrow> 'q work_queue" where
  "stop_flag w = w\<lparr>wq_state := WQ_STOP_REQUESTED\<rparr>"

definition stop_wake :: "('q, 'j option) queue_ops \<Rightarrow> 'q work_queue \<Rightarrow> 'q work_queue" where
  "stop_wake qo w = w\<lparr>wq_queue := snd (q_send qo (wq_queue w) None)\<rparr>"

definition stop_internal ::
  "('q, 'j option) queue_ops \<Rightarrow> 'q work_queue option \<Rightarrow> esp_err \<times> 'q work_queue option" where
  "stop_internal qo p =
     (case p of
        None \<Rightarrow> (ESP_OK, p)
      | Some w \<Rightarrow>
          if wq_state w = WQ_RUNNING then (ESP_OK, Some (stop_wake qo (stop_flag w))) else (ESP_OK, p))"

text \<open>\<open>start\<close>: what it decides at once, and what the two remaining cases do.\<close>

datatype start_plan = Start_Return esp_err | Start_Resume | Start_Create

definition start_plan :: "bool \<Rightarrow> 'q work_queue option \<Rightarrow> start_plan" where
  "start_plan is_worker p =
     (case p of
        None \<Rightarrow> Start_Return ESP_ERR_INVALID_STATE
      | Some w \<Rightarrow>
          if wq_state w = WQ_RUNNING then Start_Return ESP_OK
          else if wq_task w then
            (if is_own_worker w is_worker then Start_Return ESP_ERR_INVALID_STATE else Start_Resume)
          else if wq_state w \<noteq> WQ_INIT_DONE then Start_Return ESP_ERR_INVALID_STATE
          else Start_Create)"

text \<open>\<open>ext_allowed\<close> is the build option for stacks in external RAM; \<open>ext_ok\<close>, \<open>int_ok\<close> whether the task can be
  created with its stack there or in internal RAM.\<close>

definition create_task :: "bool \<Rightarrow> bool \<Rightarrow> bool \<Rightarrow> bool \<Rightarrow> bool" where
  "create_task ext_allowed prefer_ext_ram ext_ok int_ok =
     (if ext_allowed then (if prefer_ext_ram \<and> ext_ok then True else int_ok) else int_ok)"

definition start_internal ::
  "bool \<Rightarrow> bool \<Rightarrow> bool \<Rightarrow> bool \<Rightarrow> 'q work_queue option \<Rightarrow> 'j worker_pc
     \<Rightarrow> (esp_err \<times> 'q work_queue option \<times> 'j worker_pc) option" where
  "start_internal is_worker ext_allowed ext_ok int_ok p pc =
     (case start_plan is_worker p of
        Start_Return err \<Rightarrow> Some (err, p, pc)
      | Start_Resume \<Rightarrow>
          if wait_stopped (the p) pc
          then Some (ESP_OK, map_option (\<lambda>w. w\<lparr>wq_state := WQ_RUNNING\<rparr>) p, W_Loop)
          else None
      | Start_Create \<Rightarrow>
          if create_task ext_allowed (cfg_prefer_ext_ram (wq_config (the p))) ext_ok int_ok
          then Some (ESP_OK, map_option (\<lambda>w. w\<lparr>wq_task := True, wq_state := WQ_RUNNING\<rparr>) p, W_Loop)
          else Some (ESP_FAIL, p, pc))"

text \<open>
  \<open>deinit\<close>: refused to the own worker; otherwise stop, wait, delete the task, the queue and the block. \<open>park\<close>
  gives the block and the program counter after the wait, which the worker's steps decide.
\<close>

definition deinit_refused :: "bool \<Rightarrow> 'q work_queue option \<Rightarrow> esp_err option" where
  "deinit_refused is_worker p =
     (case p of
        None \<Rightarrow> Some ESP_OK
      | Some w \<Rightarrow> if is_own_worker w is_worker then Some ESP_ERR_INVALID_STATE else None)"

definition deinit_finish :: "'q work_queue \<Rightarrow> 'j worker_pc \<Rightarrow> (esp_err \<times> 'q work_queue option \<times> 'j worker_pc) option" where
  "deinit_finish w pc = (if wait_stopped w pc then Some (ESP_OK, None, W_None) else None)"

definition deinit_internal ::
  "('q, 'j option) queue_ops \<Rightarrow> bool \<Rightarrow> bool \<Rightarrow> ('q work_queue \<Rightarrow> 'j worker_pc \<Rightarrow> 'q work_queue \<times> 'j worker_pc)
     \<Rightarrow> 'q work_queue option \<Rightarrow> 'j worker_pc \<Rightarrow> (esp_err \<times> 'q work_queue option \<times> 'j worker_pc) option" where
  "deinit_internal qo is_worker pp park p pc =
     (if \<not> pp then Some (ESP_ERR_INVALID_ARG, p, pc)
      else case deinit_refused is_worker p of
        Some err \<Rightarrow> Some (err, p, pc)
      | None \<Rightarrow>
          (case snd (stop_internal qo p) of
             None \<Rightarrow> None
           | Some w \<Rightarrow> (case park w pc of (w', pc') \<Rightarrow> deinit_finish w' pc')))"

subsection \<open>The public functions\<close>

text \<open>The global queue: \<open>p\<close> is \<open>g_work_queue\<close>.\<close>

definition esp_rmaker_work_queue_init ::
  "rtos_config \<Rightarrow> ('q, 'e) queue_ops \<Rightarrow> work_queue_config \<Rightarrow> bool \<Rightarrow> nat \<Rightarrow> 'q work_queue option
     \<Rightarrow> esp_err \<times> 'q work_queue option \<times> nat" where
  "esp_rmaker_work_queue_init rt qo g_config alloc count p =
     (if p \<noteq> None then (ESP_OK, p, count) else init_internal rt qo True (Some g_config) alloc count p)"

definition esp_rmaker_work_queue_deinit where
  "esp_rmaker_work_queue_deinit qo is_worker park p pc = deinit_internal qo is_worker True park p pc"

definition esp_rmaker_work_queue_start where
  "esp_rmaker_work_queue_start is_worker ext_allowed ext_ok int_ok p pc = start_internal is_worker ext_allowed ext_ok int_ok p pc"

definition esp_rmaker_work_queue_stop where
  "esp_rmaker_work_queue_stop qo p = stop_internal qo p"

definition esp_rmaker_work_queue_add_task ::
  "('q, 'j option) queue_ops \<Rightarrow> 'q work_queue option \<Rightarrow> 'j option \<Rightarrow> esp_err \<times> 'q work_queue option" where
  "esp_rmaker_work_queue_add_task qo p work = add_task_internal qo p work"

text \<open>The instances: \<open>ph\<close> says that the handle pointer is not NULL, \<open>h\<close> is the handle.\<close>

definition esp_rmaker_work_queue_init_inst ::
  "rtos_config \<Rightarrow> ('q, 'e) queue_ops \<Rightarrow> bool \<Rightarrow> work_queue_config option \<Rightarrow> bool \<Rightarrow> nat \<Rightarrow> 'q work_queue option
     \<Rightarrow> esp_err \<times> 'q work_queue option \<times> nat" where
  "esp_rmaker_work_queue_init_inst rt qo ph config alloc count h =
     (if \<not> ph then (ESP_ERR_INVALID_ARG, h, count)
      else if config = None then (ESP_ERR_INVALID_ARG, h, count)
      else if h \<noteq> None then (ESP_ERR_INVALID_STATE, h, count)
      else init_internal rt qo True config alloc count h)"

definition esp_rmaker_work_queue_deinit_inst where
  "esp_rmaker_work_queue_deinit_inst qo is_worker ph park h pc =
     (if \<not> ph then Some (ESP_ERR_INVALID_ARG, h, pc) else deinit_internal qo is_worker True park h pc)"

definition esp_rmaker_work_queue_start_inst where
  "esp_rmaker_work_queue_start_inst is_worker ext_allowed ext_ok int_ok h pc =
     (if h = None then Some (ESP_ERR_INVALID_ARG, h, pc) else start_internal is_worker ext_allowed ext_ok int_ok h pc)"

definition esp_rmaker_work_queue_stop_inst where
  "esp_rmaker_work_queue_stop_inst qo h = (if h = None then (ESP_ERR_INVALID_ARG, h) else stop_internal qo h)"

definition esp_rmaker_work_queue_add_task_inst where
  "esp_rmaker_work_queue_add_task_inst qo h work =
     (if h = None then (ESP_ERR_INVALID_ARG, h) else add_task_internal qo h work)"

subsection \<open>Interleaving\<close>

text \<open>
  Where the controlling task is: in no call, between the flag and the wake-up entry of \<open>stop\<close> (called on its own or by
  \<open>deinit\<close>), waiting in \<open>start\<close>, between the creation of the task and \<open>state = RUNNING\<close>, waiting in \<open>deinit\<close>.
  \<open>enqueued\<close> and \<open>executed\<close> record what was added to this queue and what has run.
\<close>

datatype client_pc = C_Idle | C_Wake bool | C_Start | C_Created | C_Deinit

record ('q, 'j) wq_system =
  sys_wq :: "'q work_queue option"
  sys_pc :: "'j worker_pc"
  sys_client :: client_pc
  sys_enqueued :: "'j list"
  sys_executed :: "'j list"

definition wq_start_state :: "('q, 'j) wq_system \<Rightarrow> bool" where
  "wq_start_state s \<longleftrightarrow> s = \<lparr>sys_wq = None, sys_pc = W_None, sys_client = C_Idle, sys_enqueued = [], sys_executed = []\<rparr>"

inductive wq_step ::
  "('q, 'j option) queue_ops \<Rightarrow> ('q, 'j) wq_system \<Rightarrow> ('q, 'j) wq_system \<Rightarrow> bool" for qo where
  init: "sys_client s = C_Idle \<Longrightarrow> sys_wq s = None \<Longrightarrow>
    init_internal rt qo True (Some c) alloc count None = (ESP_OK, Some w, count') \<Longrightarrow>
    wq_step qo s (s\<lparr>sys_wq := Some w, sys_enqueued := [], sys_executed := []\<rparr>)"
| worker: "sys_wq s = Some w \<Longrightarrow> worker_step qo w (sys_pc s) = Some (w', pc', js) \<Longrightarrow>
    wq_step qo s (s\<lparr>sys_wq := Some w', sys_pc := pc', sys_executed := sys_executed s @ js\<rparr>)"
| add: "add_task_internal qo (sys_wq s) (Some j) = (ESP_OK, p') \<Longrightarrow>
    wq_step qo s (s\<lparr>sys_wq := p', sys_enqueued := sys_enqueued s @ [j]\<rparr>)"
| worker_stops: "sys_pc s = W_Run (Some j) \<Longrightarrow>
    wq_step qo s (s\<lparr>sys_wq := snd (stop_internal qo (sys_wq s))\<rparr>)"
| stop_flag: "sys_client s = C_Idle \<Longrightarrow> sys_wq s = Some w \<Longrightarrow> wq_state w = WQ_RUNNING \<Longrightarrow>
    wq_step qo s (s\<lparr>sys_wq := Some (stop_flag w), sys_client := C_Wake for_deinit\<rparr>)"
| stop_wake: "sys_client s = C_Wake for_deinit \<Longrightarrow> sys_wq s = Some w \<Longrightarrow>
    wq_step qo s (s\<lparr>sys_wq := Some (stop_wake qo w), sys_client := (if for_deinit then C_Deinit else C_Idle)\<rparr>)"
| start_wait: "sys_client s = C_Idle \<Longrightarrow> start_plan False (sys_wq s) = Start_Resume \<Longrightarrow>
    wq_step qo s (s\<lparr>sys_client := C_Start\<rparr>)"
| start_resume: "sys_client s = C_Start \<Longrightarrow> sys_wq s = Some w \<Longrightarrow> wait_stopped w (sys_pc s) \<Longrightarrow>
    wq_step qo s (s\<lparr>sys_wq := Some (w\<lparr>wq_state := WQ_RUNNING\<rparr>), sys_pc := W_Loop, sys_client := C_Idle\<rparr>)"
| start_create: "sys_client s = C_Idle \<Longrightarrow> sys_wq s = Some w \<Longrightarrow> start_plan False (Some w) = Start_Create \<Longrightarrow>
    wq_step qo s (s\<lparr>sys_wq := Some (w\<lparr>wq_task := True\<rparr>), sys_pc := W_Loop, sys_client := C_Created\<rparr>)"
| start_created: "sys_client s = C_Created \<Longrightarrow> sys_wq s = Some w \<Longrightarrow>
    wq_step qo s (s\<lparr>sys_wq := Some (w\<lparr>wq_state := WQ_RUNNING\<rparr>), sys_client := C_Idle\<rparr>)"
| deinit_wait: "sys_client s = C_Idle \<Longrightarrow> sys_wq s = Some w \<Longrightarrow> wq_state w \<noteq> WQ_RUNNING \<Longrightarrow>
    wq_step qo s (s\<lparr>sys_client := C_Deinit\<rparr>)"
| deinit_done: "sys_client s = C_Deinit \<Longrightarrow> sys_wq s = Some w \<Longrightarrow> deinit_finish w (sys_pc s) = Some (ESP_OK, p', pc') \<Longrightarrow>
    wq_step qo s (s\<lparr>sys_wq := p', sys_pc := pc', sys_client := C_Idle\<rparr>)"

inductive_cases wq_step_cases: "wq_step qo s s'"

subsection \<open>Laws of the queue\<close>

lemma fifo_create: "fifo_queue qo items cap \<Longrightarrow> q_create qo n = Some q \<Longrightarrow> items q = [] \<and> cap q = n"
  by (simp add: fifo_queue_def)

lemma fifo_send:
  assumes "fifo_queue qo items cap" and "q_send qo q e = (sent, q')"
  shows "items q' = items q @ (if sent then [e] else []) \<and> cap q' = cap q \<and> (sent \<longleftrightarrow> length (items q) < cap q)"
proof (cases "length (items q) < cap q")
  case True
  with assms(1) obtain q2 where "q_send qo q e = (True, q2)" "items q2 = items q @ [e]" "cap q2 = cap q"
    unfolding fifo_queue_def by blast
  with assms(2) True show ?thesis by simp
next
  case False
  with assms(1) have "q_send qo q e = (False, q)"
    unfolding fifo_queue_def by blast
  with assms(2) False show ?thesis by simp
qed

lemma fifo_receive:
  assumes "fifo_queue qo items cap"
  shows "case q_receive qo q of None \<Rightarrow> items q = [] | Some (e, q') \<Rightarrow> items q = e # items q' \<and> cap q' = cap q"
  using assms unfolding fifo_queue_def by blast

lemma fifo_receive_Some:
  "fifo_queue qo items cap \<Longrightarrow> q_receive qo q = Some (e, q') \<Longrightarrow> items q = e # items q' \<and> cap q' = cap q"
  using fifo_receive [of qo items cap q] by simp

lemma fifo_receive_None: "fifo_queue qo items cap \<Longrightarrow> q_receive qo q = None \<Longrightarrow> items q = []"
  using fifo_receive [of qo items cap q] by simp

text \<open>A queue that is a list with a capacity keeps the laws; it is the instance of the concrete examples.\<close>

definition list_queue :: "(nat \<times> 'e list, 'e) queue_ops" where
  "list_queue = \<lparr>q_create = (\<lambda>n. Some (n, [])),
     q_send = (\<lambda>(n, xs) e. if length xs < n then (True, (n, xs @ [e])) else (False, (n, xs))),
     q_receive = (\<lambda>(n, xs). case xs of [] \<Rightarrow> None | x # ys \<Rightarrow> Some (x, (n, ys)))\<rparr>"

lemma list_queue_fifo: "fifo_queue list_queue snd fst"
  by (auto simp: fifo_queue_def list_queue_def split: list.splits)

subsection \<open>The invariant of the interleaving\<close>

text \<open>The function that has been dequeued and not yet returned.\<close>

definition in_hand :: "'j worker_pc \<Rightarrow> 'j list" where
  "in_hand pc = (case pc of W_Run (Some j) \<Rightarrow> [j] | _ \<Rightarrow> [])"

text \<open>Control: which states of the flag, the worker and the controlling task go together.\<close>

datatype worker_class = P_None | P_Run | P_Park | P_Parked

fun pc_class :: "'j worker_pc \<Rightarrow> worker_class" where
  "pc_class W_None = P_None"
| "pc_class W_Park = P_Park"
| "pc_class W_Suspending = P_Parked"
| "pc_class W_Suspended = P_Parked"
| "pc_class pc = P_Run"

fun needs_worker :: "client_pc \<Rightarrow> bool" where
  "needs_worker C_Start = True"
| "needs_worker (C_Wake d) = True"
| "needs_worker cl = False"

fun state_ok :: "work_queue_state \<Rightarrow> worker_class \<Rightarrow> client_pc \<Rightarrow> bool" where
  "state_ok WQ_DEINIT c cl = False"
| "state_ok WQ_STOP_REQUESTED c cl = ((c = P_Run \<or> c = P_Park) \<and> cl \<noteq> C_Created)"
| "state_ok WQ_RUNNING c cl = (c = P_Run \<and> cl = C_Idle)"
| "state_ok WQ_INIT_DONE c cl =
     (if cl = C_Created then c = P_Run else c = P_Parked \<or> c = P_None \<and> \<not> needs_worker cl)"

definition wq_control :: "'q work_queue \<Rightarrow> 'j worker_pc \<Rightarrow> client_pc \<Rightarrow> bool" where
  "wq_control w pc cl \<longleftrightarrow> (wq_task w \<longleftrightarrow> pc \<noteq> W_None) \<and> state_ok (wq_state w) (pc_class pc) cl"

definition wq_data :: "('q \<Rightarrow> 'j option list) \<Rightarrow> 'q work_queue \<Rightarrow> ('q, 'j) wq_system \<Rightarrow> bool" where
  "wq_data items w s \<longleftrightarrow> sys_enqueued s = sys_executed s @ in_hand (sys_pc s) @ entries (items (wq_queue w))"

definition wq_inv ::
  "('q, 'j option) queue_ops \<Rightarrow> ('q \<Rightarrow> 'j option list) \<Rightarrow> ('q \<Rightarrow> nat) \<Rightarrow> ('q, 'j) wq_system \<Rightarrow> bool" where
  "wq_inv qo items cap s \<longleftrightarrow> (fifo_queue qo items cap \<longrightarrow>
     (case sys_wq s of
        None \<Rightarrow> sys_pc s = W_None \<and> sys_client s = C_Idle \<and> (\<exists>dropped. sys_enqueued s = sys_executed s @ dropped)
      | Some w \<Rightarrow> wq_control w (sys_pc s) (sys_client s) \<and> wq_data items w s))"

lemma init_internal_OK:
  assumes "init_internal rt qo True (Some c) alloc count None = (ESP_OK, Some w, count')"
  shows "\<exists>q. q_create qo (unat (cfg_size c)) = Some q \<and> wq_queue w = q \<and> \<not> wq_task w \<and> wq_state w = WQ_INIT_DONE"
  using assms by (auto simp: init_internal_def Let_def split: if_splits option.splits)

lemma pc_class_None: "pc_class pc = P_None \<longleftrightarrow> pc = W_None"
  by (cases pc) auto

lemma worker_receives:
  assumes "pc = W_Recv \<or> pc = W_Next" and "worker_step qo w pc = Some (w', pc', js)"
  shows "(q_receive qo (wq_queue w) = None \<and> w' = w \<and> pc' = W_Loop \<or>
    (\<exists>e q'. q_receive qo (wq_queue w) = Some (e, q') \<and> w' = w\<lparr>wq_queue := q'\<rparr> \<and> pc' = W_Run e)) \<and> js = []"
  using assms by (cases "q_receive qo (wq_queue w)") auto

lemma worker_step_control:
  assumes "wq_control w pc cl" and "worker_step qo w pc = Some (w', pc', js)"
  shows "wq_control w' pc' cl"
proof (cases "pc = W_Recv \<or> pc = W_Next")
  case True
  with worker_receives [OF True assms(2)] assms(1) show ?thesis
    by (auto simp: wq_control_def)
next
  case False
  show ?thesis
  proof (cases "wq_state w")
    case WQ_INIT_DONE
    with False assms show ?thesis
      by (cases pc) (auto simp: wq_control_def split: if_splits)
  qed (use False assms in \<open>cases pc; auto simp: wq_control_def\<close>)+
qed

lemma worker_step_data:
  assumes "fifo_queue qo items cap" and "worker_step qo w pc = Some (w', pc', js)"
  shows "js @ in_hand pc' @ entries (items (wq_queue w')) = in_hand pc @ entries (items (wq_queue w))"
proof (cases "pc = W_Recv \<or> pc = W_Next")
  case True
  show ?thesis
  proof (cases "q_receive qo (wq_queue w)")
    case None
    with True assms(2) show ?thesis by (auto simp: in_hand_def)
  next
    case (Some p)
    then obtain e q' where p: "q_receive qo (wq_queue w) = Some (e, q')" by (cases p) simp
    with True assms(2) have "w' = w\<lparr>wq_queue := q'\<rparr>" "pc' = W_Run e" "js = []" by auto
    with True fifo_receive_Some [OF assms(1) p] show ?thesis by (auto simp: in_hand_def split: option.splits)
  qed
next
  case False
  with assms(2) show ?thesis
    by (cases pc) (auto simp: in_hand_def split: option.splits if_splits)
qed

lemma send_data:
  assumes "fifo_queue qo items cap" and "q_send qo q e = (sent, q')"
  shows "entries (items q') = entries (items q) @ (if sent then entries [e] else [])"
  using fifo_send [OF assms] by (simp add: slot_simps)

lemma stop_wake_data:
  assumes "fifo_queue qo items cap"
  shows "entries (items (wq_queue (stop_wake qo w))) = entries (items (wq_queue w))"
  using send_data [OF assms, of "wq_queue w" None] by (cases "q_send qo (wq_queue w) None") (simp add: stop_wake_def)

lemma start_plan_Create:
  "start_plan False (Some w) = Start_Create \<Longrightarrow> \<not> wq_task w \<and> wq_state w = WQ_INIT_DONE"
  by (auto simp: start_plan_def is_own_worker_def split: if_splits)

lemma start_plan_Resume:
  "start_plan False p = Start_Resume \<Longrightarrow> \<exists>w. p = Some w \<and> wq_task w \<and> wq_state w \<noteq> WQ_RUNNING"
  by (auto simp: start_plan_def is_own_worker_def split: if_splits option.splits)

lemma state_ok_awake: "state_ok st c (C_Wake d) \<Longrightarrow> state_ok st c C_Idle \<and> state_ok st c C_Deinit"
  by (cases st) auto

lemma state_ok_start: "state_ok st c C_Idle \<Longrightarrow> st \<noteq> WQ_RUNNING \<Longrightarrow> c \<noteq> P_None \<Longrightarrow> state_ok st c C_Start"
  by (cases st) auto

lemma state_ok_not_start: "\<not> state_ok st P_None C_Start"
  by (cases st) auto

lemma state_ok_created: "state_ok st c C_Created \<Longrightarrow> c = P_Run"
  by (cases st) auto

lemma state_ok_deinit: "state_ok st c C_Idle \<Longrightarrow> st \<noteq> WQ_RUNNING \<Longrightarrow> state_ok st c C_Deinit"
  by (cases st) auto

lemma wq_step_inv:
  assumes "wq_inv qo items cap s" and "wq_step qo s s'"
  shows "wq_inv qo items cap s'"
  unfolding wq_inv_def
proof
  assume fifo: "fifo_queue qo items cap"
  note I = assms(1) [unfolded wq_inv_def, rule_format, OF fifo]
  show "case sys_wq s' of
        None \<Rightarrow> sys_pc s' = W_None \<and> sys_client s' = C_Idle \<and> (\<exists>dropped. sys_enqueued s' = sys_executed s' @ dropped)
      | Some w \<Rightarrow> wq_control w (sys_pc s') (sys_client s') \<and> wq_data items w s'"
    using assms(2)
  proof (cases rule: wq_step.cases)
    case (init rt c alloc count w count')
    with I fifo init_internal_OK [OF init(4)] show ?thesis
      by (auto simp: wq_control_def wq_data_def in_hand_def dest!: fifo_create)
  next
    case (worker w w' pc' js)
    with I show ?thesis
      using worker_step_control [of w "sys_pc s" "sys_client s" qo] worker_step_data [OF fifo worker(3)]
      by (simp add: wq_data_def)
  next
    case (add j p')
    then obtain w where w: "sys_wq s = Some w" by (auto simp: add_task_internal_def split: option.splits)
    obtain sent q' where snd: "q_send qo (wq_queue w) (Some j) = (sent, q')" by (cases "q_send qo (wq_queue w) (Some j)")
    with add w have "sent" "p' = Some (w\<lparr>wq_queue := q'\<rparr>)"
      by (auto simp: add_task_internal_def split: if_splits)
    with I add w send_data [OF fifo snd] show ?thesis
      by (simp add: wq_control_def wq_data_def)
  next
    case (worker_stops j)
    then obtain w where w: "sys_wq s = Some w" using I by (cases "sys_wq s") auto
    with I worker_stops stop_wake_data [OF fifo, of "stop_flag w"] show ?thesis
      by (auto simp: stop_internal_def wq_control_def wq_data_def stop_flag_def stop_wake_def)
  next
    case (stop_flag w for_deinit)
    with I show ?thesis
      by (auto simp: wq_control_def wq_data_def stop_flag_def)
  next
    case (stop_wake for_deinit w)
    with I stop_wake_data [OF fifo, of w] state_ok_awake [of "wq_state w" "pc_class (sys_pc s)" for_deinit] show ?thesis
      by (auto simp: wq_control_def wq_data_def stop_wake_def)
  next
    case start_wait
    with I start_plan_Resume [OF start_wait(3)] state_ok_start show ?thesis
      by (auto simp: wq_control_def wq_data_def pc_class_None)
  next
    case (start_resume w)
    with I show ?thesis
      by (auto simp: wq_control_def wq_data_def wait_stopped_def in_hand_def state_ok_not_start)
  next
    case (start_create w)
    with I start_plan_Create [OF start_create(4)] show ?thesis
      by (auto simp: wq_control_def wq_data_def in_hand_def)
  next
    case (start_created w)
    with I state_ok_created [of "wq_state w" "pc_class (sys_pc s)"] show ?thesis
      by (auto simp: wq_control_def wq_data_def)
  next
    case (deinit_wait w)
    with I state_ok_deinit [of "wq_state w" "pc_class (sys_pc s)"] show ?thesis
      by (auto simp: wq_control_def wq_data_def)
  next
    case (deinit_done w p' pc')
    with I show ?thesis
      by (auto simp: wq_data_def deinit_finish_def split: if_splits)
  qed
qed

interpretation wq: inductive_invariant wq_start_state "wq_step qo" "wq_inv qo items cap" for qo items cap
proof unfold_locales
  show "wq_inv qo items cap s" if "wq_start_state s" for s
    using that by (simp add: wq_start_state_def wq_inv_def)
  show "wq_inv qo items cap s'" if "wq_inv qo items cap s" "wq_step qo s s'" for s s'
    using that by (rule wq_step_inv)
qed

subsection \<open>The worker on its own\<close>

text \<open>\<open>worker_run qo n\<close>: up to \<open>n\<close> steps of the worker without any other task; the list is what it ran.\<close>

fun worker_run ::
  "('q, 'j option) queue_ops \<Rightarrow> nat \<Rightarrow> 'q work_queue \<Rightarrow> 'j worker_pc \<Rightarrow> 'q work_queue \<times> 'j worker_pc \<times> 'j list" where
  "worker_run qo 0 w pc = (w, pc, [])"
| "worker_run qo (Suc n) w pc =
     (case worker_step qo w pc of
        None \<Rightarrow> (w, pc, [])
      | Some (w1, pc1, js) \<Rightarrow> (case worker_run qo n w1 pc1 of (w2, pc2, ks) \<Rightarrow> (w2, pc2, js @ ks)))"

text \<open>An upper bound of the steps until the worker is suspended, once a stop is requested.\<close>

fun steps_to_park :: "nat \<Rightarrow> 'j worker_pc \<Rightarrow> nat" where
  "steps_to_park n W_None = 0"
| "steps_to_park n W_Suspended = 0"
| "steps_to_park n W_Suspending = 1"
| "steps_to_park n W_Park = 2"
| "steps_to_park n W_Loop = 3"
| "steps_to_park n W_Next = 2 * n + 4"
| "steps_to_park n W_Recv = 2 * n + 4"
| "steps_to_park n (W_Run e) = 2 * n + 5"

text \<open>Stopping: the request stands until the worker has stored \<open>INIT_DONE\<close> and is about to suspend.\<close>

definition stopping :: "'q work_queue \<Rightarrow> 'j worker_pc \<Rightarrow> bool" where
  "stopping w pc \<longleftrightarrow>
     (case pc_class pc of P_None \<Rightarrow> False | P_Parked \<Rightarrow> wq_state w = WQ_INIT_DONE | _ \<Rightarrow> wq_state w = WQ_STOP_REQUESTED)"

lemma stopping_step:
  assumes "fifo_queue qo items cap" and "stopping w pc" and "pc \<noteq> W_Suspended"
  shows "\<exists>w' pc' js. worker_step qo w pc = Some (w', pc', js) \<and> stopping w' pc' \<and> wq_task w' = wq_task w \<and>
    steps_to_park (length (items (wq_queue w'))) pc' < steps_to_park (length (items (wq_queue w))) pc"
proof (cases "pc = W_Recv \<or> pc = W_Next")
  case True
  show ?thesis
  proof (cases "q_receive qo (wq_queue w)")
    case None
    with True assms(2) show ?thesis by (auto simp: stopping_def)
  next
    case (Some p)
    then obtain e q' where p: "q_receive qo (wq_queue w) = Some (e, q')" by (cases p) simp
    with True assms(2) fifo_receive_Some [OF assms(1) p] show ?thesis by (auto simp: stopping_def)
  qed
next
  case False
  with assms(2,3) show ?thesis
    by (cases pc) (auto simp: stopping_def)
qed

lemma worker_run_parks:
  assumes "fifo_queue qo items cap" and "stopping w pc" and "steps_to_park (length (items (wq_queue w))) pc \<le> n"
  shows "\<exists>w' js. worker_run qo n w pc = (w', W_Suspended, js) \<and> wq_state w' = WQ_INIT_DONE \<and> wq_task w' = wq_task w"
  using assms(2,3)
proof (induction n arbitrary: w pc)
  case 0
  then show ?case by (cases pc) (auto simp: stopping_def)
next
  case (Suc n)
  show ?case
  proof (cases "pc = W_Suspended")
    case True
    with Suc.prems show ?thesis by (simp add: stopping_def)
  next
    case False
    from stopping_step [OF assms(1) Suc.prems(1) False] obtain w1 pc1 js where
      1: "worker_step qo w pc = Some (w1, pc1, js)" "stopping w1 pc1" "wq_task w1 = wq_task w"
        "steps_to_park (length (items (wq_queue w1))) pc1 < steps_to_park (length (items (wq_queue w))) pc"
      by blast
    with Suc.IH [of w1 pc1] Suc.prems(2) show ?thesis by auto
  qed
qed

text \<open>In a drain the worker empties the queue before it looks at the flag again.\<close>

definition draining :: "'j worker_pc \<Rightarrow> bool" where
  "draining pc \<longleftrightarrow> pc = W_Recv \<or> pc = W_Next \<or> (\<exists>e. pc = W_Run e)"

lemma worker_run_drains:
  assumes "fifo_queue qo items cap" and "draining pc" and "steps_to_park (length (items (wq_queue w))) pc \<le> n"
    and "wq_state w = WQ_STOP_REQUESTED"
  shows "\<exists>w' js. worker_run qo n w pc = (w', W_Suspended, js) \<and> js = in_hand pc @ entries (items (wq_queue w)) \<and>
    entries (items (wq_queue w')) = []"
  using assms(2-4)
proof (induction n arbitrary: w pc)
  case 0
  then show ?case by (cases pc) (auto simp: draining_def)
next
  case (Suc n)
  show ?case
  proof (cases "\<exists>e. pc = W_Run e")
    case True
    then obtain e where e: "pc = W_Run e" by blast
    with Suc.prems Suc.IH [of W_Next w] show ?thesis
      by (auto simp: draining_def in_hand_def split: option.splits)
  next
    case False
    with Suc.prems(1) have recv: "pc = W_Recv \<or> pc = W_Next" by (auto simp: draining_def)
    show ?thesis
    proof (cases "q_receive qo (wq_queue w)")
      case None
      then have empty: "items (wq_queue w) = []" by (rule fifo_receive_None [OF assms(1)])
      obtain m where m: "n = Suc (Suc (Suc m))"
      proof -
        have "3 \<le> n" using Suc.prems(2) recv empty by auto
        then have "n = Suc (Suc (Suc (n - 3)))" by simp
        then show ?thesis by (rule that)
      qed
      have "worker_run qo (Suc n) w pc = (w\<lparr>wq_state := WQ_INIT_DONE\<rparr>, W_Suspended, [])"
        using recv None Suc.prems(3) by (cases m) (auto simp: m)
      with recv empty show ?thesis by (auto simp: in_hand_def)
    next
      case (Some p)
      then obtain e q' where p: "q_receive qo (wq_queue w) = Some (e, q')" by (cases p) simp
      have items: "items (wq_queue w) = e # items q'" by (rule conjunct1 [OF fifo_receive_Some [OF assms(1) p]])
      from recv p have step: "worker_step qo w pc = Some (w\<lparr>wq_queue := q'\<rparr>, W_Run e, [])" by auto
      with Suc.IH [of "W_Run e" "w\<lparr>wq_queue := q'\<rparr>"] Suc.prems recv items show ?thesis
        by (auto simp: draining_def in_hand_def split: option.splits)
    qed
  qed
qed

subsection \<open>Concrete schedules\<close>

definition ex_rtos :: rtos_config where
  "ex_rtos = \<lparr>configMAX_PRIORITIES = 25, configMAX_TASK_NAME_LEN = 16, tskNO_AFFINITY = 2147483647, portNUM_PROCESSORS = 2\<rparr>"

definition ex_config :: work_queue_config where
  "ex_config = \<lparr>cfg_size = 8, cfg_stack_size = 4096, cfg_priority = 5, cfg_prefer_ext_ram = False, cfg_name = Some ''wq'',
     cfg_core_id = 2147483647\<rparr>"

definition ex_wq :: "work_queue_state \<Rightarrow> bool \<Rightarrow> 'j option list \<Rightarrow> (nat \<times> 'j option list) work_queue" where
  "ex_wq st task xs = \<lparr>wq_name = ''wq'', wq_queue = (8, xs), wq_task = task, wq_config = ex_config\<lparr>cfg_name := None\<rparr>,
     wq_state = st\<rparr>"

definition ex_sys ::
  "work_queue_state \<Rightarrow> bool \<Rightarrow> 'j option list \<Rightarrow> 'j worker_pc \<Rightarrow> client_pc \<Rightarrow> 'j list \<Rightarrow> 'j list
     \<Rightarrow> (nat \<times> 'j option list, 'j) wq_system" where
  "ex_sys st task xs pc cl en ex = \<lparr>sys_wq = Some (ex_wq st task xs), sys_pc = pc, sys_client = cl, sys_enqueued = en, sys_executed = ex\<rparr>"

lemmas ex_defs = ex_sys_def ex_wq_def list_queue_def

lemma ex_init_step:
  "wq_step list_queue \<lparr>sys_wq = None, sys_pc = W_None, sys_client = C_Idle, sys_enqueued = [], sys_executed = []\<rparr>
    (ex_sys WQ_INIT_DONE False [] W_None C_Idle [] [])"
proof -
  let ?s0 = "\<lparr>sys_wq = None, sys_pc = W_None, sys_client = C_Idle, sys_enqueued = [], sys_executed = []\<rparr>
    :: (nat \<times> 'a option list, 'a) wq_system"
  have "init_internal ex_rtos list_queue True (Some ex_config) True 0 None
      = (ESP_OK, Some (ex_wq WQ_INIT_DONE False []), 0)"
    by (simp add: init_internal_def config_valid_def ex_rtos_def ex_config_def ex_wq_def list_queue_def)
  from wq_step.init [OF _ _ this, of ?s0] show ?thesis by (simp add: ex_sys_def)
qed

lemma ex_init: "reach wq_start_state (wq_step list_queue) (ex_sys WQ_INIT_DONE False [] W_None C_Idle [] [])"
  using ex_init_step by (rule reach.step [rotated]) (rule reach.start, simp add: wq_start_state_def)

text \<open>Concrete runs go from the created handle by single steps.\<close>

lemma ex_worker:
  assumes "reach wq_start_state (wq_step list_queue) (ex_sys st task xs pc cl en ex)"
    and "worker_step list_queue (ex_wq st task xs) pc = Some (ex_wq st' task' xs', pc', js)"
  shows "reach wq_start_state (wq_step list_queue) (ex_sys st' task' xs' pc' cl en (ex @ js))"
  using wq_step.worker [of "ex_sys st task xs pc cl en ex" "ex_wq st task xs" list_queue "ex_wq st' task' xs'" pc' js] assms
  by (auto simp: ex_sys_def intro: reach.step)

lemma ex_add:
  assumes "reach wq_start_state (wq_step list_queue) (ex_sys st task xs pc cl en ex)" and "length xs < 8"
  shows "reach wq_start_state (wq_step list_queue) (ex_sys st task (xs @ [Some j]) pc cl (en @ [j]) ex)"
proof (rule reach.step [OF assms(1)])
  have "add_task_internal list_queue (sys_wq (ex_sys st task xs pc cl en ex)) (Some j) = (ESP_OK, Some (ex_wq st task (xs @ [Some j])))"
    using assms(2) by (simp add: add_task_internal_def ex_defs)
  from wq_step.add [OF this]
  show "wq_step list_queue (ex_sys st task xs pc cl en ex) (ex_sys st task (xs @ [Some j]) pc cl (en @ [j]) ex)"
    by (simp add: ex_sys_def)
qed

lemma ex_create:
  assumes "reach wq_start_state (wq_step list_queue) (ex_sys WQ_INIT_DONE False xs W_None C_Idle en ex)"
  shows "reach wq_start_state (wq_step list_queue) (ex_sys WQ_INIT_DONE True xs W_Loop C_Created en ex)"
proof (rule reach.step [OF assms])
  let ?s = "ex_sys WQ_INIT_DONE False xs W_None C_Idle en ex"
  have "start_plan False (Some (ex_wq WQ_INIT_DONE False xs)) = Start_Create"
    by (simp add: start_plan_def ex_wq_def)
  from wq_step.start_create [OF _ _ this, of ?s list_queue]
  show "wq_step list_queue ?s (ex_sys WQ_INIT_DONE True xs W_Loop C_Created en ex)"
    by (simp add: ex_defs)
qed

lemma ex_created:
  "wq_step list_queue (ex_sys st True xs pc C_Created en ex) (ex_sys WQ_RUNNING True xs pc C_Idle en ex)"
  using wq_step.start_created [of "ex_sys st True xs pc C_Created en ex" "ex_wq st True xs" list_queue]
  by (simp add: ex_sys_def ex_wq_def)

lemma ex_stop:
  assumes "reach wq_start_state (wq_step list_queue) (ex_sys WQ_RUNNING True xs pc C_Idle en ex)"
  shows "reach wq_start_state (wq_step list_queue) (ex_sys WQ_STOP_REQUESTED True xs pc (C_Wake d) en ex)"
  using wq_step.stop_flag [of "ex_sys WQ_RUNNING True xs pc C_Idle en ex" "ex_wq WQ_RUNNING True xs" list_queue d]
  by (intro reach.step [OF assms]) (simp add: ex_sys_def ex_wq_def stop_flag_def)

lemma ex_wake:
  assumes "reach wq_start_state (wq_step list_queue) (ex_sys st True xs pc (C_Wake False) en ex)" and "length xs < 8"
  shows "reach wq_start_state (wq_step list_queue) (ex_sys st True (xs @ [None]) pc C_Idle en ex)"
  using wq_step.stop_wake [of "ex_sys st True xs pc (C_Wake False) en ex" False "ex_wq st True xs" list_queue] assms(2)
  by (intro reach.step [OF assms(1)]) (simp add: ex_defs stop_wake_def)

lemma ex_run_reach:
  "reach wq_start_state (wq_step list_queue) (ex_sys WQ_INIT_DONE True [Some k] (W_Run (Some j)) C_Created [j, k] [])"
proof -
  from ex_create [OF ex_add [OF ex_add [OF ex_init, of j, simplified], of k, simplified]]
  have "reach wq_start_state (wq_step list_queue) (ex_sys WQ_INIT_DONE True [Some j, Some k] W_Loop C_Created [j, k] [])" .
  from ex_worker [OF this, of WQ_INIT_DONE True "[Some j, Some k]" W_Recv "[]"]
  have "reach wq_start_state (wq_step list_queue) (ex_sys WQ_INIT_DONE True [Some j, Some k] W_Recv C_Created [j, k] [])"
    by (simp add: ex_wq_def)
  from ex_worker [OF this, of WQ_INIT_DONE True "[Some k]" "W_Run (Some j)" "[]"]
  show ?thesis
    by (simp add: ex_wq_def list_queue_def)
qed

lemma ex_stop_reach:
  "reach wq_start_state (wq_step list_queue) (ex_sys WQ_STOP_REQUESTED True [Some k] (W_Run (Some j)) (C_Wake False) [j, k] [])"
  using ex_stop [OF reach.step [OF ex_run_reach ex_created]] .

subsection \<open>Properties\<close>

lemma reach_inv:
  assumes "fifo_queue qo items cap" and "reach wq_start_state (wq_step qo) s"
  shows "case sys_wq s of
        None \<Rightarrow> sys_pc s = W_None \<and> sys_client s = C_Idle \<and> (\<exists>dropped. sys_enqueued s = sys_executed s @ dropped)
      | Some w \<Rightarrow> wq_control w (sys_pc s) (sys_client s) \<and> wq_data items w s"
  using wq.reachable [OF assms(2), of items cap] assms(1) by (simp add: wq_inv_def)

text \<open>
  C1. First in, first out, exactly once: in every reachable state, whatever the interleaving of the adding tasks,
  the worker and start/stop/deinit, the functions accepted since init are those that have run, in the order they
  were added, followed by the one in the worker's hand and those still in the queue; a deinit can only drop the
  latter.
\<close>

theorem wq_fifo_exactly_once:
  assumes "fifo_queue qo items cap" and "reach wq_start_state (wq_step qo) s"
  shows "\<exists>rest. sys_enqueued s = sys_executed s @ rest \<and>
    (case sys_wq s of None \<Rightarrow> True | Some w \<Rightarrow> rest = in_hand (sys_pc s) @ entries (items (wq_queue w)))"
  using reach_inv [OF assms] by (auto simp: wq_data_def split: option.splits)

theorem wq_fifo_exactly_once_witness:
  "\<exists>rest. [3, 4] = [] @ rest \<and> rest = in_hand (W_Run (Some (3 :: nat))) @ entries [Some 4]"
  using wq_fifo_exactly_once [OF list_queue_fifo ex_run_reach [of "4 :: nat" 3]] by (simp add: ex_sys_def ex_wq_def)

text \<open>
  One worker for the life of the queue: in every reachable state a worker task exists exactly when the
  handle's task pointer is set, none is left when the handle is gone; \<open>start\<close> creates a task only when there is none,
  and \<open>deinit\<close> deletes the task only when it is suspended with no function in hand.
\<close>

theorem wq_one_worker:
  assumes "fifo_queue qo items cap" and "reach wq_start_state (wq_step qo) s"
  shows "(sys_pc s \<noteq> W_None \<longleftrightarrow> (\<exists>w. sys_wq s = Some w \<and> wq_task w)) \<and>
    (start_plan False (sys_wq s) = Start_Create \<longrightarrow> sys_pc s = W_None) \<and>
    (\<forall>w. sys_wq s = Some w \<and> deinit_finish w (sys_pc s) \<noteq> None \<longrightarrow>
       (sys_pc s = W_None \<or> sys_pc s = W_Suspended) \<and> in_hand (sys_pc s) = [])"
proof (cases "sys_wq s")
  case None
  with reach_inv [OF assms] show ?thesis by (auto simp: start_plan_def)
next
  case (Some w)
  with reach_inv [OF assms] show ?thesis
    by (auto simp: wq_control_def deinit_finish_def wait_stopped_def in_hand_def dest: start_plan_Create split: if_splits)
qed

lemma stop_wake_length:
  assumes "fifo_queue qo items cap"
  shows "length (items (wq_queue (stop_wake qo w))) \<le> length (items (wq_queue w)) + 1"
  using fifo_send [OF assms, of "wq_queue w" None] by (cases "q_send qo (wq_queue w) None") (simp add: stop_wake_def)

lemma stop_internal_stopping:
  assumes "fifo_queue qo items cap" and "wq_control w pc C_Idle" and "wq_task w"
  shows "\<exists>w1. stop_internal qo (Some w) = (ESP_OK, Some w1) \<and> stopping w1 pc \<and> wq_task w1 \<and>
    length (items (wq_queue w1)) \<le> length (items (wq_queue w)) + 1"
proof (cases "wq_state w")
  case WQ_RUNNING
  with assms stop_wake_length [OF assms(1), of "stop_flag w"] show ?thesis
    by (auto simp: stop_internal_def wq_control_def stopping_def stop_wake_def stop_flag_def)
qed (use assms in \<open>auto simp: stop_internal_def wq_control_def stopping_def pc_class_None split: worker_class.splits\<close>)

lemma steps_to_park_le: "steps_to_park n pc \<le> 2 * n + 5"
  by (cases pc) auto

theorem wq_one_worker_witness:
  "(W_Run (Some (3 :: nat)) \<noteq> W_None) = (\<exists>w. sys_wq (ex_sys WQ_STOP_REQUESTED True [Some (4 :: nat)]
      (W_Run (Some 3)) (C_Wake False) [3, 4] []) = Some w \<and> wq_task w)"
  using wq_one_worker [OF list_queue_fifo ex_stop_reach [of "4 :: nat" 3]] by (simp add: ex_sys_def)



text \<open>
  A stop that arrives while the worker is inside a drain loses nothing: the worker runs every function that is
  queued, in order, before it parks.
\<close>

theorem wq_stop_in_drain_runs_all:
  assumes "fifo_queue qo items cap" and "reach wq_start_state (wq_step qo) s" and "sys_wq s = Some w"
    and "draining (sys_pc s)" and "wq_state w = WQ_STOP_REQUESTED" and "2 * length (items (wq_queue w)) + 5 \<le> n"
  shows "\<exists>w' js. worker_run qo n w (sys_pc s) = (w', W_Suspended, js) \<and> sys_enqueued s = sys_executed s @ js"
proof -
  have "sys_enqueued s = sys_executed s @ in_hand (sys_pc s) @ entries (items (wq_queue w))"
    using reach_inv [OF assms(1,2)] assms(3) by (simp add: wq_data_def)
  moreover have "steps_to_park (length (items (wq_queue w))) (sys_pc s) \<le> n"
    using steps_to_park_le [of "length (items (wq_queue w))" "sys_pc s"] assms(6) by linarith
  ultimately show ?thesis
    using worker_run_drains [OF assms(1,4) _ assms(5), of n] by auto
qed

theorem wq_stop_in_drain_runs_all_witness:
  "\<exists>w' js. worker_run list_queue 7 (ex_wq WQ_STOP_REQUESTED True [Some (4 :: nat)]) (W_Run (Some 3)) = (w', W_Suspended, js) \<and>
    [3, 4] = [] @ js"
  using wq_stop_in_drain_runs_all [OF list_queue_fifo ex_stop_reach [of "4 :: nat" 3],
      of "ex_wq WQ_STOP_REQUESTED True [Some 4]" 7]
  by (simp add: ex_sys_def ex_wq_def draining_def)

text \<open>
  A stop can park the worker with functions still queued: if the stop request is stored before the started
  worker tests the flag for the first time, it parks without having looked at the queue.
\<close>

theorem wq_stop_parks_with_pending:
  "\<exists>s w. reach wq_start_state (wq_step list_queue) s \<and> sys_client s = C_Idle \<and> sys_wq s = Some w \<and>
    wq_state w = WQ_INIT_DONE \<and> sys_pc s = W_Suspended \<and> sys_enqueued s = [j] \<and> sys_executed s = [] \<and>
    entries (snd (wq_queue w)) = [j]"
proof -
  note ex_add [OF reach.step [OF ex_create [OF ex_init] ex_created], of j, simplified]
  from ex_stop [OF this, of False]
  have "reach wq_start_state (wq_step list_queue) (ex_sys WQ_STOP_REQUESTED True [Some j] W_Loop (C_Wake False) [j] [])" .
  from ex_wake [OF this]
  have "reach wq_start_state (wq_step list_queue) (ex_sys WQ_STOP_REQUESTED True [Some j, None] W_Loop C_Idle [j] [])"
    by simp
  from ex_worker [OF this, of WQ_STOP_REQUESTED True "[Some j, None]" W_Park "[]"]
  have "reach wq_start_state (wq_step list_queue) (ex_sys WQ_STOP_REQUESTED True [Some j, None] W_Park C_Idle [j] [])"
    by (simp add: ex_wq_def)
  from ex_worker [OF this, of WQ_INIT_DONE True "[Some j, None]" W_Suspending "[]"]
  have "reach wq_start_state (wq_step list_queue) (ex_sys WQ_INIT_DONE True [Some j, None] W_Suspending C_Idle [j] [])"
    by (simp add: ex_wq_def)
  from ex_worker [OF this, of WQ_INIT_DONE True "[Some j, None]" W_Suspended "[]"]
  have "reach wq_start_state (wq_step list_queue) (ex_sys WQ_INIT_DONE True [Some j, None] W_Suspended C_Idle [j] [])"
    by simp
  then show ?thesis
    by (intro exI [of _ "ex_sys WQ_INIT_DONE True [Some j, None] W_Suspended C_Idle [j] []"]
        exI [of _ "ex_wq WQ_INIT_DONE True [Some j, None]"]) (simp add: ex_sys_def ex_wq_def)
qed

text \<open>
  C34. A stop can be lost: while \<open>start\<close> is between the creation of the task and the store of \<open>RUNNING\<close>, a
  queued function that calls \<open>stop\<close> is told \<open>ESP_OK\<close>, nothing changes, and the queue goes on running.
\<close>

theorem wq_stop_can_be_lost:
  "\<exists>s s' w. reach wq_start_state (wq_step list_queue) s \<and> sys_pc s = W_Run (Some j) \<and>
    stop_internal list_queue (sys_wq s) = (ESP_OK, sys_wq s) \<and> wq_step list_queue s s' \<and>
    sys_wq s' = Some w \<and> wq_state w = WQ_RUNNING \<and> sys_pc s' = W_Run (Some j)"
proof -
  from ex_create [OF ex_add [OF ex_init, of j, simplified]]
  have "reach wq_start_state (wq_step list_queue) (ex_sys WQ_INIT_DONE True [Some j] W_Loop C_Created [j] [])" .
  from ex_worker [OF this, of WQ_INIT_DONE True "[Some j]" W_Recv "[]"]
  have "reach wq_start_state (wq_step list_queue) (ex_sys WQ_INIT_DONE True [Some j] W_Recv C_Created [j] [])"
    by (simp add: ex_wq_def)
  from ex_worker [OF this, of WQ_INIT_DONE True "[]" "W_Run (Some j)" "[]"]
  have "reach wq_start_state (wq_step list_queue) (ex_sys WQ_INIT_DONE True [] (W_Run (Some j)) C_Created [j] [])"
    by (simp add: ex_wq_def list_queue_def)
  with ex_created [of WQ_INIT_DONE "[]" "W_Run (Some j)" "[j]" "[]"] show ?thesis
    by (intro exI [of _ "ex_sys WQ_INIT_DONE True [] (W_Run (Some j)) C_Created [j] []"]
        exI [of _ "ex_sys WQ_RUNNING True [] (W_Run (Some j)) C_Idle [j] []"] exI [of _ "ex_wq WQ_RUNNING True []"])
      (simp add: ex_sys_def ex_wq_def stop_internal_def)
qed

text \<open>
  \<open>init\<close> of an instance: a NULL pointer, a missing or invalid configuration, a handle in use and a failed
  allocation are refused with their codes and leave the handle as it was; otherwise the new queue is empty, not
  started, and its name fits its field.
\<close>

theorem wq_init_inst:
  assumes "fifo_queue qo items cap" and "0 < configMAX_TASK_NAME_LEN rt"
  shows "(case esp_rmaker_work_queue_init_inst rt qo ph config alloc count h of (err, h', count') \<Rightarrow>
     (if err = ESP_OK
      then ph \<and> h = None \<and> alloc \<and> (\<exists>c w. config = Some c \<and> config_valid rt c \<and> h' = Some w \<and>
        wq_state w = WQ_INIT_DONE \<and> \<not> wq_task w \<and> items (wq_queue w) = [] \<and> cap (wq_queue w) = unat (cfg_size c) \<and>
        length (wq_name w) < configMAX_TASK_NAME_LEN rt \<and> cfg_name (wq_config w) = None)
      else h' = h \<and> count' = count \<and>
        (err = ESP_ERR_INVALID_ARG \<and> (\<not> ph \<or> config = None \<or> \<not> config_valid rt (the config)) \<or>
         err = ESP_ERR_INVALID_STATE \<and> h \<noteq> None \<or>
         err = ESP_ERR_NO_MEM \<and> (\<not> alloc \<or> q_create qo (unat (cfg_size (the config))) = None))))"
proof (cases "ph \<and> config \<noteq> None \<and> h = None")
  case True
  then obtain c where c: "ph" "config = Some c" "h = None" by blast
  show ?thesis
  proof (cases "config_valid rt c \<and> alloc")
    case True
    with c assms fifo_create [OF assms(1), of "unat (cfg_size c)"] show ?thesis
      by (cases "q_create qo (unat (cfg_size c))"; cases "cfg_name c")
        (auto simp: esp_rmaker_work_queue_init_inst_def init_internal_def Let_def)
  next
    case False
    with c show ?thesis by (auto simp: esp_rmaker_work_queue_init_inst_def init_internal_def Let_def)
  qed
next
  case False
  then show ?thesis by (auto simp: esp_rmaker_work_queue_init_inst_def)
qed

theorem wq_init_inst_witness:
  "case esp_rmaker_work_queue_init_inst ex_rtos list_queue True (Some ex_config) True 0 None of (err, h', count') \<Rightarrow>
     err = ESP_OK \<and> h' \<noteq> None"
  using wq_init_inst [where rt = ex_rtos and ph = True and config = "Some ex_config" and alloc = True and count = 0
      and h = "None :: (nat \<times> nat list) work_queue option", OF list_queue_fifo]
  by (simp add: esp_rmaker_work_queue_init_inst_def init_internal_def config_valid_def ex_rtos_def ex_config_def list_queue_def)

end
