(* ===== verification/Mqtt_Queue.thy ===== *)
theory Mqtt_Queue
  imports Mqtt_Retry Work_Queue
begin

section \<open>Retry rounds through the work queue\<close>

text \<open>
  \<open>esp-mqtt-glue.c\<close> over \<open>work_queue.c\<close>: the callback of the retry timer hands a round to the global work queue and runs it at once
  only when the queue does not take it. The glue of \<open>Mqtt_Retry\<close>, the timer and the queue of \<open>Work_Queue\<close> run side by side, in
  any interleaving; the queue also carries the functions of the application.
\<close>

subsection \<open>The callback\<close>

datatype 'j job = Retry_Round | App_Job 'j

text \<open>\<open>work\<close> is \<open>esp_mqtt_glue_sub_retry_work\<close>; the first result is what \<open>esp_rmaker_work_queue_add_task\<close> returned.\<close>

definition sub_retry_timer_cb ::
  "('q, 'j job option) queue_ops \<Rightarrow> (('c, 'p) glue option \<Rightarrow> ('c, 'p) glue option \<times> glue_out list) \<Rightarrow> 'q work_queue option
     \<Rightarrow> ('c, 'p) glue option \<Rightarrow> esp_err \<times> 'q work_queue option \<times> ('c, 'p) glue option \<times> glue_out list" where
  "sub_retry_timer_cb qo work p d =
     (case esp_rmaker_work_queue_add_task qo p (Some Retry_Round) of
        (err, p') \<Rightarrow> if err \<noteq> ESP_OK then (err, p', work d) else (err, p', d, []))"

subsection \<open>The glue and the queue together\<close>

text \<open>\<open>rs_dropped\<close> records that a deinit of the work queue took a waiting round with it.\<close>

record ('q, 'j, 'c, 'p) round_sys =
  rs_glue :: "('c, 'p) glue"
  rs_armed :: bool
  rs_wq :: "('q, 'j job) wq_system"
  rs_dropped :: bool

text \<open>The functions accepted by the queue that have not run.\<close>

definition outstanding :: "('q, 'j) wq_system \<Rightarrow> 'j list" where
  "outstanding s = drop (length (sys_executed s)) (sys_enqueued s)"

text \<open>An operation of the glue is one of \<open>Mqtt_Retry\<close> that is neither an expiry nor a round.\<close>

inductive round_step ::
  "tick_config \<Rightarrow> ('q, 'j job option) queue_ops \<Rightarrow> ('q, 'j, 'c, 'p) round_sys \<Rightarrow> ('q, 'j, 'c, 'p) round_sys \<Rightarrow> bool" for cfg qo where
  operation: "glue_step cfg \<lparr>gs_glue = rs_glue s, gs_armed = rs_armed s, gs_round = False\<rparr> \<lparr>gs_glue = g', gs_armed = a', gs_round = False\<rparr> \<Longrightarrow>
    round_step cfg qo s (s\<lparr>rs_glue := g', rs_armed := a'\<rparr>)"
| timer: "rs_armed s \<Longrightarrow> \<not> g_deleting (rs_glue s) \<Longrightarrow> \<forall>i. mid_ok (mid i) \<Longrightarrow>
    sub_retry_timer_cb qo (sub_retry_work cfg now alloc env mid tick posted True) (sys_wq (rs_wq s)) (Some (rs_glue s)) = (err, p', Some g', outs) \<Longrightarrow>
    round_step cfg qo s (s\<lparr>rs_glue := g', rs_armed := armed_after False outs,
      rs_wq := (rs_wq s)\<lparr>sys_wq := p', sys_enqueued := sys_enqueued (rs_wq s) @ (if err = ESP_OK then [Retry_Round] else [])\<rparr>\<rparr>)"
| queue: "wq_step qo (rs_wq s) w' \<Longrightarrow> sys_executed w' \<noteq> sys_executed (rs_wq s) @ [Retry_Round] \<Longrightarrow>
    round_step cfg qo s (s\<lparr>rs_wq := w', rs_dropped := rs_dropped s \<or>
      sys_wq (rs_wq s) \<noteq> None \<and> sys_wq w' = None \<and> Retry_Round \<in> set (outstanding (rs_wq s))\<rparr>)"
| run_round: "wq_step qo (rs_wq s) w' \<Longrightarrow> sys_executed w' = sys_executed (rs_wq s) @ [Retry_Round] \<Longrightarrow>
    \<not> g_deleting (rs_glue s) \<Longrightarrow> \<forall>i. mid_ok (mid i) \<Longrightarrow>
    sub_retry_work cfg now alloc env mid tick posted True (Some (rs_glue s)) = (Some g', outs) \<Longrightarrow>
    round_step cfg qo s (s\<lparr>rs_glue := g', rs_armed := armed_after (rs_armed s) outs, rs_wq := w'\<rparr>)"

text \<open>The glue has just been made; the queue has not.\<close>

definition round_start :: "('q, 'j, 'c, 'p) round_sys \<Rightarrow> bool" where
  "round_start s \<longleftrightarrow> glue_start \<lparr>gs_glue = rs_glue s, gs_armed = rs_armed s, gs_round = False\<rparr> \<and> wq_start_state (rs_wq s) \<and> \<not> rs_dropped s"

subsection \<open>What the queue does with a function it holds\<close>

definition waiting :: "('q \<Rightarrow> 'j option list) \<Rightarrow> 'j \<Rightarrow> ('q, 'j) wq_system \<Rightarrow> bool" where
  "waiting items j s \<longleftrightarrow>
     (case sys_wq s of None \<Rightarrow> False | Some w \<Rightarrow> j \<in> set (in_hand (sys_pc s) @ entries (items (wq_queue w))))"

lemma waiting_outstanding:
  assumes "fifo_queue qo items cap" and "wq_inv qo items cap s" and "waiting items j s"
  shows "j \<in> set (outstanding s)"
  using assms by (auto simp: waiting_def wq_inv_def wq_data_def outstanding_def split: option.splits)

lemma worker_step_runs: "worker_step qo w pc = Some (w', pc', js) \<Longrightarrow> length js \<le> 1"
  by (cases pc) (auto split: option.splits prod.splits)

lemma wq_step_logs:
  assumes "wq_step qo s s'" and "sys_wq s \<noteq> None"
  shows "\<exists>js new. sys_executed s' = sys_executed s @ js \<and> length js \<le> 1 \<and> sys_enqueued s' = sys_enqueued s @ new"
  using assms by (cases rule: wq_step.cases) (auto dest: worker_step_runs)

lemma queue_keeps:
  assumes "fifo_queue qo items cap" and "wq_inv qo items cap s" and "wq_step qo s s'" and "waiting items j s"
  shows "waiting items j s' \<or> sys_executed s' = sys_executed s @ [j] \<or> sys_wq s \<noteq> None \<and> sys_wq s' = None"
proof (cases "sys_wq s'")
  case None
  with assms(4) show ?thesis by (auto simp: waiting_def split: option.splits)
next
  case (Some w')
  from assms(4) obtain w where w: "sys_wq s = Some w" "j \<in> set (in_hand (sys_pc s) @ entries (items (wq_queue w)))"
    by (auto simp: waiting_def split: option.splits)
  with wq_step_logs [OF assms(3)] obtain js new where
    l: "sys_executed s' = sys_executed s @ js" "length js \<le> 1" "sys_enqueued s' = sys_enqueued s @ new" by blast
  have "js @ in_hand (sys_pc s') @ entries (items (wq_queue w')) = in_hand (sys_pc s) @ entries (items (wq_queue w)) @ new"
    using assms(1,2) wq_step_inv [OF assms(2,3)] w(1) Some l by (simp add: wq_inv_def wq_data_def)
  then have "j \<in> set (js @ in_hand (sys_pc s') @ entries (items (wq_queue w')))" using w(2) by auto
  with l Some show ?thesis by (cases js) (auto simp: waiting_def)
qed

text \<open>A running worker reaches every function in the queue, with no help from other tasks.\<close>

lemma worker_run_reaches:
  assumes "fifo_queue qo items cap" and "j \<in> set (in_hand pc @ entries (items (wq_queue w)))" and "pc_class pc = P_Run"
    and "wq_state w \<noteq> WQ_STOP_REQUESTED"
  shows "\<exists>n \<le> 2 * length (items (wq_queue w)) + 1. j \<in> set (snd (snd (worker_run qo n w pc)))"
  using assms(2-4)
proof (induction "length (items (wq_queue w))" arbitrary: w pc rule: less_induct)
  case less
  have recv: "\<exists>n \<le> 2 * length (items (wq_queue w)). j \<in> set (snd (snd (worker_run qo n w pc)))"
    if pc: "pc = W_Recv \<or> pc = W_Next" and j: "j \<in> set (entries (items (wq_queue w)))" for pc
  proof (cases "q_receive qo (wq_queue w)")
    case None
    with fifo_receive_None [OF assms(1) None] j show ?thesis by simp
  next
    case (Some r)
    then obtain e q' where r: "q_receive qo (wq_queue w) = Some (e, q')" by (cases r) simp
    have items: "items (wq_queue w) = e # items q'" by (rule conjunct1 [OF fifo_receive_Some [OF assms(1) r]])
    have "j \<in> set (in_hand (W_Run e) @ entries (items q'))" using j items by (auto simp: in_hand_def split: option.splits)
    with less.hyps [of "w\<lparr>wq_queue := q'\<rparr>" "W_Run e"] less.prems(3) items obtain n where
      n: "n \<le> 2 * length (items q') + 1" "j \<in> set (snd (snd (worker_run qo n (w\<lparr>wq_queue := q'\<rparr>) (W_Run e))))" by auto
    from pc r have "worker_step qo w pc = Some (w\<lparr>wq_queue := q'\<rparr>, W_Run e, [])" by auto
    with n items have "Suc n \<le> 2 * length (items (wq_queue w)) \<and> j \<in> set (snd (snd (worker_run qo (Suc n) w pc)))"
      by (simp split: prod.split)
    then show ?thesis by blast
  qed
  have suc: "\<exists>n \<le> 2 * length (items (wq_queue w)) + 1. j \<in> set (snd (snd (worker_run qo n w pc)))"
    if "worker_step qo w pc = Some (w, pc1, js)" "pc1 = W_Recv \<or> pc1 = W_Next" "j \<in> set (entries (items (wq_queue w)))" for pc1 js
  proof -
    from recv [OF that(2,3)] obtain n where "n \<le> 2 * length (items (wq_queue w))" "j \<in> set (snd (snd (worker_run qo n w pc1)))" by blast
    with that(1) have "Suc n \<le> 2 * length (items (wq_queue w)) + 1 \<and> j \<in> set (snd (snd (worker_run qo (Suc n) w pc)))"
      by (auto split: prod.split)
    then show ?thesis by blast
  qed
  show ?case
  proof (cases "j \<in> set (in_hand pc)")
    case True
    then have "pc = W_Run (Some j)" by (auto simp: in_hand_def split: worker_pc.splits option.splits)
    then have "1 \<le> 2 * length (items (wq_queue w)) + 1 \<and> j \<in> set (snd (snd (worker_run qo 1 w pc)))" by simp
    then show ?thesis by blast
  next
    case False
    with less.prems(1) have j: "j \<in> set (entries (items (wq_queue w)))" by simp
    show ?thesis
    proof (cases pc)
      case W_Loop
      with less.prems(3) suc [OF _ _ j] show ?thesis by simp
    next
      case (W_Run e)
      with suc [OF _ _ j] show ?thesis by simp
    next
      case W_Recv
      with recv [OF _ j, of pc] show ?thesis by (meson le_SucI Suc_eq_plus1 le_trans le_add1)
    next
      case W_Next
      with recv [OF _ j, of pc] show ?thesis by (meson le_SucI Suc_eq_plus1 le_trans le_add1)
    qed (use less.prems(2) in auto)
  qed
qed

subsection \<open>The invariant\<close>

definition round_inv ::
  "('q \<Rightarrow> 'j job option list) \<Rightarrow> ('q \<Rightarrow> nat) \<Rightarrow> tick_config \<Rightarrow> ('q, 'j job option) queue_ops \<Rightarrow> ('q, 'j, 'c, 'p) round_sys \<Rightarrow> bool" where
  "round_inv items cap cfg qo s \<longleftrightarrow> wq_inv qo items cap (rs_wq s) \<and>
     good cfg (rs_glue s) (rs_armed s) (waiting items Retry_Round (rs_wq s) \<or> rs_dropped s)"

lemma good_weaken: "good cfg g a r \<Longrightarrow> (r \<Longrightarrow> r') \<Longrightarrow> good cfg g a r'"
  by (auto simp: good_def retry_ok_def)

lemma good_operation:
  assumes "glue_step cfg \<lparr>gs_glue = g, gs_armed = a, gs_round = False\<rparr> \<lparr>gs_glue = g', gs_armed = a', gs_round = False\<rparr>" and "good cfg g a r"
  shows "good cfg g' a' r"
  using assms(1)
proof (cases rule: glue_step.cases)
  case (event env ev g1 outs)
  with good_event [of cfg env ev g g1 outs a r] assms(2) show ?thesis by (simp add: apply_outs_def)
next
  case (subscribe alloc env mid tick posted topic cb qos priv err g1 outs)
  with good_subscribe [of cfg alloc env mid tick posted topic cb qos priv g err g1 outs a r] assms(2) show ?thesis by (simp add: apply_outs_def)
next
  case (unsubscribe topic err g1 outs)
  with good_unsubscribe [of topic g err g1 outs cfg a r] assms(2) show ?thesis by (simp add: apply_outs_def)
next
  case (publish ret topic data want_id err g1 outs msg_id)
  with good_publish [of ret topic data want_id g err g1 outs msg_id cfg a r] assms(2) show ?thesis by (simp add: apply_outs_def)
qed simp_all

lemma timer_queued:
  assumes "fifo_queue qo items cap" and "wq_inv qo items cap w" and "sys_wq w = p"
    and "esp_rmaker_work_queue_add_task qo p (Some j) = (err, p')"
  shows "if err = ESP_OK
    then wq_step qo w (w\<lparr>sys_wq := p', sys_enqueued := sys_enqueued w @ [j]\<rparr>) \<and>
      waiting items j (w\<lparr>sys_wq := p', sys_enqueued := sys_enqueued w @ [j]\<rparr>)
    else p' = p"
proof (cases p)
  case None
  with assms(4) show ?thesis by (auto simp: esp_rmaker_work_queue_add_task_def add_task_internal_def)
next
  case (Some q)
  obtain sent q' where snd: "q_send qo (wq_queue q) (Some j) = (sent, q')" by (cases "q_send qo (wq_queue q) (Some j)")
  with Some assms(4) have r: "err = (if sent then ESP_OK else ESP_FAIL)" "p' = Some (q\<lparr>wq_queue := q'\<rparr>)"
    by (auto simp: esp_rmaker_work_queue_add_task_def add_task_internal_def)
  show ?thesis
  proof (cases sent)
    case True
    with send_data [OF assms(1) snd] r have "waiting items j (w\<lparr>sys_wq := p', sys_enqueued := sys_enqueued w @ [j]\<rparr>)"
      by (simp add: waiting_def)
    with wq_step.add [of qo w j p'] assms(3,4) True r(1) show ?thesis
      by (simp add: esp_rmaker_work_queue_add_task_def)
  next
    case False
    with fifo_send [OF assms(1) snd] snd assms(1) have "q' = wq_queue q"
      by (auto simp: fifo_queue_def)
    with False r Some show ?thesis by simp
  qed
qed

lemma round_inv_preserved:
  assumes f: "fifo_queue qo items cap" and i: "round_inv items cap cfg qo s" and s: "round_step cfg qo s s'"
  shows "round_inv items cap cfg qo s'"
  using s
proof (cases rule: round_step.cases)
  case (operation g' a')
  with good_operation [OF operation(2)] i show ?thesis by (simp add: round_inv_def)
next
  case (timer mid now alloc env tick posted err p' g' outs)
  let ?w = "rs_wq s" and ?work = "sub_retry_work cfg now alloc env mid tick posted True"
  obtain err0 p0 where add: "esp_rmaker_work_queue_add_task qo (sys_wq ?w) (Some Retry_Round) = (err0, p0)" by (rule prod.exhaust)
  with timer(5) have e: "err0 = err" "p0 = p'" by (auto simp: sub_retry_timer_cb_def split: if_splits)
  from i have w: "wq_inv qo items cap ?w" and g: "good cfg (rs_glue s) (rs_armed s) (waiting items Retry_Round ?w \<or> rs_dropped s)"
    by (simp_all add: round_inv_def)
  note q = timer_queued [OF f w refl add [unfolded e]]
  show ?thesis
  proof (cases "err = ESP_OK")
    case True
    with timer(5) add e have "g' = rs_glue s" "outs = []" by (auto simp: sub_retry_timer_cb_def)
    moreover have "good cfg (rs_glue s) a True" for a using g by (simp add: good_def retry_ok_def)
    ultimately show ?thesis using q True wq_step_inv [OF w] timer(1) by (simp add: round_inv_def)
  next
    case False
    with timer(5) add e have work: "?work (Some (rs_glue s)) = (Some g', outs)" by (simp add: sub_retry_timer_cb_def)
    from g have "delay_ok (rs_glue s)" by (simp add: good_def)
    from good_round [OF work this timer(3,4)] q False w timer(1) show ?thesis by (simp add: round_inv_def)
  qed
next
  case (queue w')
  from i have w: "wq_inv qo items cap (rs_wq s)" by (simp add: round_inv_def)
  have "waiting items Retry_Round w' \<or> rs_dropped s'" if "waiting items Retry_Round (rs_wq s) \<or> rs_dropped s"
    using that queue_keeps [OF f w queue(2), of Retry_Round] waiting_outstanding [OF f w, of Retry_Round] queue(1,3) by auto
  with i wq_step_inv [OF w queue(2)] queue(1) show ?thesis
    by (auto simp: round_inv_def elim: good_weaken)
next
  case (run_round w' mid now alloc env tick posted g' outs)
  from i have w: "wq_inv qo items cap (rs_wq s)" and d: "delay_ok (rs_glue s)" by (simp_all add: round_inv_def good_def)
  from good_round [OF run_round(6) d run_round(4,5)] wq_step_inv [OF w run_round(2)] run_round(1) show ?thesis
    by (simp add: round_inv_def)
qed

interpretation rounds: inductive_invariant "\<lambda>s. fifo_queue qo items cap \<and> round_start s" "round_step cfg qo"
    "\<lambda>s. fifo_queue qo items cap \<and> round_inv items cap cfg qo s" for qo items cap cfg
proof unfold_locales
  show "fifo_queue qo items cap \<and> round_inv items cap cfg qo s" if "fifo_queue qo items cap \<and> round_start s" for s
    using that by (auto simp: round_start_def round_inv_def wq_start_state_def wq_inv_def glue_start_def good_def delay_ok_def sub_consts
        retry_ok_def unacked_def)
  show "fifo_queue qo items cap \<and> round_inv items cap cfg qo s'"
    if "fifo_queue qo items cap \<and> round_inv items cap cfg qo s" "round_step cfg qo s s'" for s s'
    using that round_inv_preserved by blast
qed

lemma round_reach:
  "fifo_queue qo items cap \<Longrightarrow> reach round_start (round_step cfg qo) s \<Longrightarrow> round_inv items cap cfg qo s"
  using rounds.reachable [of qo items cap cfg s] by simp


text \<open>A subscription is sent, its timer expires before the queue is started, and the queue is taken down.\<close>

definition sample_rounds :: "client_pc \<Rightarrow> bool \<Rightarrow> (nat \<times> nat job option list, nat, nat, nat) round_sys" where
  "sample_rounds cl armed =
     \<lparr>rs_glue = gs_glue sample_sys, rs_armed = armed,
      rs_wq = (if armed then ex_sys WQ_INIT_DONE False [] W_None cl [] [] else ex_sys WQ_INIT_DONE False [Some Retry_Round] W_None cl [Retry_Round] []),
      rs_dropped = False\<rparr>"

lemma sample_rounds_reach: "reach round_start (round_step sample_cfg list_queue) (sample_rounds C_Deinit False)"
proof -
  let ?wq0 = "\<lparr>sys_wq = None, sys_pc = W_None, sys_client = C_Idle, sys_enqueued = [], sys_executed = []\<rparr>
    :: (nat \<times> nat job option list, nat job) wq_system"
  let ?s0 = "\<lparr>rs_glue = sample_glue [None, None], rs_armed = False, rs_wq = ?wq0, rs_dropped = False\<rparr>"
  let ?s1 = "\<lparr>rs_glue = gs_glue sample_sys, rs_armed = True, rs_wq = ?wq0, rs_dropped = False\<rparr>"
  have "round_start ?s0" by (simp add: round_start_def glue_start_def sample_glue_def sub_consts wq_start_state_def)
  then have "reach round_start (round_step sample_cfg list_queue) ?s0" by (rule reach.start)
  moreover have "round_step sample_cfg list_queue ?s0 ?s1"
    using round_step.operation [of sample_cfg ?s0 "gs_glue sample_sys" True list_queue] sample_step by (simp add: sample_sys_def)
  ultimately have "reach round_start (round_step sample_cfg list_queue) ?s1" by (rule reach.step)
  moreover have "round_step sample_cfg list_queue ?s1 (sample_rounds C_Idle True)"
  proof -
    have "wq_step list_queue ?wq0 (ex_sys WQ_INIT_DONE False [] W_None C_Idle [] [])" by (rule ex_init_step)
    from round_step.queue [of list_queue ?s1 _ sample_cfg, OF _ _] this show ?thesis by (force simp: sample_rounds_def ex_sys_def)
  qed
  ultimately have "reach round_start (round_step sample_cfg list_queue) (sample_rounds C_Idle True)" by (rule reach.step)
  moreover have "round_step sample_cfg list_queue (sample_rounds C_Idle True) (sample_rounds C_Idle False)"
  proof -
    have "sub_retry_timer_cb list_queue work (sys_wq (rs_wq (sample_rounds C_Idle True))) (Some (rs_glue (sample_rounds C_Idle True))) =
        (ESP_OK, Some (ex_wq WQ_INIT_DONE False [Some Retry_Round]), Some (gs_glue sample_sys), [])" for work
      by (simp add: sub_retry_timer_cb_def esp_rmaker_work_queue_add_task_def add_task_internal_def sample_rounds_def ex_defs)
    from round_step.timer [OF _ _ _ this, of "\<lambda>_ g. (g, [])"] show ?thesis
      by (simp add: sample_rounds_def sample_sys_def sample_glue_def mid_ok_def ex_sys_def)
  qed
  ultimately have "reach round_start (round_step sample_cfg list_queue) (sample_rounds C_Idle False)" by (rule reach.step)
  moreover have "round_step sample_cfg list_queue (sample_rounds C_Idle False) (sample_rounds C_Deinit False)"
  proof -
    let ?w = "rs_wq (sample_rounds C_Idle False)"
    have "wq_step list_queue ?w (?w\<lparr>sys_client := C_Deinit\<rparr>)"
      by (rule wq_step.deinit_wait [where w = "ex_wq WQ_INIT_DONE False [Some Retry_Round]"]) (simp_all add: sample_rounds_def ex_sys_def ex_wq_def)
    from round_step.queue [OF this, of sample_cfg] show ?thesis by (simp add: sample_rounds_def ex_sys_def)
  qed
  ultimately show ?thesis by (rule reach.step)
qed


end
