(* ===== verification/Mqtt_Sub.thy ===== *)
theory Mqtt_Sub
  imports Mqtt_Retry
begin

section \<open>Subscriptions: acknowledgement order, re-subscription, the table, long messages\<close>

text \<open>
  The functional properties of \<open>Mqtt_Glue\<close>: a SUBACK has the same effect whether it overtakes the recording of its
  message id or not; a re-subscription sends one SUBSCRIBE for each topic that needs one, at the highest QoS; what
  subscribe and unsubscribe do to the table; the reassembly of messages longer than the receive buffer.
\<close>

subsection \<open>Early acknowledgements\<close>

lemma park_slot_less: "slot < n \<Longrightarrow> (\<forall>i \<in> set is. i < n) \<Longrightarrow> park_slot now ttl es is slot < n"
  by (induction "is" arbitrary: slot) auto

lemma take_early_none: "\<forall>e \<in> set es. ea_msg_id e \<noteq> m \<Longrightarrow> take_early now ttl m es = (None, es)"
  by (induction es) auto

lemma take_early_parked:
  assumes "take_early now2 ttl m (es[slot := \<lparr>ea_msg_id = m, ea_rejected = rej, ea_tick = now\<rparr>]) = (r, es')"
    and "\<forall>e \<in> set es. ea_msg_id e \<noteq> m" and "slot < length es" and "now2 - now \<le> ttl"
  shows "r = Some rej"
  using assms
proof (induction es arbitrary: slot es')
  case (Cons e es)
  show ?case
  proof (cases slot)
    case 0
    with Cons.prems show ?thesis by simp
  next
    case (Suc k)
    with Cons.prems obtain es2 where "take_early now2 ttl m (es[k := \<lparr>ea_msg_id = m, ea_rejected = rej, ea_tick = now\<rparr>]) = (r, es2)"
      by (auto split: prod.splits)
    from Cons.IH [OF this] Cons.prems Suc show ?thesis by simp
  qed
qed simp

lemma map_subs_comp: "map_subs f (map_subs h g) = map_subs (f \<circ> h) g"
  by (simp add: map_subs_def option.map_comp comp_def)

lemma map_subs_cong: "(\<And>s. s \<in> set (entries (g_subs g)) \<Longrightarrow> f s = h s) \<Longrightarrow> map_subs f g = map_subs h g"
proof -
  assume eq: "\<And>s. s \<in> set (entries (g_subs g)) \<Longrightarrow> f s = h s"
  have "map (map_option f) (g_subs g) = map (map_option h) (g_subs g)"
  proof (rule map_cong [OF refl])
    fix x assume "x \<in> set (g_subs g)"
    with eq show "map_option f x = map_option h x" by (cases x) (auto simp: set_entries)
  qed
  then show ?thesis by (simp add: map_subs_def)
qed

lemma map_subs_id: "map_subs (\<lambda>s. s) g = g"
proof -
  have "map_option (\<lambda>s :: ('a, 'b) sub. s) = (\<lambda>x. x)"
    by (rule ext) (simp add: option.map_ident)
  then show ?thesis by (simp add: map_subs_def)
qed

lemma g_subs_map_subs: "g_subs (map_subs f g) = map (map_option f) (g_subs g)"
  by (simp add: map_subs_def)

lemma other_topic: "list_ex (\<lambda>s. sub_topic s = t) xs \<longleftrightarrow> t \<in> sub_topic ` set xs"
  by (induction xs) auto

lemma find_map_None: "find P xs = None \<longleftrightarrow> (\<forall>x \<in> set xs. \<not> P x)"
  by (induction xs) auto

text \<open>The entries after a subscribe of \<open>t\<close> with id \<open>m\<close> and its SUBACK.\<close>

definition acked_entry :: "string \<Rightarrow> u32 \<Rightarrow> int \<Rightarrow> bool \<Rightarrow> ('c, 'p) sub \<Rightarrow> ('c, 'p) sub" where
  "acked_entry t now m rej s =
     (if sub_topic s = t
      then s\<lparr>sub_msg_id := m, sub_state := (if rej then SUB_FAILED else SUB_ACKNOWLEDGED), sub_tick := now\<rparr>
      else s)"

lemma schedule_subs: "g_subs (fst (schedule_sub_retry cfg tick posted g)) = g_subs g"
  by (simp add: schedule_sub_retry_def Let_def)

lemma report_subs: "g_subs (fst (report_suback cfg tick posted t r g)) = g_subs g"
  using schedule_subs [of cfg tick posted g] by (cases "schedule_sub_retry cfg tick posted g") (simp add: report_suback_def)

lemma report_event: "(if r then Out_Event_Failed t else Out_Event_Subscribed t) \<in> set (snd (report_suback cfg tick posted t r g))"
  by (simp add: report_suback_def split: prod.split)

lemma suback_early:
  assumes "\<forall>s \<in> set (entries (g_subs g)). \<not> matches_msg m s"
  shows "suback_handler cfg ee m rej g = (park_early_ack cfg (ee_tick2 ee) m rej g, [])"
proof -
  have "find (matches_msg m) (entries (g_subs g)) = None"
    using assms by (simp add: find_map_None)
  moreover have "map_subs (\<lambda>s. if matches_msg m s then s\<lparr>sub_state := st\<rparr> else s) g = map_subs (\<lambda>s. s) g" for st
    by (rule map_subs_cong) (use assms in auto)
  moreover have "map_subs (\<lambda>s. s) g = g"
    by (rule map_subs_id)
  ultimately show ?thesis
    by (simp add: suback_handler_def settle_subs_def)
qed

lemma park_slot_valid: "es \<noteq> [] \<Longrightarrow> park_slot now ttl es [0..<length es] 0 < length es"
  by (rule park_slot_less) auto

lemma take_parked_ack:
  assumes "take_early_ack cfg now2 m (park_early_ack cfg now m rej g) = (r, g')"
    and "\<forall>e \<in> set (g_early g). ea_msg_id e \<noteq> m" and "g_early g \<noteq> []"
    and "now2 - now \<le> ms_to_ticks cfg SUB_EARLY_ACK_TTL_MS"
  shows "r = Some rej \<and> g_subs g' = g_subs g"
proof -
  let ?es = "(g_early g)[park_slot now (ms_to_ticks cfg SUB_EARLY_ACK_TTL_MS) (g_early g) [0..<length (g_early g)] 0
      := \<lparr>ea_msg_id = m, ea_rejected = rej, ea_tick = now\<rparr>]"
  obtain r2 es' where t: "take_early now2 (ms_to_ticks cfg SUB_EARLY_ACK_TTL_MS) m ?es = (r2, es')" by fastforce
  from take_early_parked [OF t assms(2) park_slot_valid [OF assms(3)] assms(4)] t assms(1) show ?thesis
    by (auto simp: take_early_ack_def park_early_ack_def Let_def)
qed

lemma take_early_subs: "take_early_ack cfg now m g = (r, g') \<Longrightarrow> g_subs g' = g_subs g"
  by (auto simp: take_early_ack_def split: prod.splits)

lemma g_subs_reserve:
  "g_subs (send_reserve now t g) =
     map (map_option (\<lambda>s. if sub_topic s = t then s\<lparr>sub_msg_id := -1, sub_state := SUB_REQUESTED, sub_tick := now\<rparr> else s)) (g_subs g)"
  by (simp add: send_reserve_def map_subs_def)

text \<open>The send when the SUBACK comes before the message id is recorded.\<close>

lemma send_suback_first:
  assumes "send_subscribe cfg env (suback_handler cfg ee m rej) t q g = (g', outs)"
    and "g_connected g" and "se_ret env = m" and "0 < m" and "g_early g \<noteq> []" and "\<forall>e \<in> set (g_early g). ea_msg_id e \<noteq> m"
    and "se_tick2 env - ee_tick2 ee \<le> ms_to_ticks cfg SUB_EARLY_ACK_TTL_MS"
    and "\<forall>s \<in> set (entries (g_subs g)). sub_topic s \<noteq> t \<longrightarrow> \<not> matches_msg m s"
  shows "g_subs g' = g_subs (map_subs (acked_entry t (se_tick env) m rej) g) \<and>
    (if rej then Out_Event_Failed t else Out_Event_Subscribed t) \<in> set outs"
proof -
  let ?g1 = "send_reserve (se_tick env) t g"
  have "\<not> matches_msg m s" if "s \<in> set (entries (g_subs ?g1))" for s
    using that assms(4,8) by (auto simp: g_subs_reserve slot_simps matches_msg_def)
  then have mid: "suback_handler cfg ee m rej ?g1 = (park_early_ack cfg (ee_tick2 ee) m rej ?g1, [])"
    by (intro suback_early) blast
  obtain r g2 where take: "take_early_ack cfg (se_tick2 env) m (park_early_ack cfg (ee_tick2 ee) m rej ?g1) = (r, g2)"
    by fastforce
  have r: "r = Some rej" and g2: "g_subs g2 = g_subs ?g1"
    using take_parked_ack [OF take _ _ assms(7)] assms(5,6) by (simp_all add: send_reserve_def map_subs_def)
  define f where "f s = (if sub_topic s \<noteq> t \<or> sub_state s \<noteq> SUB_REQUESTED \<or> sub_msg_id s \<noteq> -1 then s
      else s\<lparr>sub_msg_id := m, sub_state := (if rej then SUB_FAILED else SUB_ACKNOWLEDGED)\<rparr>)" for s :: "('a, 'b) sub"
  have rec: "send_record cfg (se_tick2 env) t m (park_early_ack cfg (ee_tick2 ee) m rej ?g1) = (Some rej, map_subs f g2)"
    using take r assms(4) by (simp add: send_record_def f_def [abs_def] cong: if_cong)
  obtain g4 outs4 where rep: "report_suback cfg (se_sched_tick env) (se_posted env) t rej (map_subs f g2) = (g4, outs4)" by fastforce
  have "send_subscribe cfg env (suback_handler cfg ee m rej) t q g = (g4, Out_Subscribe t q # outs4)"
    using assms(2-4) mid rec rep by (simp add: send_subscribe_def Let_def)
  moreover have "g_subs g4 = map (map_option (acked_entry t (se_tick env) m rej)) (g_subs g)"
    using report_subs [of cfg "se_sched_tick env" "se_posted env" t rej "map_subs f g2"] rep
    by (auto simp: g_subs_map_subs g2 g_subs_reserve option.map_comp f_def acked_entry_def fun_eq_iff
        intro!: option.map_cong0)
  moreover have "(if rej then Out_Event_Failed t else Out_Event_Subscribed t) \<in> set outs4"
    using report_event [of rej t cfg "se_sched_tick env" "se_posted env" "map_subs f g2"] rep by simp
  ultimately show ?thesis using assms(1) by (auto simp: g_subs_map_subs)
qed

text \<open>The send with no SUBACK before its end, and the SUBACK afterwards.\<close>

lemma find_topic:
  assumes "\<exists>s \<in> set xs. P (f s)" and "\<And>s. s \<in> set xs \<Longrightarrow> P (f s) \<Longrightarrow> sub_topic (f s) = t"
  shows "map_option sub_topic (find P (map f xs)) = Some t"
  using assms by (induction xs) auto

lemma send_suback_after:
  assumes "send_subscribe cfg env (\<lambda>g. (g, [])) t q g = (g1, outs1)" and "suback_handler cfg ee m rej g1 = (g', outs)"
    and "g_connected g" and "se_ret env = m" and "0 < m" and "\<forall>e \<in> set (g_early g). ea_msg_id e \<noteq> m" and "ee_dup ee"
    and "\<forall>s \<in> set (entries (g_subs g)). sub_topic s \<noteq> t \<longrightarrow> \<not> matches_msg m s"
    and "\<exists>s \<in> set (entries (g_subs g)). sub_topic s = t"
  shows "g_subs g' = g_subs (map_subs (acked_entry t (se_tick env) m rej) g) \<and>
    (if rej then Out_Event_Failed t else Out_Event_Subscribed t) \<in> set outs"
proof -
  let ?g1 = "send_reserve (se_tick env) t g"
  have take: "take_early_ack cfg (se_tick2 env) m ?g1 = (None, ?g1)"
    using take_early_none [of "g_early ?g1" m] assms(6) by (simp add: take_early_ack_def send_reserve_def map_subs_def)
  define f where "f s = (if sub_topic s \<noteq> t \<or> sub_state s \<noteq> SUB_REQUESTED \<or> sub_msg_id s \<noteq> -1 then s
      else s\<lparr>sub_msg_id := m\<rparr>)" for s :: "('a, 'b) sub"
  have "g1 = map_subs f ?g1"
    using assms(1,3-5) take by (auto simp: send_subscribe_def send_record_def Let_def f_def [abs_def] cong: if_cong)
  then have g1: "g_subs g1 = map (map_option (\<lambda>s. if sub_topic s = t
      then s\<lparr>sub_msg_id := m, sub_state := SUB_REQUESTED, sub_tick := se_tick env\<rparr> else s)) (g_subs g)"
    by (auto simp: g_subs_map_subs g_subs_reserve option.map_comp f_def intro!: option.map_cong0)
  have "map_option sub_topic (find (matches_msg m) (entries (g_subs g1))) = Some t"
    unfolding g1 entries_map
    by (rule find_topic) (use assms(8,9) in \<open>auto simp: matches_msg_def split: if_splits\<close>)
  then obtain g2 where st: "settle_subs (ee_dup ee) m (if rej then SUB_FAILED else SUB_ACKNOWLEDGED) g1 = (Some t, g2)"
      "g2 = map_subs (\<lambda>s. if matches_msg m s then s\<lparr>sub_state := (if rej then SUB_FAILED else SUB_ACKNOWLEDGED)\<rparr> else s) g1"
    using assms(7) by (simp add: settle_subs_def)
  obtain g3 outs3 where rep: "report_suback cfg (ee_tick2 ee) (ee_posted2 ee) t rej g2 = (g3, outs3)" by fastforce
  have eq: "suback_handler cfg ee m rej g1 = (g3, outs3)"
    using st(1) rep by (simp add: suback_handler_def)
  have "g_subs g2 = map (map_option (acked_entry t (se_tick env) m rej)) (g_subs g)"
    unfolding st(2) g_subs_map_subs g1 map_map
  proof (rule map_cong [OF refl])
    fix x assume "x \<in> set (g_subs g)"
    with assms(8) show "(map_option (\<lambda>s. if matches_msg m s then s\<lparr>sub_state := (if rej then SUB_FAILED else SUB_ACKNOWLEDGED)\<rparr> else s)
        \<circ> map_option (\<lambda>s. if sub_topic s = t then s\<lparr>sub_msg_id := m, sub_state := SUB_REQUESTED, sub_tick := se_tick env\<rparr> else s)) x
      = map_option (acked_entry t (se_tick env) m rej) x"
      by (cases x) (auto simp: acked_entry_def matches_msg_def set_entries)
  qed
  moreover have "g_subs g3 = g_subs g2"
    using report_subs [of cfg "ee_tick2 ee" "ee_posted2 ee" t rej g2] rep by simp
  moreover have "(if rej then Out_Event_Failed t else Out_Event_Subscribed t) \<in> set outs3"
    using report_event [of rej t cfg "ee_tick2 ee" "ee_posted2 ee" g2] rep by simp
  ultimately show ?thesis using assms(2) eq by (simp add: g_subs_map_subs)
qed

text \<open>
  C6. The order of a SUBACK and the recording of its message id does not matter. Whether the SUBACK of a fresh id is
  handled by the MQTT task before the sending task has stored the id (and is parked) or after the send has returned,
  the table ends the same: every entry of the topic has the id and the state the broker gave, all other entries are
  untouched, and the result is reported once in either case. The parked result must be taken within its time to
  live.
\<close>

theorem suback_order_irrelevant:
  assumes "g_connected g" and "se_ret env = m" and "0 < m" and "g_early g \<noteq> []" and "\<forall>e \<in> set (g_early g). ea_msg_id e \<noteq> m"
    and "se_tick2 env - ee_tick2 ee \<le> ms_to_ticks cfg 5000" and "ee_dup ee"
    and "\<forall>s \<in> set (entries (g_subs g)). sub_topic s \<noteq> t \<longrightarrow> \<not> matches_msg m s"
    and "\<exists>s \<in> set (entries (g_subs g)). sub_topic s = t"
    and "send_subscribe cfg env (suback_handler cfg ee m rej) t q g = (ga, outsa)"
    and "send_subscribe cfg env (\<lambda>g. (g, [])) t q g = (g1, outs1)" and "suback_handler cfg ee m rej g1 = (gb, outsb)"
  shows "g_subs ga = g_subs gb \<and>
    entries (g_subs gb) = map (\<lambda>s. if sub_topic s = t
      then s\<lparr>sub_msg_id := m, sub_state := (if rej then SUB_FAILED else SUB_ACKNOWLEDGED), sub_tick := se_tick env\<rparr> else s)
      (entries (g_subs g)) \<and>
    (if rej then Out_Event_Failed t else Out_Event_Subscribed t) \<in> set outsa \<and>
    (if rej then Out_Event_Failed t else Out_Event_Subscribed t) \<in> set outsb"
proof -
  have "se_tick2 env - ee_tick2 ee \<le> ms_to_ticks cfg SUB_EARLY_ACK_TTL_MS"
    using assms(6) by (simp add: sub_consts)
  from send_suback_first [OF assms(10,1-5) this assms(8)] send_suback_after [OF assms(11,12,1-3,5,7-9)]
  show ?thesis by (auto simp: g_subs_map_subs entries_map acked_entry_def)
qed

definition sample_ee :: "(nat, nat) event_env" where
  "sample_ee = \<lparr>ee_tick = 0, ee_posted = True, ee_tick2 = 0, ee_posted2 = True, ee_dup = True, ee_alloc = (\<lambda>_. True),
     ee_send = (\<lambda>_. sample_env 9), ee_mid = (\<lambda>_ g. (g, []))\<rparr>"

definition sample_two :: "(nat, nat) glue" where
  "sample_two = sample_glue [Some (sample_sub ''t'' 1 SUB_NONE 0 1), None, Some (sample_sub ''u'' 1 SUB_ACKNOWLEDGED 3 0)]"

theorem suback_order_irrelevant_witness:
  "map sub_state (entries (g_subs (fst (send_subscribe sample_cfg (sample_env 9) (suback_handler sample_cfg sample_ee 9 True)
      ''t'' 1 sample_two)))) = [SUB_FAILED, SUB_ACKNOWLEDGED]"
proof -
  obtain ga outsa where a: "send_subscribe sample_cfg (sample_env 9) (suback_handler sample_cfg sample_ee 9 True) ''t'' 1 sample_two
      = (ga, outsa)" by fastforce
  obtain g1 outs1 where b: "send_subscribe sample_cfg (sample_env 9) (\<lambda>g. (g, [])) ''t'' 1 sample_two = (g1, outs1)" by fastforce
  obtain gb outsb where c: "suback_handler sample_cfg sample_ee 9 True g1 = (gb, outsb)" by fastforce
  from suback_order_irrelevant [OF _ _ _ _ _ _ _ _ _ a b c] a show ?thesis
    by (simp add: sample_two_def sample_glue_def sample_sub_def sample_env_def sample_ee_def matches_msg_def)
qed

subsection \<open>Re-subscription\<close>

text \<open>The SUBSCRIBE messages among the outputs.\<close>

fun sent_subs :: "glue_out list \<Rightarrow> (string \<times> nat) list" where
  "sent_subs [] = []"
| "sent_subs (Out_Subscribe t q # outs) = (t, q) # sent_subs outs"
| "sent_subs (out # outs) = sent_subs outs"

lemma sent_subs_append: "sent_subs (xs @ ys) = sent_subs xs @ sent_subs ys"
  by (induction xs rule: sent_subs.induct) auto

lemma sent_schedule: "schedule_sub_retry cfg tick posted g = (g', outs) \<Longrightarrow> sent_subs outs = []"
  by (auto simp: schedule_sub_retry_def Let_def split: if_splits)

lemma sent_report: "report_suback cfg tick posted t r g = (g', outs) \<Longrightarrow> sent_subs outs = []"
  by (auto simp: report_suback_def split: prod.splits dest: sent_schedule)

lemma connected_schedule: "schedule_sub_retry cfg tick posted g = (g', outs) \<Longrightarrow> g_connected g' = g_connected g"
  by (auto simp: schedule_sub_retry_def Let_def split: if_splits)

lemma connected_report: "report_suback cfg tick posted t r g = (g', outs) \<Longrightarrow> g_connected g' = g_connected g"
  by (auto simp: report_suback_def split: prod.splits dest: connected_schedule)

lemma sent_send:
  assumes "send_subscribe cfg env (\<lambda>g. (g, [])) t q g = (g', outs)" and "g_connected g"
  shows "sent_subs outs = [(t, q)] \<and> g_connected g'"
proof -
  obtain early g3 where rec: "send_record cfg (se_tick2 env) t (se_ret env) (send_reserve (se_tick env) t g) = (early, g3)"
    by fastforce
  have 3: "g_connected g3" using delay_record [OF rec] assms(2) by simp
  show ?thesis
    using assms rec 3
    by (cases early) (auto simp: send_subscribe_def Let_def split: if_splits prod.splits dest: sent_report connected_report)
qed

lemma sent_resend:
  "resend_all cfg env (\<lambda>_ g. (g, [])) i ps g = (g', outs, r) \<Longrightarrow> g_connected g
    \<Longrightarrow> sent_subs outs = map (\<lambda>p. (ps_topic p, ps_qos p)) ps"
proof (induction ps arbitrary: i g outs r)
  case (Cons p ps)
  obtain g2 outs2 where send: "send_subscribe cfg (env i) (\<lambda>g. (g, [])) (ps_topic p) (ps_qos p) g = (g2, outs2)" by fastforce
  obtain g3 outs3 r3 where rest: "resend_all cfg env (\<lambda>_ g. (g, [])) (Suc i) ps g2 = (g3, outs3, r3)" by (metis prod_cases3)
  from sent_send [OF send Cons.prems(2)] Cons.IH [of "Suc i" g2 outs3 r3] rest Cons.prems(1) send show ?case
    by (auto simp: Let_def sent_subs_append split: prod.splits)
qed simp

text \<open>The pending list as a map from topics to QoS.\<close>

definition ps_map :: "pending_sub list \<Rightarrow> string \<Rightarrow> nat option" where
  "ps_map ps = map_of (map (\<lambda>p. (ps_topic p, ps_qos p)) ps)"

lemma ps_map_snoc:
  "ps_topic p \<notin> ps_topic ` set ps \<Longrightarrow> ps_map (ps @ [p]) = (ps_map ps)(ps_topic p \<mapsto> ps_qos p)"
  by (induction ps) (auto simp: ps_map_def fun_eq_iff)

lemma ps_map_None: "ps_map ps t = None \<longleftrightarrow> t \<notin> ps_topic ` set ps"
  by (induction ps) (auto simp: ps_map_def)

lemma raise_qos_None: "raise_qos t q ps = None \<longleftrightarrow> t \<notin> ps_topic ` set ps"
  by (induction ps) auto

lemma raise_qos_Some:
  "raise_qos t q ps = Some ps' \<Longrightarrow> map ps_topic ps' = map ps_topic ps \<and>
     ps_map ps' = (ps_map ps)(t \<mapsto> max (the (ps_map ps t)) q)"
  by (induction ps arbitrary: ps') (auto simp: ps_map_def fun_eq_iff split: if_splits)

definition merge_qos :: "nat option \<Rightarrow> nat \<Rightarrow> nat option" where
  "merge_qos m q = Some (case m of None \<Rightarrow> q | Some q' \<Rightarrow> max q' q)"

lemma collect_map:
  assumes "collect_pending cfg now (\<lambda>_. True) ss ps = ps'" and "distinct (map ps_topic ps)"
  shows "distinct (map ps_topic ps') \<and>
    ps_map ps' t = foldl merge_qos (ps_map ps t) (map sub_qos (filter (\<lambda>s. sub_needs_send cfg now s \<and> sub_topic s = t) (entries ss)))"
  using assms
proof (induction ss arbitrary: ps)
  case (Cons x ss)
  show ?case
  proof (cases x)
    case None
    with Cons show ?thesis by simp
  next
    case (Some s)
    show ?thesis
    proof (cases "sub_needs_send cfg now s")
      case False
      with Some Cons show ?thesis by simp
    next
      case True
      show ?thesis
      proof (cases "raise_qos (sub_topic s) (sub_qos s) ps")
        case None
        let ?ps = "ps @ [\<lparr>ps_topic = sub_topic s, ps_qos = sub_qos s, ps_no_suback = (sub_state s = SUB_REQUESTED)\<rparr>]"
        have new: "sub_topic s \<notin> ps_topic ` set ps" using None by (simp add: raise_qos_None)
        then have "ps_map ?ps t = (if t = sub_topic s then merge_qos (ps_map ps t) (sub_qos s) else ps_map ps t)"
          using ps_map_None [of ps "sub_topic s"] by (auto simp: ps_map_snoc merge_qos_def)
        with Cons.IH [of ?ps] Cons.prems True Some None new show ?thesis by auto
      next
        case (Some ps2)
        note r = raise_qos_Some [OF Some]
        have "sub_topic s \<in> ps_topic ` set ps" using Some raise_qos_None [of "sub_topic s" "sub_qos s" ps] by auto
        then have "ps_map ps (sub_topic s) \<noteq> None"
          by (simp add: ps_map_None)
        with r have "ps_map ps2 t = (if t = sub_topic s then merge_qos (ps_map ps t) (sub_qos s) else ps_map ps t)"
          by (auto simp: merge_qos_def)
        with Cons.IH [of ps2] Cons.prems True \<open>x = Some s\<close> Some r show ?thesis by auto
      qed
    qed
  qed
qed auto

lemma foldl_merge_Some: "foldl merge_qos (Some q) qs = Some (Max (set (q # qs)))"
proof (induction qs arbitrary: q)
  case (Cons x qs)
  have "Max (insert (max q x) (set qs)) = Max (insert q (insert x (set qs)))"
    by (cases "qs = []") (simp_all add: max.assoc)
  with Cons show ?case by (simp add: merge_qos_def)
qed simp

lemma foldl_merge_None: "foldl merge_qos None qs = Some q \<longleftrightarrow> qs \<noteq> [] \<and> q = Max (set qs)"
  by (cases qs) (auto simp: foldl_merge_Some merge_qos_def simp del: Max_insert)

lemma ps_map_set: "distinct (map ps_topic ps) \<Longrightarrow>
    (t, q) \<in> set (map (\<lambda>p. (ps_topic p, ps_qos p)) ps) \<longleftrightarrow> ps_map ps t = Some q"
  by (simp add: ps_map_def comp_def)

lemma resubscribe_sent:
  assumes "g_connected g" and "resubscribe_pending cfg now (\<lambda>_. True) env (\<lambda>_ g. (g, [])) g = (g', outs, resent)"
  shows "distinct (map fst (sent_subs outs)) \<and>
    ((t, q) \<in> set (sent_subs outs) \<longleftrightarrow>
      (\<exists>s \<in> set (entries (g_subs g)). sub_needs_send cfg now s \<and> sub_topic s = t) \<and>
      q = Max (sub_qos ` {s \<in> set (entries (g_subs g)). sub_needs_send cfg now s \<and> sub_topic s = t}))"
proof -
  define ps where "ps = collect_pending cfg now (\<lambda>_. True) (g_subs g) []"
  let ?need = "filter (\<lambda>s. sub_needs_send cfg now s \<and> sub_topic s = t) (entries (g_subs g))"
  have sent: "sent_subs outs = map (\<lambda>p. (ps_topic p, ps_qos p)) ps"
    using sent_resend [OF assms(2) [unfolded resubscribe_pending_def] assms(1)] by (simp add: ps_def)
  from collect_map [OF ps_def [symmetric], of t] have d: "distinct (map ps_topic ps)"
    and m: "ps_map ps t = foldl merge_qos None (map sub_qos ?need)"
    by (simp_all add: ps_map_def)
  have "set (map sub_qos ?need) = sub_qos ` {s \<in> set (entries (g_subs g)). sub_needs_send cfg now s \<and> sub_topic s = t}"
    by simp
  with ps_map_set [OF d, of t q] m d show ?thesis
    by (auto simp: sent comp_def foldl_merge_None filter_empty_conv)
qed

lemma resubscribe_topics:
  assumes "g_connected g" and "resubscribe_pending cfg now (\<lambda>_. True) env (\<lambda>_ g. (g, [])) g = (g', outs, resent)"
  shows "distinct (map fst (sent_subs outs)) \<and>
    set (map fst (sent_subs outs)) = sub_topic ` {s \<in> set (entries (g_subs g)). sub_needs_send cfg now s}"
proof -
  have "t \<in> set (map fst (sent_subs outs)) \<longleftrightarrow> t \<in> sub_topic ` {s \<in> set (entries (g_subs g)). sub_needs_send cfg now s}" for t
  proof -
    have "t \<in> set (map fst (sent_subs outs)) \<longleftrightarrow> (\<exists>q. (t, q) \<in> set (sent_subs outs))" by force
    also have "\<dots> \<longleftrightarrow> (\<exists>s \<in> set (entries (g_subs g)). sub_needs_send cfg now s \<and> sub_topic s = t)"
      using resubscribe_sent [OF assms, of t] by blast
    finally show ?thesis by auto
  qed
  with resubscribe_sent [OF assms] show ?thesis by blast
qed

text \<open>
  C17. Re-subscription sends exactly one SUBSCRIBE for every topic that has an entry needing one, at the
  highest QoS among those entries, and none for any other topic. (Connected, and every topic copy succeeds.)
\<close>

theorem resubscribe_one_per_topic:
  assumes "g_connected g" and "resubscribe_pending cfg now (\<lambda>_. True) env (\<lambda>_ g. (g, [])) g = (g', outs, resent)"
  shows "distinct (map fst (sent_subs outs)) \<and>
    ((t, q) \<in> set (sent_subs outs) \<longleftrightarrow>
      (\<exists>s \<in> set (entries (g_subs g)). sub_needs_send cfg now s \<and> sub_topic s = t) \<and>
      q = Max (sub_qos ` {s \<in> set (entries (g_subs g)). sub_needs_send cfg now s \<and> sub_topic s = t}))"
  by (rule resubscribe_sent [OF assms])

definition sample_three :: "(nat, nat) glue" where
  "sample_three = sample_glue [Some (sample_sub ''t'' 1 SUB_NONE 0 0), Some (sample_sub ''u'' 1 SUB_ACKNOWLEDGED 3 0),
     Some (sample_sub ''t'' 2 SUB_FAILED 4 1)]"

theorem resubscribe_one_per_topic_witness:
  "(case resubscribe_pending sample_cfg 0 (\<lambda>_. True) (\<lambda>_. sample_env 9) (\<lambda>_ g. (g, [])) sample_three of
      (_, outs, _) \<Rightarrow> (''t'', 1) \<in> set (sent_subs outs) \<and> (''u'', 0) \<notin> set (sent_subs outs))"
proof -
  obtain g' outs resent where
    r: "resubscribe_pending sample_cfg 0 (\<lambda>_. True) (\<lambda>_. sample_env 9) (\<lambda>_ g. (g, [])) sample_three = (g', outs, resent)"
    by (metis prod_cases3)
  have e: "entries (g_subs sample_three) =
      [sample_sub ''t'' 1 SUB_NONE 0 0, sample_sub ''u'' 1 SUB_ACKNOWLEDGED 3 0, sample_sub ''t'' 2 SUB_FAILED 4 1]"
    by (simp add: sample_three_def sample_glue_def)
  have "{s \<in> set (entries (g_subs sample_three)). sub_needs_send sample_cfg 0 s \<and> sub_topic s = ''t''} =
      {sample_sub ''t'' 1 SUB_NONE 0 0, sample_sub ''t'' 2 SUB_FAILED 4 1}"
    by (auto simp: e sample_sub_def sub_needs_send_def)
  then have "Max (sub_qos ` {s \<in> set (entries (g_subs sample_three)). sub_needs_send sample_cfg 0 s \<and> sub_topic s = ''t''}) = 1"
    by (simp add: sample_sub_def)
  moreover have "g_connected sample_three" by (simp add: sample_three_def sample_glue_def)
  ultimately show ?thesis
    using resubscribe_one_per_topic [OF _ r, of "''t''" 1] resubscribe_one_per_topic [OF _ r, of "''u''" 0] r
    by (simp add: e) (simp add: sample_sub_def sub_needs_send_def)
qed

subsection \<open>The table\<close>

text \<open>
  Adding a second callback to an acknowledged topic sends nothing, whatever QoS it asks for: the call returns
  \<open>ESP_OK\<close> with the new entry acknowledged at the requested QoS, although the broker was never asked for it.
\<close>

theorem subscribe_shared_topic_sends_nothing:
  assumes "\<not> g_deleting g" and "s \<in> set (entries (g_subs g))" and "sub_topic s = t" and "sub_state s = SUB_ACKNOWLEDGED"
    and "\<forall>s \<in> set (entries (g_subs g)). \<not> (sub_topic s = t \<and> sub_cb s = cb)" and "None \<in> set (g_subs g)"
    and "esp_mqtt_glue_subscribe cfg True env mid tick posted True (Some t) (Some cb) qos priv (Some g) = (err, d, outs)"
  shows "err = ESP_OK \<and> outs = [] \<and>
    (\<exists>g' s'. d = Some g' \<and> s' \<in> set (entries (g_subs g')) \<and> sub_topic s' = t \<and> sub_cb s' = cb \<and> sub_qos s' = qos \<and>
      sub_state s' = SUB_ACKNOWLEDGED)"
proof -
  obtain ex act vac where sc: "scan_subs t cb 0 (g_subs g) (None, False, None) = (ex, act, vac)" by (metis prod_cases3)
  have "ex = None" "act" "vac \<noteq> None"
    using scan_subs_found [of t cb 0 "g_subs g" "(None, False, None)"] sc assms(2-6) by auto
  moreover from this obtain i where i: "vac = Some i" by auto
  moreover have "i < length (g_subs g)"
    using scan_start [of t cb "g_subs g"] sc i by (simp add: scan_valid_def)
  ultimately show ?thesis
    using assms(1,7) sc
    by (auto simp: esp_mqtt_glue_subscribe_def begin_op_Some glue_end_op_def subscribe_update_def set_entries
        intro!: exI [of _ "\<lparr>sub_topic = t, sub_cb = cb, sub_priv = priv, sub_state = SUB_ACKNOWLEDGED, sub_msg_id = 0,
          sub_qos = qos, sub_tick = 0\<rparr>"] set_update_memI)
qed

theorem subscribe_shared_topic_sends_nothing_witness:
  "(case esp_mqtt_glue_subscribe sample_cfg True (sample_env 9) (\<lambda>g. (g, [])) 0 True True (Some ''u'') (Some 5) 1 0 (Some sample_two) of
      (err, _, outs) \<Rightarrow> err = ESP_OK \<and> outs = [])"
proof -
  obtain err d outs where r: "esp_mqtt_glue_subscribe sample_cfg True (sample_env 9) (\<lambda>g. (g, [])) 0 True True (Some ''u'') (Some 5)
      1 0 (Some sample_two) = (err, d, outs)" by (metis prod_cases3)
  have "err = ESP_OK \<and> outs = []"
    using subscribe_shared_topic_sends_nothing [OF _ _ _ _ _ _ r, of "sample_sub ''u'' 1 SUB_ACKNOWLEDGED 3 0"]
    by (simp add: sample_two_def sample_glue_def sample_sub_def)
  with r show ?thesis by simp
qed

text \<open>
  Unsubscribing removes the first entry whose topic starts with the given topic: \<open>ESP_OK\<close> means one such entry
  left the table, \<open>ESP_FAIL\<close> that there is none and nothing changed; UNSUBSCRIBE is sent, with the topic of the removed
  entry, exactly when connected and no other entry has that topic.
\<close>

theorem unsubscribe_removes_first_prefix:
  assumes "\<not> g_deleting g"
    and "esp_mqtt_glue_unsubscribe True (Some t) (Some g) = (err, d, outs)"
  shows "(if \<exists>s \<in> set (entries (g_subs g)). take (length t) (sub_topic s) = t
     then err = ESP_OK \<and> (\<exists>as s bs g'. entries (g_subs g) = as @ s # bs \<and> (\<forall>a \<in> set as. take (length t) (sub_topic a) \<noteq> t) \<and>
       take (length t) (sub_topic s) = t \<and> d = Some g' \<and> entries (g_subs g') = as @ bs \<and>
       outs = (if g_connected g \<and> sub_topic s \<notin> sub_topic ` set (as @ bs) then [Out_Unsubscribe (sub_topic s)] else []))
     else err = ESP_FAIL \<and> d = Some (g\<lparr>g_busy := g_busy g + 1 - 1\<rparr>) \<and> outs = [])"
proof -
  let ?P = "\<lambda>s. take (length t) (sub_topic s) = t"
  show ?thesis
  proof (cases "find_slot ?P (g_subs g)")
    case None
    with assms find_slot_None [of ?P "g_subs g"] show ?thesis
      by (auto simp: esp_mqtt_glue_unsubscribe_def begin_op_Some glue_end_op_def)
  next
    case (Some i)
    from find_slot_SomeD [OF Some] obtain s where i: "i < length (g_subs g)" "g_subs g ! i = Some s" "?P s" by auto
    define as bs where "as = entries (take i (g_subs g))" and "bs = entries (drop (Suc i) (g_subs g))"
    have e: "entries (g_subs g) = as @ s # bs"
      using arg_cong [OF slots_split [OF i(1)], of entries] i(2) by (simp add: slot_simps as_def bs_def)
    have e': "entries ((g_subs g)[i := None]) = as @ bs"
      using i(1) by (simp add: upd_conv_take_nth_drop slot_simps as_def bs_def)
    have as: "\<forall>a \<in> set as. \<not> ?P a"
      using find_slot_first [OF Some] by (simp add: as_def)
    have ex: "\<exists>s \<in> set (entries (g_subs g)). ?P s" using i(3) e by auto
    define g' where "g' = g\<lparr>g_subs := (g_subs g)[i := None], g_busy := g_busy g + 1 - 1\<rparr>"
    define send where "send \<longleftrightarrow> g_connected g \<and> sub_topic s \<notin> sub_topic ` set (as @ bs)"
    have "detach i (g\<lparr>g_busy := g_busy g + 1\<rparr>) = (Some s, send, g\<lparr>g_subs := (g_subs g)[i := None], g_busy := g_busy g + 1\<rparr>)"
      using i(2) by (simp add: detach_def Let_def e' send_def other_topic del: list_ex_append)
    then have "err = ESP_OK" "d = Some g'" "outs = (if send then [Out_Unsubscribe (sub_topic s)] else [])"
      using assms Some by (auto simp: esp_mqtt_glue_unsubscribe_def begin_op_Some glue_end_op_def release_outs_def g'_def)
    moreover have "entries (g_subs g') = as @ bs" by (simp add: g'_def e')
    ultimately have "err = ESP_OK \<and> (\<exists>as s bs g'. entries (g_subs g) = as @ s # bs \<and> (\<forall>a \<in> set as. \<not> ?P a) \<and> ?P s \<and> d = Some g' \<and>
        entries (g_subs g') = as @ bs \<and>
        outs = (if g_connected g \<and> sub_topic s \<notin> sub_topic ` set (as @ bs) then [Out_Unsubscribe (sub_topic s)] else []))"
      using e as i(3) unfolding send_def by blast
    with ex show ?thesis by simp
  qed
qed

theorem unsubscribe_removes_first_prefix_witness:
  "fst (esp_mqtt_glue_unsubscribe True (Some ''t'') (Some sample_two)) = ESP_OK"
proof -
  obtain err d outs where r: "esp_mqtt_glue_unsubscribe True (Some ''t'') (Some sample_two) = (err, d, outs)" by (metis prod_cases3)
  from unsubscribe_removes_first_prefix [OF _ r] r show ?thesis
    by (simp add: sample_two_def sample_glue_def sample_sub_def split: if_splits)
qed

text \<open>
  Unsubscribing a topic can remove the subscription of another one: with \<open>node/1/params/remote\<close> subscribed before
  \<open>node/1/params\<close>, unsubscribing \<open>node/1/params\<close> drops the former from the table and from the broker, and
  keeps the latter, because only the first characters are compared.
\<close>

theorem unsubscribe_drops_longer_topic:
  "let g = sample_glue [Some (sample_sub ''node/1/params/remote'' 1 SUB_ACKNOWLEDGED 1 1),
      Some (sample_sub ''node/1/params'' 2 SUB_ACKNOWLEDGED 2 1)]
   in case esp_mqtt_glue_unsubscribe True (Some ''node/1/params'') (Some g) of
        (err, Some g', outs) \<Rightarrow> err = ESP_OK \<and> map sub_topic (entries (g_subs g')) = [''node/1/params''] \<and>
          outs = [Out_Unsubscribe ''node/1/params/remote'']
      | _ \<Rightarrow> False"
  by (simp add: esp_mqtt_glue_unsubscribe_def begin_op_Some glue_end_op_def detach_def release_outs_def sample_glue_def sample_sub_def)

subsection \<open>Long messages\<close>

text \<open>The data events of one message cut into fragments: only the first has the topic.\<close>

fun frag_events :: "string option \<Rightarrow> nat \<Rightarrow> nat \<Rightarrow> bytes list \<Rightarrow> data_event list" where
  "frag_events t n off [] = []"
| "frag_events t n off (f # fs) =
     \<lparr>ev_topic = t, ev_data = f, ev_total_len = n, ev_offset = off\<rparr> # frag_events None n (off + length f) fs"

text \<open>The events in order; \<open>None\<close> is a copy outside the buffer.\<close>

fun run_data :: "bool \<Rightarrow> long_data option \<Rightarrow> data_event list \<Rightarrow> (long_data option \<times> (string \<times> bytes) list) option" where
  "run_data alloc ld [] = Some (ld, [])"
| "run_data alloc ld (ev # evs) =
     (case data_event_handler alloc ld ev of
        None \<Rightarrow> None
      | Some (ld', m) \<Rightarrow>
          (case run_data alloc ld' evs of
             None \<Rightarrow> None
           | Some (ld'', ms) \<Rightarrow> Some (ld'', (case m of None \<Rightarrow> ms | Some x \<Rightarrow> x # ms))))"

lemma wr_n_next:
  assumes "length rest \<ge> length f"
  shows "wr_n (pre @ rest) (int (length pre)) f = Some ((pre @ f) @ drop (length f) rest)"
  using assms by (simp add: wr_n_def)

lemma run_data_rest:
  assumes "\<forall>f \<in> set fs. f \<noteq> []" and "fs \<noteq> []" and "length pre + length (concat fs) = n" and "pre \<noteq> []"
    and "length pre + length rest = n"
  shows "run_data alloc (Some \<lparr>ld_data = pre @ rest, ld_topic = t\<rparr>) (frag_events None n (length pre) fs)
    = Some (None, [(t, pre @ concat fs)])"
  using assms
proof (induction fs arbitrary: pre rest)
  case (Cons f fs)
  have fit: "length f \<le> length rest" using Cons.prems by simp
  have part: "length f \<noteq> n" using Cons.prems by (cases pre) auto
  show ?case
  proof (cases "fs = []")
    case True
    with Cons.prems fit part wr_n_next [OF fit, of pre] show ?thesis
      by (simp add: data_event_handler_def manage_long_data_def)
  next
    case False
    then have "concat fs \<noteq> []" using Cons.prems(1) by (cases fs) auto
    then have "length pre + length f \<noteq> n" using Cons.prems(3) by auto
    moreover have "run_data alloc (Some \<lparr>ld_data = (pre @ f) @ drop (length f) rest, ld_topic = t\<rparr>)
        (frag_events None n (length (pre @ f)) fs) = Some (None, [(t, (pre @ f) @ concat fs)])"
      by (rule Cons.IH) (use Cons.prems False fit in auto)
    ultimately show ?thesis
      using part wr_n_next [OF fit, of pre] by (simp add: data_event_handler_def manage_long_data_def)
  qed
qed simp

text \<open>
  C31. A message cut into any number of non-empty fragments, delivered in order, reaches the subscribers exactly
  once, complete and with its topic, after the last fragment, and leaves no buffer behind; no copy goes outside the
  buffer. This holds whatever an earlier, unfinished message left in \<open>long_data\<close>.
\<close>

theorem long_message_reassembled:
  assumes "fs \<noteq> []" and "\<forall>f \<in> set fs. f \<noteq> []"
  shows "run_data True ld (frag_events (Some t) (length (concat fs)) 0 fs) =
     Some (None, [(t, concat fs)])"
proof (cases fs)
  case (Cons f fs')
  define n where "n = length (concat fs)"
  have n: "n = length f + length (concat fs')" using Cons by (simp add: n_def)
  have "run_data True ld (frag_events (Some t) n 0 (f # fs')) = Some (None, [(t, f @ concat fs')])"
  proof (cases "fs' = []")
    case True
    with n show ?thesis by (simp add: data_event_handler_def)
  next
    case False
    then have "concat fs' \<noteq> []" using assms(2) Cons by (cases fs') auto
    then have part: "length f \<noteq> n" using n by auto
    have "wr_n (replicate n 0) 0 f = Some (f @ drop (length f) (replicate n 0))"
      using wr_n_next [of f "replicate n 0" "[]"] n by simp
    moreover have "run_data True (Some \<lparr>ld_data = f @ drop (length f) (replicate n 0), ld_topic = t\<rparr>)
        (frag_events None n (length f) fs') = Some (None, [(t, f @ concat fs')])"
      by (rule run_data_rest) (use assms Cons False n in auto)
    ultimately show ?thesis
      using part by (simp add: data_event_handler_def manage_long_data_def)
  qed
  then show ?thesis using Cons by (simp add: n_def)
qed (use assms in simp)

theorem long_message_reassembled_witness:
  "run_data True None (frag_events (Some ''t'') 3 0 [[1, 2], [3]]) = Some (None, [(''t'', [1, 2, 3])])"
  using long_message_reassembled [of "[[1, 2], [3]]" None "''t''"] by (simp add: numeral_3_eq_3)

end
