(* ===== verification/Mqtt_Life.thy ===== *)
theory Mqtt_Life
  imports Mqtt_Sub
begin

section \<open>The life of the MQTT instance\<close>

text \<open>
  Creating and destroying \<open>mqtt_data\<close>, connecting, disconnecting and changing the configuration
  (\<open>src/esp-mqtt/esp-mqtt-glue.c\<close>). The \<open>busy\<close> counter and the \<open>deleting\<close> flag are a handshake between
  \<open>esp_mqtt_glue_deinit\<close> and every task inside an operation; the step relation below interleaves them.
\<close>

subsection \<open>Data\<close>

text \<open>\<open>esp_rmaker_mqtt_conn_params_t\<close> and the client configuration made from it; keys and certificates are opaque.\<close>

record 'k conn_params =
  cp_host :: string
  cp_client_id :: string
  cp_server_cert :: 'k
  cp_client_cert :: 'k
  cp_client_key :: 'k
  cp_ds_data :: 'k
  cp_will_topic :: "string option"
  cp_will_message :: bytes
  cp_use_ecdsa :: bool
  cp_efuse_blk :: nat

record glue_build =
  gb_port_443 :: bool
  gb_cert_bundle :: bool
  gb_persistent :: bool
  gb_ecdsa :: bool
  gb_username :: "string option option"
  gb_timeout_ms :: nat
  gb_keepalive :: nat

record 'k client_config =
  cc_host :: string
  cc_port :: nat
  cc_alpn :: "string option"
  cc_server_cert :: "'k option"
  cc_username :: "string option"
  cc_client_id :: string
  cc_client_cert :: 'k
  cc_client_key :: 'k
  cc_ds_data :: 'k
  cc_timeout_ms :: nat
  cc_keepalive :: nat
  cc_will_topic :: "string option"
  cc_will_message :: bytes
  cc_will_qos :: nat
  cc_clean_disabled :: bool
  cc_ecdsa_blk :: "nat option"

text \<open>\<open>cc_server_cert = None\<close>: the certificate bundle is attached instead.\<close>

definition create_client_config :: "glue_build \<Rightarrow> 'k conn_params \<Rightarrow> 'k client_config" where
  "create_client_config b p =
     \<lparr>cc_host = cp_host p, cc_port = (if gb_port_443 b then 443 else 8883),
      cc_alpn = (if gb_port_443 b then Some ''x-amzn-mqtt-ca'' else None),
      cc_server_cert = (if gb_cert_bundle b then None else Some (cp_server_cert p)),
      cc_username = (case gb_username b of None \<Rightarrow> None | Some u \<Rightarrow> u),
      cc_client_id = cp_client_id p, cc_client_cert = cp_client_cert p, cc_client_key = cp_client_key p,
      cc_ds_data = cp_ds_data p, cc_timeout_ms = gb_timeout_ms b, cc_keepalive = gb_keepalive b,
      cc_will_topic = cp_will_topic p, cc_will_message = cp_will_message p, cc_will_qos = 1,
      cc_clean_disabled = gb_persistent b,
      cc_ecdsa_blk = (if cp_use_ecdsa p \<and> gb_ecdsa b then Some (cp_efuse_blk p) else None)\<rparr>"

text \<open>The statics of the file: the lock, the retry timer, \<open>mqtt_data\<close> with its parameters and client configuration.\<close>

record ('c, 'p, 'k) glue_statics =
  st_lock :: bool
  st_timer :: bool
  st_data :: "('c, 'p) glue option"
  st_params :: "'k conn_params option"
  st_client :: "'k client_config option"

text \<open>What the platform answers during init.\<close>

record init_env =
  in_mutex :: bool
  in_timer :: bool
  in_alloc :: bool
  in_client :: bool

definition new_glue :: "nat \<Rightarrow> ('c, 'p) glue" where
  "new_glue max_subs = \<lparr>g_subs = replicate max_subs None, g_connected = False, g_connecting = False,
     g_delay = SUB_RETRY_BASE_MS, g_arm_pending = False,
     g_early = replicate SUB_EARLY_ACK_SLOTS \<lparr>ea_msg_id = 0, ea_rejected = False, ea_tick = 0\<rparr>,
     g_deleting = False, g_busy = 0\<rparr>"

definition esp_mqtt_glue_init ::
  "glue_build \<Rightarrow> nat \<Rightarrow> init_env \<Rightarrow> 'k conn_params option \<Rightarrow> ('c, 'p, 'k) glue_statics \<Rightarrow> esp_err \<times> ('c, 'p, 'k) glue_statics" where
  "esp_mqtt_glue_init b max_subs env params st =
     (if gb_username b = Some None then (ESP_FAIL, st)
      else if \<not> st_lock st \<and> \<not> in_mutex env then (ESP_ERR_NO_MEM, st)
      else
        (let st1 = st\<lparr>st_lock := True, st_timer := st_timer st \<or> in_timer env\<rparr>
         in if st_data st \<noteq> None then (ESP_OK, st1)
            else case params of
              None \<Rightarrow> (ESP_FAIL, st1)
            | Some p \<Rightarrow>
                if \<not> in_alloc env then (ESP_ERR_NO_MEM, st1)
                else if \<not> in_client env then (ESP_FAIL, st1)
                else (ESP_OK, st1\<lparr>st_data := Some (new_glue max_subs), st_params := Some p,
                        st_client := Some (create_client_config b p)\<rparr>)))"

subsection \<open>Connect, disconnect, update\<close>

definition esp_mqtt_glue_connect :: "esp_err \<Rightarrow> ('c, 'p, 'k) glue_statics \<Rightarrow> esp_err" where
  "esp_mqtt_glue_connect start_ret st =
     (if st_data st = None then ESP_FAIL else if start_ret \<noteq> ESP_OK then start_ret else ESP_OK)"

definition esp_mqtt_glue_disconnect ::
  "tick_config \<Rightarrow> esp_err \<Rightarrow> bool \<Rightarrow> ('c, 'p, 'k) glue_statics \<Rightarrow> esp_err \<times> ('c, 'p, 'k) glue_statics \<times> glue_out list" where
  "esp_mqtt_glue_disconnect cfg stop_ret posted st =
     (case st_data st of
        None \<Rightarrow> (ESP_FAIL, st, [])
      | Some g \<Rightarrow>
          (let (g1, outs1) = unsubscribe_all g;
               (g2, outs2) = mark_disconnected cfg posted g1
           in (stop_ret, st\<lparr>st_data := Some g2\<rparr>, outs1 @ outs2)))"

text \<open>The return code of \<open>esp_mqtt_client_stop\<close> is only logged.\<close>

definition esp_mqtt_glue_update_config ::
  "glue_build \<Rightarrow> tick_config \<Rightarrow> esp_err \<Rightarrow> esp_err \<Rightarrow> bool \<Rightarrow> 'k conn_params option \<Rightarrow> ('c, 'p, 'k) glue_statics
     \<Rightarrow> esp_err \<times> ('c, 'p, 'k) glue_statics \<times> glue_out list" where
  "esp_mqtt_glue_update_config b cfg set_ret start_ret posted params st =
     (case (st_data st, params) of
        (None, _) \<Rightarrow> (ESP_ERR_INVALID_STATE, st, [])
      | (Some g, None) \<Rightarrow> (ESP_ERR_INVALID_ARG, st, [])
      | (Some g, Some p) \<Rightarrow>
          (let (g1, outs1) = mark_disconnected cfg posted g;
               st1 = st\<lparr>st_data := Some g1, st_params := Some p\<rparr>
           in if set_ret \<noteq> ESP_OK then (set_ret, st1, outs1)
              else (start_ret, st1\<lparr>st_client := Some (create_client_config b p)\<rparr>, outs1)))"

subsection \<open>Deinit\<close>

text \<open>
  \<open>deinit_mark\<close> is the part up to the flag (\<open>None\<close>: returns at once), \<open>deinit_free\<close> the part after the wait. In the
  loop, \<open>others n\<close> is what the other tasks do during the \<open>n\<close>-th 10 ms delay.
\<close>

definition deinit_mark :: "bool \<Rightarrow> ('c, 'p) glue option \<Rightarrow> ('c, 'p) glue option" where
  "deinit_mark lock d =
     (if \<not> lock then None
      else case d of None \<Rightarrow> None | Some g \<Rightarrow> if g_deleting g then None else Some (g\<lparr>g_deleting := True\<rparr>))"

definition deinit_free :: "('c, 'p) glue \<Rightarrow> ('c, 'p) glue option \<times> glue_out list" where
  "deinit_free g = (None, snd (unsubscribe_all g))"

fun deinit_wait :: "nat \<Rightarrow> (nat \<Rightarrow> ('c, 'p) glue \<Rightarrow> ('c, 'p) glue) \<Rightarrow> nat \<Rightarrow> ('c, 'p) glue \<Rightarrow> ('c, 'p) glue option" where
  "deinit_wait 0 others n g = None"
| "deinit_wait (Suc fuel) others n g =
     (if g_busy g = 0 then Some g else deinit_wait fuel others (Suc n) (others n g))"

definition esp_mqtt_glue_deinit ::
  "nat \<Rightarrow> (nat \<Rightarrow> ('c, 'p) glue \<Rightarrow> ('c, 'p) glue) \<Rightarrow> bool \<Rightarrow> ('c, 'p) glue option
     \<Rightarrow> (('c, 'p) glue option \<times> glue_out list) option" where
  "esp_mqtt_glue_deinit fuel others lock d =
     (case deinit_mark lock d of
        None \<Rightarrow> Some (d, [])
      | Some g \<Rightarrow> map_option deinit_free (deinit_wait fuel others 0 g))"

text \<open>\<open>esp_rmaker_mqtt_glue_setup\<close> hands these functions to the application; a function is given by its name, and
  \<open>get_conn_params\<close> is left as it is.\<close>

record 'f mqtt_config =
  mc_setup_done :: bool
  mc_get_conn_params :: 'f
  mc_init :: 'f
  mc_deinit :: 'f
  mc_connect :: 'f
  mc_disconnect :: 'f
  mc_publish :: 'f
  mc_subscribe :: 'f
  mc_unsubscribe :: 'f
  mc_update_config :: 'f

definition esp_rmaker_mqtt_glue_setup :: "string mqtt_config \<Rightarrow> esp_err \<times> string mqtt_config" where
  "esp_rmaker_mqtt_glue_setup c =
     (ESP_OK, c\<lparr>mc_init := ''esp_mqtt_glue_init'', mc_deinit := ''esp_mqtt_glue_deinit'', mc_connect := ''esp_mqtt_glue_connect'',
        mc_disconnect := ''esp_mqtt_glue_disconnect'', mc_publish := ''esp_mqtt_glue_publish'', mc_subscribe := ''esp_mqtt_glue_subscribe'',
        mc_unsubscribe := ''esp_mqtt_glue_unsubscribe'', mc_update_config := ''esp_mqtt_glue_update_config'', mc_setup_done := True\<rparr>)"

subsection \<open>The handshake\<close>

text \<open>\<open>lf_ops\<close> counts the tasks between \<open>glue_begin_op\<close> and \<open>glue_end_op\<close>.\<close>

record ('c, 'p) life =
  lf_data :: "('c, 'p) glue option"
  lf_ops :: nat

inductive life_step :: "('c, 'p) life \<Rightarrow> ('c, 'p) life \<Rightarrow> bool" where
  init: "lf_data s = None \<Longrightarrow> life_step s (s\<lparr>lf_data := Some (new_glue n)\<rparr>)"
| begin_op: "glue_begin_op True (lf_data s) = (True, d) \<Longrightarrow> life_step s (s\<lparr>lf_data := d, lf_ops := lf_ops s + 1\<rparr>)"
| end_op: "0 < lf_ops s \<Longrightarrow> life_step s (s\<lparr>lf_data := glue_end_op (lf_data s), lf_ops := lf_ops s - 1\<rparr>)"
| work: "lf_data s = Some g \<Longrightarrow> g_busy g' = g_busy g \<Longrightarrow> g_deleting g' = g_deleting g \<Longrightarrow> life_step s (s\<lparr>lf_data := Some g'\<rparr>)"
| mark: "deinit_mark True (lf_data s) = Some g \<Longrightarrow> life_step s (s\<lparr>lf_data := Some g\<rparr>)"
| free: "lf_data s = Some g \<Longrightarrow> g_deleting g \<Longrightarrow> g_busy g = 0 \<Longrightarrow> life_step s (s\<lparr>lf_data := fst (deinit_free g)\<rparr>)"

inductive_cases life_stepE: "life_step s s'"

definition life_start :: "('c, 'p) life \<Rightarrow> bool" where
  "life_start s \<longleftrightarrow> lf_data s = None \<and> lf_ops s = 0"

definition life_ok :: "('c, 'p) life \<Rightarrow> bool" where
  "life_ok s \<longleftrightarrow> (case lf_data s of None \<Rightarrow> lf_ops s = 0 | Some g \<Rightarrow> g_busy g = int (lf_ops s))"

interpretation life: inductive_invariant life_start life_step life_ok
proof unfold_locales
  show "life_ok s'" if "life_ok s" "life_step s s'" for s s' :: "('c, 'p) life"
    using that(2,1)
    by (cases rule: life_step.cases)
      (auto simp: life_ok_def new_glue_def glue_begin_op_def glue_end_op_def deinit_mark_def deinit_free_def
        split: option.splits if_splits)
qed (simp add: life_start_def life_ok_def)

lemma deinit_wait_returns:
  assumes "g_busy g = int k" and "k < fuel"
    and "\<And>n g. 0 < g_busy g \<Longrightarrow> g_busy (others n g) = g_busy g - 1 \<and> g_subs (others n g) = g_subs g \<and> g_connected (others n g) = g_connected g"
  shows "\<exists>g'. deinit_wait fuel others n g = Some g' \<and> g_subs g' = g_subs g \<and> g_connected g' = g_connected g"
  using assms(1,2)
proof (induction fuel arbitrary: n g k)
  case (Suc fuel)
  show ?case
  proof (cases k)
    case 0
    with Suc.prems show ?thesis by simp
  next
    case (Suc j)
    then have o: "g_busy (others n g) = int j" "g_subs (others n g) = g_subs g" "g_connected (others n g) = g_connected g"
      using assms(3) [of g n] Suc.prems by simp_all
    from Suc.IH [OF o(1), of "Suc n"] o Suc Suc.prems show ?thesis by simp
  qed
qed simp

lemma unsubscribe_all_outs:
  assumes "unsubscribe_all_loop [i..<length (g_subs g)] g = (g', outs)" and "\<forall>j<i. g_subs g ! j = None" and "i \<le> length (g_subs g)"
  shows "Out_Unsubscribe t \<in> set outs \<longleftrightarrow> g_connected g \<and> t \<in> sub_topic ` set (entries (g_subs g))"
  using assms
proof (induction "length (g_subs g) - i" arbitrary: i g g' outs)
  case 0
  then have "entries (g_subs g) = []"
    by (simp add: entries_empty all_set_conv_all_nth)
  with 0 show ?case by simp
next
  case (Suc n)
  then have i: "i < length (g_subs g)" by simp
  then have upt: "[i..<length (g_subs g)] = i # [Suc i..<length (g_subs g)]" by (simp add: upt_conv_Cons)
  obtain s send g1 where det: "detach i g = (s, send, g1)" by (metis prod_cases3)
  obtain g2 outs2 where rest: "unsubscribe_all_loop [Suc i..<length (g_subs g)] g1 = (g2, outs2)" by fastforce
  have outs: "outs = release_outs s send @ outs2" using Suc.prems(1) upt det rest by simp
  have con: "g_connected g1 = g_connected g" and sub: "g_subs g1 = (g_subs g)[i := None]"
    using det list_update_id [of "g_subs g" i] by (cases "g_subs g ! i"; force simp: detach_def Let_def)+
  then have len: "length (g_subs g1) = length (g_subs g)" by simp
  have IH: "Out_Unsubscribe t \<in> set outs2 \<longleftrightarrow> g_connected g1 \<and> t \<in> sub_topic ` set (entries (g_subs g1))"
  proof (rule Suc.hyps(1))
    show "n = length (g_subs g1) - Suc i" using Suc.hyps(2) len by simp
    show "unsubscribe_all_loop [Suc i..<length (g_subs g1)] g1 = (g2, outs2)" using rest len by simp
    show "\<forall>j<Suc i. g_subs g1 ! j = None"
      using Suc.prems(2) i by (auto simp: sub nth_list_update less_Suc_eq)
    show "Suc i \<le> length (g_subs g1)" using i len by simp
  qed
  show ?case
  proof (cases "g_subs g ! i")
    case None
    with det have "s = None" "g1 = g" by (auto simp: detach_def)
    with IH outs show ?thesis by (simp add: release_outs_def)
  next
    case (Some x)
    from entries_clear [OF i Some] obtain as bs where e: "entries (g_subs g) = as @ x # bs" "entries (g_subs g1) = as @ bs"
      unfolding sub by blast
    have "s = Some x" "send \<longleftrightarrow> g_connected g \<and> sub_topic x \<notin> sub_topic ` set (entries (g_subs g1))"
      using det Some by (auto simp: detach_def Let_def other_topic)
    with IH outs con e show ?thesis by (auto simp: release_outs_def)
  qed
qed


text \<open>A task inside an operation when deinit starts.\<close>

definition sample_life :: "(nat, nat) life" where
  "sample_life = \<lparr>lf_data = Some ((new_glue 2)\<lparr>g_busy := 1, g_deleting := True\<rparr>), lf_ops = 1\<rparr>"

lemma sample_life_reach: "reach life_start life_step sample_life"
proof -
  let ?s0 = "\<lparr>lf_data = None, lf_ops = 0\<rparr> :: (nat, nat) life"
  let ?s1 = "?s0\<lparr>lf_data := Some (new_glue 2)\<rparr>"
  let ?s2 = "?s1\<lparr>lf_data := Some ((new_glue 2)\<lparr>g_busy := 1\<rparr>), lf_ops := lf_ops ?s1 + 1\<rparr>"
  let ?s3 = "?s2\<lparr>lf_data := Some ((new_glue 2)\<lparr>g_busy := 1, g_deleting := True\<rparr>)\<rparr>"
  have "life_start ?s0" by (simp add: life_start_def)
  moreover have "life_step ?s0 ?s1" by (rule life_step.init) simp
  ultimately have "reach life_start life_step ?s1" by (blast intro: reach.intros)
  moreover have "life_step ?s1 ?s2"
    by (rule life_step.begin_op) (simp add: glue_begin_op_def new_glue_def)
  moreover have "life_step ?s2 ?s3"
    by (rule life_step.mark) (simp add: deinit_mark_def new_glue_def)
  ultimately have "reach life_start life_step ?s3" by (blast intro: reach.step)
  then show ?thesis by (simp add: sample_life_def)
qed


text \<open>
  Deinit returns: started on a live instance with \<open>k\<close> operations in progress, when one of them ends
  in every 10 ms delay, the wait ends after at most \<open>k\<close> delays; the instance is then gone and every topic of the
  table that was subscribed while connected has been unsubscribed.
\<close>

theorem glue_deinit_returns:
  assumes "\<not> g_deleting g" and "g_busy g = int k" and "k < fuel"
    and "\<And>n g. 0 < g_busy g \<Longrightarrow> g_busy (others n g) = g_busy g - 1 \<and> g_subs (others n g) = g_subs g \<and> g_connected (others n g) = g_connected g"
  shows "\<exists>outs. esp_mqtt_glue_deinit fuel others True (Some g) = Some (None, outs) \<and>
    (\<forall>t. Out_Unsubscribe t \<in> set outs \<longleftrightarrow> g_connected g \<and> t \<in> sub_topic ` set (entries (g_subs g)))"
proof -
  have mark: "deinit_mark True (Some g) = Some (g\<lparr>g_deleting := True\<rparr>)" using assms(1) by (simp add: deinit_mark_def)
  obtain g' where w: "deinit_wait fuel others 0 (g\<lparr>g_deleting := True\<rparr>) = Some g'" "g_subs g' = g_subs g" "g_connected g' = g_connected g"
    using deinit_wait_returns [of "g\<lparr>g_deleting := True\<rparr>" k fuel others 0] assms(2-4) by auto
  obtain g2 outs where u: "unsubscribe_all g' = (g2, outs)" by fastforce
  from unsubscribe_all_outs [of 0 g' g2 outs] u w
  have "\<forall>t. Out_Unsubscribe t \<in> set outs \<longleftrightarrow> g_connected g \<and> t \<in> sub_topic ` set (entries (g_subs g))"
    by (simp add: unsubscribe_all_def)
  with mark w(1) u show ?thesis by (auto simp: esp_mqtt_glue_deinit_def deinit_free_def)
qed

theorem glue_deinit_returns_witness:
  "\<exists>outs. esp_mqtt_glue_deinit 4 (\<lambda>_ g. g\<lparr>g_busy := g_busy g - 1\<rparr>) True (Some (sample_two\<lparr>g_busy := 3\<rparr>)) = Some (None, outs) \<and>
    Out_Unsubscribe ''t'' \<in> set outs"
  using glue_deinit_returns [of "sample_two\<lparr>g_busy := 3\<rparr>" 3 4 "\<lambda>_ g. g\<lparr>g_busy := g_busy g - 1\<rparr>"]
  by (auto simp: sample_two_def sample_glue_def sample_sub_def)

text \<open>
  Changing the configuration keeps the subscriptions: after \<open>update_config\<close> and the reconnect, the client has
  the configuration made from the new parameters, the table holds the same topics, callbacks and QoS, and every
  topic of it has been subscribed again, once.
\<close>

theorem update_config_resubscribes:
  assumes "st_data st = Some g"
    and "esp_mqtt_glue_update_config b cfg ESP_OK ESP_OK posted (Some p) st = (err, st', outs)" and "st_data st' = Some g1"
    and "connected_handler cfg env g1 = (g2, outs2)" and "ee_alloc env = (\<lambda>_. True)" and "ee_mid env = (\<lambda>_ g. (g, []))"
  shows "err = ESP_OK \<and> st_client st' = Some (create_client_config b p) \<and>
    map (\<lambda>s. (sub_topic s, sub_cb s, sub_qos s)) (entries (g_subs g1)) = map (\<lambda>s. (sub_topic s, sub_cb s, sub_qos s)) (entries (g_subs g)) \<and>
    distinct (map fst (sent_subs outs2)) \<and> set (map fst (sent_subs outs2)) = sub_topic ` set (entries (g_subs g))"
proof -
  have g1: "g1 = (reset_subscription_states (g\<lparr>g_connected := False, g_connecting := False\<rparr>))\<lparr>g_delay := SUB_RETRY_BASE_MS\<rparr>"
    and cc: "err = ESP_OK" "st_client st' = Some (create_client_config b p)"
    using assms(1-3) by (auto simp: esp_mqtt_glue_update_config_def mark_disconnected_def)
  let ?g0 = "(reset_subscription_states (g1\<lparr>g_connected := True\<rparr>))\<lparr>g_delay := SUB_RETRY_BASE_MS\<rparr>"
  have e1: "entries (g_subs g1) = map (\<lambda>s. s\<lparr>sub_state := SUB_NONE\<rparr>) (entries (g_subs g))"
    by (simp add: g1 reset_subscription_states_def g_subs_map_subs entries_map)
  have e0: "entries (g_subs (reset_subscription_states (g1\<lparr>g_connected := True\<rparr>))) = map (\<lambda>s. s\<lparr>sub_state := SUB_NONE\<rparr>) (entries (g_subs g))"
    by (simp add: reset_subscription_states_def g_subs_map_subs entries_map e1 comp_def)
  obtain ga outsa r where res: "resubscribe_pending cfg (ee_tick2 env) (\<lambda>_. True) (ee_send env) (\<lambda>_ g. (g, [])) ?g0 = (ga, outsa, r)"
    by (metis prod_cases3)
  obtain gb outsb where sch: "schedule_sub_retry cfg (ee_tick2 env) (ee_posted2 env) ga = (gb, outsb)" by fastforce
  have "outs2 = outsa @ outsb @ [Out_Event_Connected]"
    using assms(4-6) res sch by (simp add: connected_handler_def)
  then have sent: "sent_subs outs2 = sent_subs outsa"
    using sent_schedule [OF sch] by (simp add: sent_subs_append)
  have con: "g_connected ?g0" by (simp add: reset_subscription_states_def)
  have "distinct (map fst (sent_subs outsa)) \<and> set (map fst (sent_subs outsa)) =
      sub_topic ` {s \<in> set (entries (g_subs ?g0)). sub_needs_send cfg (ee_tick2 env) s}"
    by (rule resubscribe_topics [OF con res])
  moreover have "{s \<in> set (entries (g_subs ?g0)). sub_needs_send cfg (ee_tick2 env) s} = set (entries (g_subs ?g0))"
    by (auto simp: e0 sub_needs_send_def)
  ultimately show ?thesis
    using cc by (simp add: sent e1 e0 comp_def image_image)
qed

definition sample_params :: "nat conn_params" where
  "sample_params = \<lparr>cp_host = ''h'', cp_client_id = ''c'', cp_server_cert = 0, cp_client_cert = 1, cp_client_key = 2,
     cp_ds_data = 3, cp_will_topic = None, cp_will_message = [], cp_use_ecdsa = False, cp_efuse_blk = 0\<rparr>"

definition sample_build :: glue_build where
  "sample_build = \<lparr>gb_port_443 = False, gb_cert_bundle = False, gb_persistent = False, gb_ecdsa = True, gb_username = None,
     gb_timeout_ms = 10000, gb_keepalive = 60\<rparr>"

definition sample_statics :: "(nat, nat, nat) glue_statics" where
  "sample_statics = \<lparr>st_lock = True, st_timer = True, st_data = Some sample_two, st_params = None, st_client = None\<rparr>"

theorem update_config_resubscribes_witness:
  "\<exists>st' g1. esp_mqtt_glue_update_config sample_build sample_cfg ESP_OK ESP_OK True (Some sample_params) sample_statics
      = (ESP_OK, st', [Out_Timer_Stop]) \<and> st_data st' = Some g1 \<and>
    set (map fst (sent_subs (snd (connected_handler sample_cfg sample_ee g1)))) = {''t'', ''u''}"
proof -
  obtain err st' outs where u: "esp_mqtt_glue_update_config sample_build sample_cfg ESP_OK ESP_OK True (Some sample_params)
      sample_statics = (err, st', outs)" by (metis prod_cases3)
  then obtain g1 where g1: "st_data st' = Some g1" and outs: "err = ESP_OK" "outs = [Out_Timer_Stop]"
    by (auto simp: esp_mqtt_glue_update_config_def mark_disconnected_def sample_statics_def sample_cfg_def)
  obtain g2 outs2 where c: "connected_handler sample_cfg sample_ee g1 = (g2, outs2)" by fastforce
  have "set (map fst (sent_subs outs2)) = sub_topic ` set (entries (g_subs sample_two))"
    using update_config_resubscribes [OF _ u g1 c] by (simp add: sample_statics_def sample_ee_def)
  also have "\<dots> = {''t'', ''u''}"
    by (simp add: sample_two_def sample_glue_def sample_sub_def)
  finally show ?thesis using u g1 outs c by auto
qed

end
