(* ===== verification/Aws_Encode.thy ===== *)
theory Aws_Encode
  imports Rmk_Prelude "HOL-Library.Char_ord" "HOL-Library.List_Lexorder" "HOL-Library.Multiset"
begin

section \<open>AWS signing: output sinks and encoders\<close>

text \<open>
  The first half of \<open>components/rmaker_aws_sign/src/esp_rmaker_aws_sign_sigv4.c\<close>: the output sink in its two modes
  and the encoders that write into it. A byte is a \<open>char\<close>. An encoder is the list of the pieces it passes to \<open>out_put\<close>, in
  order, so that the same definition is streamed into the digest and written to a buffer, as in the code.
\<close>

subsection \<open>Characters\<close>

definition HEXL :: string where "HEXL = ''0123456789abcdef''"
definition HEXU :: string where "HEXU = ''0123456789ABCDEF''"

definition code :: "char \<Rightarrow> nat" where "code c = of_char c"

text \<open>\<open>ctype.h\<close> in the C locale.\<close>

definition isalnum :: "char \<Rightarrow> bool" where
  "isalnum c \<longleftrightarrow> 48 \<le> code c \<and> code c \<le> 57 \<or> 65 \<le> code c \<and> code c \<le> 90 \<or> 97 \<le> code c \<and> code c \<le> 122"

definition isspace :: "char \<Rightarrow> bool" where
  "isspace c \<longleftrightarrow> 9 \<le> code c \<and> code c \<le> 13 \<or> code c = 32"

definition lower_char :: "char \<Rightarrow> char" where
  "lower_char c = (if 65 \<le> code c \<and> code c \<le> 90 then char_of (code c + 32) else c)"

definition strcasecmp_eq :: "string \<Rightarrow> string \<Rightarrow> bool" where
  "strcasecmp_eq s t \<longleftrightarrow> map lower_char s = map lower_char t"

fun to_hex :: "string \<Rightarrow> string" where
  "to_hex [] = []"
| "to_hex (b # bs) = HEXL ! (code b div 16) # HEXL ! (code b mod 16) # to_hex bs"

lemma code_less: "code c < 256"
  by (simp add: code_def)

lemma length_to_hex [simp]: "length (to_hex bs) = 2 * length bs"
  by (induction bs) auto

subsection \<open>The buffer sink\<close>

text \<open>\<open>ab_dst\<close> is the buffer with its capacity, \<open>None\<close> a NULL pointer; \<open>ab_len\<close> the bytes the full output needs.\<close>

record aws_buf =
  ab_dst :: "string option"
  ab_len :: nat

definition out_buf_init :: "string option \<Rightarrow> aws_buf" where
  "out_buf_init dst = \<lparr>ab_dst = dst, ab_len = 0\<rparr>"

definition out_put :: "string \<Rightarrow> aws_buf \<Rightarrow> aws_buf" where
  "out_put p ob =
     (case ab_dst ob of
        None \<Rightarrow> ob\<lparr>ab_len := ab_len ob + length p\<rparr>
      | Some b \<Rightarrow>
          ob\<lparr>ab_dst := Some (if ab_len ob + length p < length b
               then take (ab_len ob) b @ p @ drop (ab_len ob + length p) b else b),
             ab_len := ab_len ob + length p\<rparr>)"

definition out_buf_finish :: "aws_buf \<Rightarrow> nat \<times> string option" where
  "out_buf_finish ob =
     (ab_len ob,
      map_option (\<lambda>b. if b = [] then b else b[(if ab_len ob < length b then ab_len ob else length b - 1) := CHR 0x00]) (ab_dst ob))"

definition write_chunks :: "string option \<Rightarrow> string list \<Rightarrow> nat \<times> string option" where
  "write_chunks dst ps = out_buf_finish (fold out_put ps (out_buf_init dst))"

text \<open>The C string in a buffer.\<close>

definition c_str :: "string \<Rightarrow> string" where
  "c_str b = takeWhile (\<lambda>c. c \<noteq> CHR 0x00) b"

lemma fold_out_len: "ab_len (fold out_put ps ob) = ab_len ob + length (concat ps)"
  by (induction ps arbitrary: ob) (auto simp: out_put_def split: option.splits)

lemma fold_out_null: "ab_dst ob = None \<Longrightarrow> fold out_put ps ob = ob\<lparr>ab_len := ab_len ob + length (concat ps)\<rparr>"
  by (induction ps arbitrary: ob) (auto simp: out_put_def add.assoc)

lemma fold_out_fits:
  assumes "ab_dst ob = Some (pre @ rest)" and "ab_len ob = length pre" and "length (concat ps) < length rest"
  shows "ab_dst (fold out_put ps ob) = Some (pre @ concat ps @ drop (length (concat ps)) rest)"
  using assms
proof (induction ps arbitrary: ob pre rest)
  case (Cons p ps)
  have "ab_dst (fold out_put ps (out_put p ob)) = Some ((pre @ p) @ concat ps @ drop (length (concat ps)) (drop (length p) rest))"
    by (rule Cons.IH) (use Cons.prems in \<open>auto simp: out_put_def\<close>)
  then show ?case by (simp add: add.commute)
qed simp

text \<open>Two passes over the same pieces, the first only counting, give exactly the text: the pattern of the callers.\<close>

lemma write_counts: "write_chunks None ps = (length (concat ps), None)"
  by (simp add: write_chunks_def out_buf_init_def fold_out_null out_buf_finish_def)

lemma write_fits:
  assumes "length (concat ps) < length b"
  shows "write_chunks (Some b) ps = (length (concat ps), Some (concat ps @ CHR 0x00 # drop (Suc (length (concat ps))) b))"
proof -
  have "ab_dst (fold out_put ps (out_buf_init (Some b))) = Some (concat ps @ drop (length (concat ps)) b)"
    using fold_out_fits [of "out_buf_init (Some b)" "[]" b ps] assms by (simp add: out_buf_init_def)
  moreover have "ab_len (fold out_put ps (out_buf_init (Some b))) = length (concat ps)"
    by (simp add: fold_out_len out_buf_init_def)
  moreover have "drop (length (concat ps)) b = b ! length (concat ps) # drop (Suc (length (concat ps))) b"
    using assms by (simp add: Cons_nth_drop_Suc)
  ultimately show ?thesis
    using assms by (auto simp: write_chunks_def out_buf_finish_def list_update_append)
qed

lemma c_str_text: "CHR 0x00 \<notin> set s \<Longrightarrow> c_str (s @ CHR 0x00 # r) = s"
  by (induction s) (auto simp: c_str_def)

subsection \<open>The encoders\<close>

definition pass_through :: "bool \<Rightarrow> char \<Rightarrow> bool" where
  "pass_through keep_slash c \<longleftrightarrow> isalnum c \<or> c = CHR ''-'' \<or> c = CHR ''_'' \<or> c = CHR ''.'' \<or> c = CHR ''~'' \<or>
     (keep_slash \<and> c = CHR ''/'')"

fun put_encoded :: "bool \<Rightarrow> bool \<Rightarrow> string \<Rightarrow> string list" where
  "put_encoded keep_slash twice [] = []"
| "put_encoded keep_slash twice (c # cs) =
     (if pass_through keep_slash c then [[c]]
      else [if twice then ''%25'' else ''%'', [HEXU ! (code c div 16)], [HEXU ! (code c mod 16)]])
     @ put_encoded keep_slash twice cs"

definition put_uri :: "bool \<Rightarrow> bool \<Rightarrow> string \<Rightarrow> string list" where
  "put_uri keep_slash twice src = (if src = [] then [''/''] else put_encoded keep_slash twice src)"

datatype seg_kind = SEG_END | SEG_NAME | SEG_DOT | SEG_DOT_DOT

text \<open>Kind, segment and the rest of the path.\<close>

definition next_segment :: "string \<Rightarrow> seg_kind \<times> string \<times> string" where
  "next_segment p =
     (let q = dropWhile (\<lambda>c. c = CHR ''/'') p; seg = takeWhile (\<lambda>c. c \<noteq> CHR ''/'') q
      in (if seg = [] then SEG_END else if seg = ''.'' then SEG_DOT else if seg = ''..'' then SEG_DOT_DOT else SEG_NAME,
          seg, dropWhile (\<lambda>c. c \<noteq> CHR ''/'') q))"

lemma next_segment_less:
  assumes "next_segment p = (k, seg, rest)" and "k \<noteq> SEG_END"
  shows "length rest < length p"
proof -
  define q where "q = dropWhile (\<lambda>c. c = CHR ''/'') p"
  have seg: "takeWhile (\<lambda>c. c \<noteq> CHR ''/'') q = seg" "seg \<noteq> []" and rest: "rest = dropWhile (\<lambda>c. c \<noteq> CHR ''/'') q"
    using assms by (auto simp: next_segment_def Let_def q_def split: if_splits)
  have "length q = length seg + length rest"
    using arg_cong [OF takeWhile_dropWhile_id [of "\<lambda>c. c \<noteq> CHR ''/''" q], of length] by (simp add: seg(1) rest)
  moreover have "length q \<le> length p" by (simp add: q_def length_dropWhile_le)
  ultimately show ?thesis using seg(2) by (cases seg) auto
qed

function removed_later_loop :: "int \<Rightarrow> string \<Rightarrow> bool" where
  "removed_later_loop names p =
     (case next_segment p of
        (SEG_END, _, _) \<Rightarrow> False
      | (SEG_NAME, _, rest) \<Rightarrow> removed_later_loop (names + 1) rest
      | (SEG_DOT, _, rest) \<Rightarrow> removed_later_loop names rest
      | (SEG_DOT_DOT, _, rest) \<Rightarrow> if names - 1 < 0 then True else removed_later_loop (names - 1) rest)"
  by pat_completeness auto
termination
  by (relation "measure (length \<circ> snd)") (auto dest: next_segment_less [OF sym])

declare removed_later_loop.simps [simp del]

definition removed_later :: "string \<Rightarrow> bool" where
  "removed_later rest = removed_later_loop 0 rest"

text \<open>The pieces written for the names, and \<open>any\<close>.\<close>

function normalized_loop :: "bool \<Rightarrow> string \<Rightarrow> string list \<times> bool" where
  "normalized_loop encode p =
     (case next_segment p of
        (SEG_END, _, _) \<Rightarrow> ([], False)
      | (k, seg, rest) \<Rightarrow>
          (if k \<noteq> SEG_NAME \<or> removed_later rest then normalized_loop encode rest
           else (''/'' # (if encode then put_encoded True True seg else [seg]) @ fst (normalized_loop encode rest), True)))"
  by pat_completeness auto
termination
  by (relation "measure (length \<circ> snd)") (auto dest: next_segment_less [OF sym])

declare normalized_loop.simps [simp del]

definition put_normalized :: "bool \<Rightarrow> string \<Rightarrow> string list" where
  "put_normalized encode path =
     (case normalized_loop encode path of
        (ps, any) \<Rightarrow> ps @ (if \<not> any \<or> last path = CHR ''/'' then [''/''] else []))"

text \<open>The loop of \<open>put_trimmed\<close> after the leading blanks.\<close>

fun trimmed_loop :: "bool \<Rightarrow> string \<Rightarrow> string list" where
  "trimmed_loop pending [] = []"
| "trimmed_loop pending (c # cs) =
     (if isspace c then trimmed_loop True cs
      else (if pending then ['' ''] else []) @ [c] # trimmed_loop False cs)"

definition put_trimmed :: "string \<Rightarrow> string list" where
  "put_trimmed v = trimmed_loop False (dropWhile isspace v)"

definition put_lower :: "string \<Rightarrow> string list" where
  "put_lower s = map (\<lambda>c. [lower_char c]) s"

definition uri_encode_into :: "string option \<Rightarrow> string \<Rightarrow> bool \<Rightarrow> bool \<Rightarrow> nat \<times> string option" where
  "uri_encode_into dst src keep_slash twice = write_chunks dst (put_uri keep_slash twice src)"

definition normalize_path_into :: "string option \<Rightarrow> string \<Rightarrow> nat \<times> string option" where
  "normalize_path_into dst src = write_chunks dst (put_normalized False src)"

definition trim_header_value :: "string option \<Rightarrow> string \<Rightarrow> nat \<times> string option" where
  "trim_header_value dst src = write_chunks dst (put_trimmed src)"

end
