(* ===== verification/Aws_Time.thy ===== *)
theory Aws_Time
  imports Aws_Encode "HOL-Library.Signed_Division"
begin

section \<open>AWS signing: calendar arithmetic\<close>

text \<open>
  \<open>days_from_civil\<close> and \<open>esp_rmaker_aws_sign_iso8601_to_epoch\<close> of
  \<open>components/rmaker_aws_sign/src/esp_rmaker_aws_sign_creds.c\<close>, and \<open>make_amz_date\<close> of the signer. The C divisions are
  \<open>sdiv\<close>. From the C library, \<open>sscanf\<close> with \<open>%d\<close> is \<open>scan_int\<close> and \<open>gmtime_r\<close> is \<open>gmtime_days\<close>.
\<close>

subsection \<open>Dates to days\<close>

definition days_from_civil :: "int \<Rightarrow> int \<Rightarrow> int \<Rightarrow> int" where
  "days_from_civil y0 m d =
     (let y = y0 - (if m \<le> 2 then 1 else 0);
          era = (if y \<ge> 0 then y else y - 399) sdiv 400;
          yoe = y - era * 400;
          doy = (153 * (m + (if m > 2 then -3 else 9)) + 2) sdiv 5 + d - 1;
          doe = yoe * 365 + yoe sdiv 4 - yoe sdiv 100 + doy
      in era * 146097 + doe - 719468)"

text \<open>One \<open>%d\<close>: blanks, a sign, digits.\<close>

definition digit_val :: "char \<Rightarrow> int" where
  "digit_val c = int (code c) - 48"

definition is_digit :: "char \<Rightarrow> bool" where
  "is_digit c \<longleftrightarrow> 48 \<le> code c \<and> code c \<le> 57"

definition scan_int :: "string \<Rightarrow> (int \<times> string) option" where
  "scan_int s0 =
     (let s1 = dropWhile isspace s0;
          (neg, s2) = (case s1 of c # r \<Rightarrow> if c = CHR ''-'' then (True, r) else if c = CHR ''+'' then (False, r) else (False, s1)
                       | [] \<Rightarrow> (False, s1));
          ds = takeWhile is_digit s2;
          n = foldl (\<lambda>a c. 10 * a + digit_val c) 0 ds
      in if ds = [] then None else Some (if neg then - n else n, dropWhile is_digit s2))"

text \<open>The format: numbers with the separators between them; the last \<open>Z\<close> does not count.\<close>

fun scan_fields :: "string \<Rightarrow> string \<Rightarrow> int list option" where
  "scan_fields [] s = map_option (\<lambda>(n, _). [n]) (scan_int s)"
| "scan_fields (sep # seps) s =
     (case scan_int s of
        None \<Rightarrow> None
      | Some (n, r) \<Rightarrow>
          (case r of
             [] \<Rightarrow> None
           | c # r' \<Rightarrow> if c = sep then map_option (Cons n) (scan_fields seps r') else None))"

definition iso8601_to_epoch :: "string option \<Rightarrow> int" where
  "iso8601_to_epoch txt =
     (case txt of
        None \<Rightarrow> 0
      | Some s \<Rightarrow>
          (case scan_fields ''--T::'' s of
             Some [y, mo, d, h, mi, sec] \<Rightarrow>
               if mo < 1 \<or> mo > 12 \<or> d < 1 \<or> d > 31 \<or> h > 23 \<or> mi > 59 \<or> sec > 60 \<or> h < 0 \<or> mi < 0 \<or> sec < 0 then 0
               else days_from_civil y mo d * 86400 + h * 3600 + mi * 60 + sec
           | _ \<Rightarrow> 0))"

subsection \<open>The calendar\<close>

definition leap_year :: "int \<Rightarrow> bool" where
  "leap_year y \<longleftrightarrow> y mod 4 = 0 \<and> (y mod 100 \<noteq> 0 \<or> y mod 400 = 0)"

definition month_days :: "int \<Rightarrow> int \<Rightarrow> int" where
  "month_days y m = (if m = 2 then (if leap_year y then 29 else 28) else if m \<in> {4, 6, 9, 11} then 30 else 31)"

fun next_day :: "int \<times> int \<times> int \<Rightarrow> int \<times> int \<times> int" where
  "next_day (y, m, d) =
     (if d < month_days y m then (y, m, d + 1) else if m < 12 then (y, m + 1, 1) else (y + 1, 1, 1))"

definition valid_date :: "int \<times> int \<times> int \<Rightarrow> bool" where
  "valid_date = (\<lambda>(y, m, d). 1 \<le> m \<and> m \<le> 12 \<and> 1 \<le> d \<and> d \<le> month_days y m)"

lemma sdiv_pos [simp]: "0 \<le> a \<Longrightarrow> (a :: int) sdiv 4 = a div 4" "0 \<le> a \<Longrightarrow> a sdiv 100 = a div 100" "0 \<le> a \<Longrightarrow> a sdiv 5 = a div 5"
  by (simp_all add: signed_divide_int_def sgn_if zdiv_eq_0_iff)

lemma era_floor: "(if y \<ge> 0 then y else y - 399) sdiv 400 = y div (400 :: int)"
proof (cases "y \<ge> 0")
  case True
  then show ?thesis by (simp add: signed_divide_int_def sgn_if)
next
  case False
  have "(399 - y) div 400 = - (y div 400)"
    by (rule int_div_pos_eq [where r = "399 - y mod 400"]) (use div_mult_mod_eq [of y 400] in \<open>simp_all add: algebra_simps\<close>)
  with False show ?thesis by (simp add: signed_divide_int_def sgn_if)
qed

lemma div_inc:
  fixes y k :: int
  assumes "0 < k"
  shows "(y + 1) div k = y div k + (if (y + 1) mod k = 0 then 1 else 0)"
proof (cases "y mod k + 1 < k")
  case True
  have "(y + 1) div k = y div k"
    by (rule int_div_pos_eq [where r = "y mod k + 1"]) (use True assms mult_div_mod_eq [of k y] pos_mod_sign [OF assms, of y] in linarith)+
  moreover from this have "k * (y div k) + (y + 1) mod k = y + 1"
    using mult_div_mod_eq [of k "y + 1"] by simp
  then have "(y + 1) mod k = y mod k + 1" using mult_div_mod_eq [of k y] by linarith
  ultimately show ?thesis using pos_mod_sign [OF assms, of y] by simp
next
  case False
  then have "y mod k = k - 1" using pos_mod_bound [OF assms, of y] by linarith
  then have "y + 1 = k * (y div k) + k" using mult_div_mod_eq [of k y] by linarith
  then have e: "y + 1 = k * (y div k + 1)" by (simp add: distrib_left)
  have "(y + 1) mod k = 0" by (simp only: e mod_mult_self1_is_0)
  moreover have "(y + 1) div k = y div k + 1" using assms by (simp only: e) simp
  ultimately show ?thesis by simp
qed

text \<open>Days before the year that starts in March of \<open>y\<close>.\<close>

definition march_days :: "int \<Rightarrow> int" where
  "march_days y = 365 * y + y div 4 - y div 100 + y div 400 - 719468"

lemma yoe_split:
  fixes y :: int
  shows "(y - e * 400) div 4 = y div 4 - e * 100" "(y - e * 400) div 100 = y div 100 - e * 4"
  using div_mult_self1 [of 4 y "- (e * 100)"] div_mult_self1 [of 100 y "- (e * 4)"] by (simp_all add: algebra_simps)

lemma days_march:
  assumes "1 \<le> m" and "m \<le> 12"
  shows "days_from_civil y0 m d =
    march_days (y0 - (if m \<le> 2 then 1 else 0)) + (153 * (m + (if m > 2 then -3 else 9)) + 2) div 5 + d - 1"
proof -
  define y where "y = y0 - (if m \<le> 2 then 1 else 0)"
  have yoe: "0 \<le> y - y div 400 * 400" using mult_div_mod_eq [of 400 y] pos_mod_sign [of 400 y] by linarith
  have q: "(y - y div 400 * 400) sdiv 4 = y div 4 - y div 400 * 100" "(y - y div 400 * 400) sdiv 100 = y div 100 - y div 400 * 4"
    using yoe by (simp_all add: yoe_split)
  have "0 \<le> 153 * (m + (if m > 2 then -3 else 9)) + 2" using assms by simp
  then have r: "(153 * (m + (if m > 2 then -3 else 9)) + 2) sdiv 5 = (153 * (m + (if m > 2 then -3 else 9)) + 2) div 5"
    by (rule sdiv_pos)
  show ?thesis
    unfolding days_from_civil_def Let_def y_def [symmetric] era_floor q r march_days_def by (simp add: left_diff_distrib)
qed

lemma leap_arith:
  fixes y :: int
  assumes "d4 = e4 + (if A then 1 else 0)" and "d100 = e100 + (if B then 1 else 0)" and "d400 = e400 + (if C then 1 else 0)"
    and "C \<longrightarrow> B" and "B \<longrightarrow> A"
  shows "365 * (y + 1) + d4 - d100 + d400 - 719468 =
    365 * y + e4 - e100 + e400 - 719468 + 365 + (if A \<and> (\<not> B \<or> C) then 1 else 0)"
proof (cases A)
  case True
  with assms show ?thesis by (cases B; cases C) (simp_all add: distrib_left)
next
  case False
  with assms have "\<not> B" "\<not> C" by blast+
  with False assms(1-3) show ?thesis by (simp add: distrib_left)
qed

lemma march_step: "march_days (y + 1) = march_days y + 365 + (if leap_year (y + 1) then 1 else 0)"
proof -
  have "(100 :: int) dvd 400" "(4 :: int) dvd 100" by simp_all
  then have d: "(y + 1) mod 400 = 0 \<Longrightarrow> (y + 1) mod 100 = 0" "(y + 1) mod 100 = 0 \<Longrightarrow> (y + 1) mod 4 = 0"
    unfolding mod_eq_0_iff_dvd by (blast intro: dvd_trans)+
  define A B C where "A \<longleftrightarrow> (y + 1) mod 4 = 0" and "B \<longleftrightarrow> (y + 1) mod 100 = 0" and "C \<longleftrightarrow> (y + 1) mod 400 = 0"
  note defs = A_def [symmetric] B_def [symmetric] C_def [symmetric]
  have "(y + 1) div 4 = y div 4 + (if A then 1 else 0)" "(y + 1) div 100 = y div 100 + (if B then 1 else 0)"
    "(y + 1) div 400 = y div 400 + (if C then 1 else 0)"
    unfolding A_def B_def C_def by (rule div_inc; simp)+
  moreover have "C \<longrightarrow> B" "B \<longrightarrow> A" using d unfolding defs by blast+
  ultimately show ?thesis
    unfolding march_days_def leap_year_def defs by (rule leap_arith)
qed

lemma month_cases:
  assumes "1 \<le> m" and "m \<le> (12 :: int)"
  shows "m = 1 \<or> m = 2 \<or> m = 3 \<or> m = 4 \<or> m = 5 \<or> m = 6 \<or> m = 7 \<or> m = 8 \<or> m = 9 \<or> m = 10 \<or> m = 11 \<or> m = 12"
  using assms by presburger

lemma days_next:
  assumes "valid_date (y, m, d)" and "next_day (y, m, d) = (y', m', d')"
  shows "days_from_civil y' m' d' = days_from_civil y m d + 1"
proof -
  from assms(1) have m: "1 \<le> m" "m \<le> 12" and d: "d \<le> month_days y m" by (simp_all add: valid_date_def)
  show ?thesis
  proof (cases "d < month_days y m")
    case True
    with assms(2) m show ?thesis by (auto simp: days_march)
  next
    case False
    then have d_eq: "d = month_days y m" using d by simp
    show ?thesis
      using month_cases [OF m] assms(2) False d_eq march_step [of "y - 1"]
      by (elim disjE) (auto simp: days_march month_days_def split: if_splits)
  qed
qed

lemma days_epoch: "days_from_civil 1970 1 1 = 0"
  by (simp add: days_march march_days_def)

subsection \<open>Text to seconds\<close>

definition digit_char :: "int \<Rightarrow> char" where
  "digit_char k = char_of (nat (48 + k))"

definition two :: "int \<Rightarrow> string" where
  "two n = [digit_char (n div 10), digit_char (n mod 10)]"

definition four :: "int \<Rightarrow> string" where
  "four n = two (n div 100) @ two (n mod 100)"

type_synonym utc = "(int \<times> int \<times> int) \<times> int \<times> int \<times> int"

fun iso_text :: "utc \<Rightarrow> string" where
  "iso_text ((y, m, d), h, mi, s) =
     four y @ CHR ''-'' # two m @ CHR ''-'' # two d @ CHR ''T'' # two h @ CHR '':'' # two mi @ CHR '':'' # two s @ ''Z''"

definition valid_utc :: "utc \<Rightarrow> bool" where
  "valid_utc = (\<lambda>(date, h, mi, s). valid_date date \<and> 0 \<le> h \<and> h \<le> 23 \<and> 0 \<le> mi \<and> mi \<le> 59 \<and> 0 \<le> s \<and> s \<le> 59)"

fun next_second :: "utc \<Rightarrow> utc" where
  "next_second (date, h, mi, s) =
     (if s < 59 then (date, h, mi, s + 1)
      else if mi < 59 then (date, h, mi + 1, 0)
      else if h < 23 then (date, h + 1, 0, 0)
      else (next_day date, 0, 0, 0))"

lemma digit_char_code: "n < 10 \<Longrightarrow> code (digit_char (int n)) = 48 + n"
  by (simp add: digit_char_def code_def nat_add_distrib)

lemma digit_char_props:
  assumes "0 \<le> k" and "k < 10"
  shows "is_digit (digit_char k)" "digit_val (digit_char k) = k" "\<not> isspace (digit_char k)"
    "digit_char k \<noteq> CHR ''-''" "digit_char k \<noteq> CHR ''+''"
proof -
  obtain n where n: "k = int n" "n < 10" using assms by (metis nonneg_int_cases of_nat_less_iff of_nat_numeral)
  have "code (digit_char k) \<noteq> code CHR ''-''" "code (digit_char k) \<noteq> code CHR ''+''"
    using n by (simp_all add: digit_char_code) (simp_all add: code_def)
  then show "digit_char k \<noteq> CHR ''-''" "digit_char k \<noteq> CHR ''+''" by auto
  show "is_digit (digit_char k)" "digit_val (digit_char k) = k" "\<not> isspace (digit_char k)"
    using n by (simp_all add: is_digit_def digit_val_def isspace_def digit_char_code)
qed

lemma takeWhile_stop: "\<forall>x \<in> set xs. P x \<Longrightarrow> q = [] \<or> \<not> P (hd q) \<Longrightarrow> takeWhile P (xs @ q) = xs"
  by (induction xs) (auto simp: takeWhile_eq_Nil_iff)

lemma dropWhile_stop: "\<forall>x \<in> set xs. P x \<Longrightarrow> q = [] \<or> \<not> P (hd q) \<Longrightarrow> dropWhile P (xs @ q) = q"
  by (induction xs) (auto simp: dropWhile_eq_self_iff)

lemma scan_digits:
  assumes "ds \<noteq> []" and "\<forall>k \<in> set ds. 0 \<le> k \<and> k < 10" and "q = [] \<or> \<not> is_digit (hd q)"
  shows "scan_int (map digit_char ds @ q) = Some (foldl (\<lambda>a k. 10 * a + k) 0 ds, q)"
proof -
  obtain k ks where ds: "ds = k # ks" using assms(1) by (cases ds) auto
  have all: "\<forall>x \<in> set (map digit_char ds). is_digit x" using assms(2) by (auto simp: digit_char_props)
  have t: "takeWhile is_digit (map digit_char ds @ q) = map digit_char ds"
    and d: "dropWhile is_digit (map digit_char ds @ q) = q"
    using takeWhile_stop [OF all assms(3)] dropWhile_stop [OF all assms(3)] by simp_all
  have v: "foldl (\<lambda>a x. 10 * a + digit_val x) n (map digit_char ks) = foldl (\<lambda>a k. 10 * a + k) n ks"
    if "\<forall>k \<in> set ks. 0 \<le> k \<and> k < 10" for n ks
    using that by (induction ks arbitrary: n) (simp_all add: digit_char_props)
  have k: "0 \<le> k" "k < 10" using assms(2) by (simp_all add: ds)
  have sp: "dropWhile isspace (map digit_char ds @ q) = map digit_char ds @ q"
    using digit_char_props [OF k] by (simp add: ds)
  have sg: "(case map digit_char ds @ q of x # r \<Rightarrow> if x = CHR ''-'' then (True, r) else if x = CHR ''+'' then (False, r)
      else (False, map digit_char ds @ q) | [] \<Rightarrow> (False, map digit_char ds @ q)) = (False, map digit_char ds @ q)"
    using digit_char_props [OF k] by (simp add: ds)
  show ?thesis
    by (simp only: scan_int_def Let_def sp sg prod.case t d v [OF assms(2)]) (simp add: assms(1))
qed

lemma scan_two_end:
  assumes "0 \<le> n" and "n < 100" and "q = [] \<or> \<not> is_digit (hd q)"
  shows "scan_int (two n @ q) = Some (n, q)"
proof -
  have "\<forall>k \<in> set [n div 10, n mod 10]. 0 \<le> k \<and> k < 10" using assms by auto
  from scan_digits [OF _ this assms(3)] show ?thesis by (simp add: two_def)
qed

lemma scan_two: "0 \<le> n \<Longrightarrow> n < 100 \<Longrightarrow> \<not> is_digit c \<Longrightarrow> scan_int (two n @ c # r) = Some (n, c # r)"
  by (rule scan_two_end) simp_all

lemma hundred: "10 * (10 * a + b) + c = 100 * a + (10 * b + c :: int)"
  by simp

lemma scan_four:
  assumes "0 \<le> n" and "n < 10000" and "\<not> is_digit c"
  shows "scan_int (four n @ c # r) = Some (n, c # r)"
proof -
  define q where "q = n div 100"
  have q: "0 \<le> q" "q < 100" "100 * q + n mod 100 = n" using assms by (simp_all add: q_def)
  have "\<forall>k \<in> set [q div 10, q mod 10, n mod 100 div 10, n mod 100 mod 10]. 0 \<le> k \<and> k < 10"
    using q by auto
  from scan_digits [OF _ this, of "c # r"] assms(3)
  have "scan_int (four n @ c # r) = Some (10 * (10 * (10 * (q div 10) + q mod 10) + n mod 100 div 10) + n mod 100 mod 10, c # r)"
    by (simp add: four_def two_def q_def)
  also have "10 * (10 * (10 * (q div 10) + q mod 10) + n mod 100 div 10) + n mod 100 mod 10 = n"
    by (simp only: mult_div_mod_eq hundred q(3))
  finally show ?thesis .
qed

lemma not_digits: "\<not> is_digit CHR ''-''" "\<not> is_digit CHR ''T''" "\<not> is_digit CHR '':''" "\<not> is_digit CHR ''Z''"
  by (simp_all add: is_digit_def code_def)

lemma month_days_le: "month_days y m \<le> 31"
  by (simp add: month_days_def)

lemma next_day_valid: "valid_date t \<Longrightarrow> valid_date (next_day t)"
proof -
  obtain y m d where t: "t = (y, m, d)" by (metis prod_cases3)
  have "1 \<le> month_days a b" for a b by (simp add: month_days_def)
  moreover assume "valid_date t"
  ultimately show ?thesis by (auto simp: t valid_date_def)
qed

lemma next_second_same_day:
  assumes "valid_utc (date, h, mi, s)" and "\<not> (s = 59 \<and> mi = 59 \<and> h = 23)"
  shows "\<exists>h' mi' s'. next_second (date, h, mi, s) = (date, h', mi', s') \<and> valid_utc (date, h', mi', s') \<and>
    h' * 3600 + mi' * 60 + s' = h * 3600 + mi * 60 + s + 1"
  using assms by (cases "s < 59"; cases "mi < 59") (auto simp: valid_utc_def)

lemma iso8601_text:
  assumes "valid_utc ((y, m, d), h, mi, s)" and "0 \<le> y" and "y < 10000"
  shows "iso8601_to_epoch (Some (iso_text ((y, m, d), h, mi, s))) = days_from_civil y m d * 86400 + h * 3600 + mi * 60 + s"
proof -
  have r: "1 \<le> m" "m \<le> 12" "1 \<le> d" "d \<le> 31" "0 \<le> h" "h \<le> 23" "0 \<le> mi" "mi \<le> 59" "0 \<le> s" "s \<le> 59"
    using assms(1) month_days_le [of y m] by (auto simp: valid_utc_def valid_date_def)
  then have "scan_fields ''--T::'' (iso_text ((y, m, d), h, mi, s)) = Some [y, m, d, h, mi, s]"
    using assms(2,3) by (simp add: scan_four scan_two not_digits)
  with r show ?thesis by (simp add: iso8601_to_epoch_def)
qed

text \<open>
  C38. Expiry times are counted right: read back from their ISO 8601 text, the seconds of the calendar are
  consecutive integers and 1970-01-01T00:00:00Z is 0, for every second of the years 0 to 9999, with the Gregorian
  leap years. So the parsed expiration is the number of seconds since the epoch.
\<close>

theorem expiration_counts_seconds:
  assumes "valid_utc t" and "0 \<le> fst (fst t)" and "fst (fst (next_second t)) < 10000"
  shows "iso8601_to_epoch (Some (iso_text (next_second t))) = iso8601_to_epoch (Some (iso_text t)) + 1 \<and>
    iso8601_to_epoch (Some ''1970-01-01T00:00:00Z'') = 0"
proof -
  obtain y m d h mi sec where t: "t = ((y, m, d), h, mi, sec)" by (metis prod_cases3)
  obtain y' m' d' where n: "next_day (y, m, d) = (y', m', d')" by (metis prod_cases3)
  from assms(1) have v: "valid_date (y, m, d)" and r: "0 \<le> h" "h \<le> 23" "0 \<le> mi" "mi \<le> 59" "0 \<le> sec" "sec \<le> 59"
    by (simp_all add: t valid_utc_def)
  have y': "y \<le> y'" using n by (auto split: if_splits)
  have v': "valid_date (y', m', d')" using next_day_valid [OF v] by (simp only: n)
  have y: "0 \<le> y" "y < 10000"
    using assms(2,3) y' by (auto simp: t n simp del: next_day.simps split: if_splits)
  have epoch: "iso8601_to_epoch (Some ''1970-01-01T00:00:00Z'') = 0"
    using iso8601_text [of 1970 1 1 0 0 0]
    by (simp add: valid_utc_def valid_date_def month_days_def days_epoch four_def two_def digit_char_def char_of_def bit_0)
  note iso_eq = iso8601_text [OF _ y]
  note here = iso_eq [OF assms(1) [unfolded t]]
  show ?thesis
  proof (cases "sec = 59 \<and> mi = 59 \<and> h = 23")
    case True
    then have "next_second t = ((y', m', d'), 0, 0, 0)" by (simp add: t n del: next_day.simps)
    moreover from this assms(3) have "y' < 10000" by simp
    moreover have "valid_utc ((y', m', d'), 0, 0, 0)" using v' by (simp add: valid_utc_def)
    ultimately show ?thesis
      using iso8601_text [of y' m' d' 0 0 0] here True days_next [OF v n] y y' epoch
      by (simp add: t del: next_day.simps iso_text.simps)
  next
    case False
    then obtain h' mi' sec' where ns: "next_second t = ((y, m, d), h', mi', sec')" "valid_utc ((y, m, d), h', mi', sec')"
      "h' * 3600 + mi' * 60 + sec' = h * 3600 + mi * 60 + sec + 1"
      using next_second_same_day [OF assms(1) [unfolded t]] unfolding t by blast
    with iso_eq [OF ns(2)] here epoch show ?thesis by (simp add: t del: next_day.simps iso_text.simps next_second.simps)
  qed
qed

theorem expiration_counts_seconds_witness:
  "iso8601_to_epoch (Some (iso_text (next_second ((2024, 2, 28), 23, 59, 59)))) =
    iso8601_to_epoch (Some (iso_text ((2024, 2, 28), 23, 59, 59))) + 1"
  using expiration_counts_seconds [of "((2024, 2, 28), 23, 59, 59)"]
  by (simp add: valid_utc_def valid_date_def month_days_def leap_year_def del: iso_text.simps)

subsection \<open>The signing date\<close>

text \<open>\<open>gmtime_r\<close>: the calendar day \<open>n\<close> days from the epoch, counted day by day.\<close>

fun prev_day :: "int \<times> int \<times> int \<Rightarrow> int \<times> int \<times> int" where
  "prev_day (y, m, d) =
     (if d > 1 then (y, m, d - 1) else if m > 1 then (y, m - 1, month_days y (m - 1)) else (y - 1, 12, 31))"

definition gmtime_days :: "int \<Rightarrow> int \<times> int \<times> int" where
  "gmtime_days n = (if n \<ge> 0 then (next_day ^^ nat n) (1970, 1, 1) else (prev_day ^^ nat (- n)) (1970, 1, 1))"

text \<open>\<open>strftime\<close> gives 16 characters only for years of four digits.\<close>

definition make_amz_date :: "int \<Rightarrow> esp_err \<times> string" where
  "make_amz_date now =
     (let (y, m, d) = gmtime_days (now div 86400); s = now mod 86400
      in if y < - (2 ^ 31) + 1900 \<or> y \<ge> 2 ^ 31 + 1900 then (ESP_ERR_INVALID_ARG, [])
         else if y < 1000 \<or> y > 9999 then (ESP_FAIL, [])
         else (ESP_OK, four y @ two m @ two d @ CHR ''T'' # two (s div 3600) @ two (s div 60 mod 60) @ two (s mod 60) @ ''Z''))"

lemma gmtime_valid:
  assumes "0 \<le> n"
  shows "valid_date (gmtime_days n) \<and> (case gmtime_days n of (y, m, d) \<Rightarrow> days_from_civil y m d = n)"
proof -
  have "valid_date ((next_day ^^ k) (1970, 1, 1)) \<and> (case (next_day ^^ k) (1970, 1, 1) of (y, m, d) \<Rightarrow> days_from_civil y m d = int k)" for k
  proof (induction k)
    case 0
    then show ?case by (simp add: days_epoch valid_date_def month_days_def)
  next
    case (Suc k)
    obtain y m d where k: "(next_day ^^ k) (1970, 1, 1) = (y, m, d)" by (metis prod_cases3)
    obtain y' m' d' where n: "next_day (y, m, d) = (y', m', d')" by (metis prod_cases3)
    from Suc k have v: "valid_date (y, m, d)" "days_from_civil y m d = int k" by simp_all
    have "(next_day ^^ Suc k) (1970, 1, 1) = (y', m', d')" by (simp add: k n del: next_day.simps)
    with next_day_valid [OF v(1)] days_next [OF v(1) n] v(2) show ?case by (simp add: n del: next_day.simps)
  qed
  from this [of "nat n"] assms show ?thesis by (simp add: gmtime_days_def)
qed

lemma length_two [simp]: "length (two n) = 2" and length_four [simp]: "length (four n) = 4"
  by (simp_all add: two_def four_def)

lemma amz_date_length: "make_amz_date now = (ESP_OK, s) \<Longrightarrow> length s = 16"
  by (auto simp: make_amz_date_def Let_def split: prod.splits if_splits)

end
