(* ===== verification/Aws_Accum.thy ===== *)
theory Aws_Accum
  imports Rmk_Prelude
begin

section \<open>AWS signing: the response accumulator\<close>

text \<open>
  \<open>components/rmaker_aws_sign/src/esp_rmaker_aws_sign_accum.c\<close>: the buffer both HTTP paths stream a response body into.
  The buffer is a block of heap cells; a cell that was allocated and never written is \<open>None\<close>. An operation is \<open>None\<close> when it writes
  outside the block or does not end. \<open>deliver\<close> is how a port drives the receiver (\<open>esp_rmaker_aws_sign.h\<close>): the hint
  once, then the chunks, stopping at the first callback that refuses.
\<close>

definition ACCUM_MIN_CAP :: nat where "ACCUM_MIN_CAP = 512"

type_synonym cells = "char option list"

record accum =
  ac_buf :: "cells option"
  ac_len :: nat
  ac_cap :: nat
  ac_limit :: nat
  ac_status :: esp_err
  ac_got_response :: bool

definition accum_init :: "nat \<Rightarrow> accum" where
  "accum_init limit = \<lparr>ac_buf = None, ac_len = 0, ac_cap = 0, ac_limit = limit, ac_status = ESP_OK, ac_got_response = False\<rparr>"

definition accum_reset :: "accum \<Rightarrow> accum option" where
  "accum_reset a =
     (let a1 = a\<lparr>ac_len := 0, ac_status := ESP_OK, ac_got_response := False\<rparr>
      in case ac_buf a of
           None \<Rightarrow> Some a1
         | Some b \<Rightarrow> map_option (\<lambda>b'. a1\<lparr>ac_buf := Some b'\<rparr>) (wr b 0 (Some CHR 0x00)))"

text \<open>The freed accumulator; wiping the body is not modelled.\<close>

definition accum_free :: "accum \<Rightarrow> accum" where
  "accum_free a = a\<lparr>ac_buf := None, ac_len := 0, ac_cap := 0\<rparr>"

partial_function (option) grow_cap :: "nat \<Rightarrow> nat \<Rightarrow> nat option" where
  "grow_cap cap target = (if cap < target then grow_cap (usize (cap * 2)) target else Some cap)"

text \<open>\<open>malloc_ok\<close> says which sizes the allocator grants. The copy and the wipe of the old buffer read \<open>len\<close> cells of it.\<close>

definition accum_reserve :: "(nat \<Rightarrow> bool) \<Rightarrow> nat \<Rightarrow> bool \<Rightarrow> accum \<Rightarrow> (esp_err \<times> accum) option" where
  "accum_reserve malloc_ok need exact a =
     (if need > ac_limit a then Some (ESP_ERR_INVALID_SIZE, a\<lparr>ac_status := ESP_ERR_INVALID_SIZE\<rparr>)
      else if usize (need + 1) \<le> ac_cap a then Some (ESP_OK, a)
      else
        case (if exact then Some (usize (need + 1))
              else map_option (\<lambda>cap. if cap > usize (ac_limit a + 1) then usize (ac_limit a + 1) else cap)
                     (grow_cap (if ac_cap a \<noteq> 0 then ac_cap a else ACCUM_MIN_CAP) (usize (need + 1)))) of
          None \<Rightarrow> None
        | Some cap \<Rightarrow>
            if \<not> malloc_ok cap then Some (ESP_ERR_NO_MEM, a\<lparr>ac_status := ESP_ERR_NO_MEM\<rparr>)
            else case (if ac_len a = 0 then Some []
                       else case ac_buf a of None \<Rightarrow> None | Some b \<Rightarrow> rd_n b 0 (int (ac_len a))) of
              None \<Rightarrow> None
            | Some old \<Rightarrow>
                map_option (\<lambda>buf. (ESP_OK, a\<lparr>ac_buf := Some buf, ac_cap := cap\<rparr>)) (wr_n (replicate cap None) 0 old))"

definition accum_hint :: "(nat \<Rightarrow> bool) \<Rightarrow> nat \<Rightarrow> accum \<Rightarrow> (int \<times> accum) option" where
  "accum_hint malloc_ok content_length a =
     (let a1 = a\<lparr>ac_got_response := True\<rparr>
      in if content_length = 0 then Some (0, a1)
         else map_option (\<lambda>(err, a2). (if err = ESP_OK then 0 else -1, a2)) (accum_reserve malloc_ok content_length True a1))"

definition accum_sink :: "(nat \<Rightarrow> bool) \<Rightarrow> string \<Rightarrow> accum \<Rightarrow> (int \<times> accum) option" where
  "accum_sink malloc_ok data a =
     (case accum_reserve malloc_ok (usize (ac_len a + length data)) False (a\<lparr>ac_got_response := True\<rparr>) of
        None \<Rightarrow> None
      | Some (err, a2) \<Rightarrow>
          if err \<noteq> ESP_OK then Some (0, a2)
          else case ac_buf a2 of
            None \<Rightarrow> None
          | Some b \<Rightarrow>
              (case wr_n b (int (ac_len a2)) (map Some data) of
                 None \<Rightarrow> None
               | Some b1 \<Rightarrow>
                   (case wr b1 (int (ac_len a2 + length data)) (Some CHR 0x00) of
                      None \<Rightarrow> None
                    | Some b2 \<Rightarrow> Some (c_int (length data), a2\<lparr>ac_buf := Some b2, ac_len := ac_len a2 + length data\<rparr>))))"

text \<open>The receiver protocol; the flag says whether a callback refused.\<close>

fun deliver_chunks :: "(nat \<Rightarrow> bool) \<Rightarrow> string list \<Rightarrow> accum \<Rightarrow> (bool \<times> accum) option" where
  "deliver_chunks malloc_ok [] a = Some (True, a)"
| "deliver_chunks malloc_ok (c # cs) a =
     (case accum_sink malloc_ok c a of
        None \<Rightarrow> None
      | Some (n, a') \<Rightarrow> if n < int (length c) then Some (False, a') else deliver_chunks malloc_ok cs a')"

definition deliver :: "(nat \<Rightarrow> bool) \<Rightarrow> nat \<Rightarrow> string list \<Rightarrow> accum \<Rightarrow> (bool \<times> accum) option" where
  "deliver malloc_ok content_length chunks a =
     (case accum_hint malloc_ok content_length a of
        None \<Rightarrow> None
      | Some (n, a') \<Rightarrow> if n \<noteq> 0 then Some (False, a') else deliver_chunks malloc_ok chunks a')"

subsection \<open>The accumulator holds a prefix of the body\<close>

definition holds :: "accum \<Rightarrow> string \<Rightarrow> bool" where
  "holds a body \<longleftrightarrow>
     ac_limit a < 2 ^ 31 \<and> ac_len a = length body \<and> length body \<le> ac_limit a \<and> ac_cap a \<le> ac_limit a + 1 \<and>
     (case ac_buf a of
        None \<Rightarrow> ac_cap a = 0 \<and> body = []
      | Some b \<Rightarrow> length b = ac_cap a \<and> length body < ac_cap a \<and> take (length body) b = map Some body)"

definition terminated :: "accum \<Rightarrow> bool" where
  "terminated a \<longleftrightarrow> (\<exists>b. ac_buf a = Some b \<and> ac_len a < length b \<and> b ! ac_len a = Some CHR 0x00)"

lemma holds_flags [simp]:
  "holds (a\<lparr>ac_got_response := g\<rparr>) body = holds a body" "holds (a\<lparr>ac_status := e\<rparr>) body = holds a body"
  by (cases "ac_buf a"; simp add: holds_def)+

lemma holds_init: "limit < 2 ^ 31 \<Longrightarrow> holds (accum_init limit) []"
  by (simp add: holds_def accum_init_def)

lemma accum_reset_buf:
  "ac_buf a = Some b \<Longrightarrow> wr b 0 (Some CHR 0x00) = Some c \<Longrightarrow>
    accum_reset a = Some (a\<lparr>ac_len := 0, ac_status := ESP_OK, ac_got_response := False, ac_buf := Some c\<rparr>)"
  by (simp add: accum_reset_def)

lemma holds_empty:
  "0 < length c \<Longrightarrow> length c = ac_cap a \<Longrightarrow> ac_limit a < 2 ^ 31 \<Longrightarrow> ac_cap a \<le> ac_limit a + 1 \<Longrightarrow>
    holds (a\<lparr>ac_len := 0, ac_status := ESP_OK, ac_got_response := False, ac_buf := Some c\<rparr>) []"
  by (simp add: holds_def)

lemma holds_reset:
  assumes "holds a body"
  shows "\<exists>a'. accum_reset a = Some a' \<and> holds a' [] \<and> ac_status a' = ESP_OK \<and> \<not> ac_got_response a' \<and> ac_limit a' = ac_limit a"
proof (cases "ac_buf a")
  case None
  with assms show ?thesis by (simp add: holds_def accum_reset_def)
next
  case (Some b)
  with assms have b: "0 < length b" "length b = ac_cap a" and l: "ac_limit a < 2 ^ 31" "ac_cap a \<le> ac_limit a + 1"
    by (auto simp: holds_def)
  define c where "c = b[0 := Some CHR 0x00]"
  from b(1) have "wr b 0 (Some CHR 0x00) = Some c" by (simp add: wr_def c_def)
  from accum_reset_buf [OF Some this] holds_empty [of c a] b l show ?thesis by (auto simp: c_def)
qed

lemma grow_cap_reaches: "0 < cap \<Longrightarrow> target \<le> 2 ^ 31 \<Longrightarrow> \<exists>c. grow_cap cap target = Some c \<and> target \<le> c"
proof (induction "target - cap" arbitrary: cap rule: less_induct)
  case less
  show ?case
  proof (cases "cap < target")
    case True
    have "cap * 2 < 2 ^ 32" using True less.prems(2) by simp
    then have "grow_cap cap target = grow_cap (cap * 2) target" using True by (subst grow_cap.simps) simp
    moreover have "target - cap * 2 < target - cap" using True less.prems(1) by simp
    ultimately show ?thesis using less.hyps [of "cap * 2"] less.prems by simp
  next
    case False
    then show ?thesis by (subst grow_cap.simps) simp
  qed
qed

lemma reserve_cases:
  assumes h: "holds a body" and n: "length body \<le> need" "need < 2 ^ 32"
  shows "\<exists>err a'. accum_reserve m need exact a = Some (err, a') \<and> holds a' body \<and>
    ac_limit a' = ac_limit a \<and> ac_got_response a' = ac_got_response a \<and>
    (err = ESP_OK \<longrightarrow> ac_status a' = ac_status a \<and> need < ac_cap a' \<and> need \<le> ac_limit a \<and>
      (exact \<and> ac_cap a = 0 \<longrightarrow> ac_cap a' = need + 1 \<and> ac_buf a' = Some (replicate (need + 1) None)) \<and>
      (need < ac_cap a \<longrightarrow> a' = a)) \<and>
    (err \<noteq> ESP_OK \<longrightarrow> ac_status a' = err \<and> (err = ESP_ERR_INVALID_SIZE \<and> ac_limit a < need \<or> err = ESP_ERR_NO_MEM \<and> need \<le> ac_limit a)) \<and>
    ((\<forall>k. m k) \<longrightarrow> err \<noteq> ESP_ERR_NO_MEM)"
proof -
  have lim: "ac_limit a < 2 ^ 31" and len: "ac_len a = length body" using h by (simp_all add: holds_def)
  consider "ac_limit a < need" | "need \<le> ac_limit a" "need < ac_cap a" | "need \<le> ac_limit a" "ac_cap a \<le> need" by linarith
  then show ?thesis
  proof cases
    case 1
    then show ?thesis using h by (auto simp: accum_reserve_def holds_def split: option.splits)
  next
    case 2
    then show ?thesis using h lim by (auto simp: accum_reserve_def)
  next
    case 3
    then have u: "usize (need + 1) = need + 1" "usize (ac_limit a + 1) = ac_limit a + 1" "\<not> usize (need + 1) \<le> ac_cap a"
      using lim by simp_all
    let ?start = "if ac_cap a \<noteq> 0 then ac_cap a else ACCUM_MIN_CAP"
    have "0 < ?start" by (simp add: ACCUM_MIN_CAP_def)
    then obtain g where g: "grow_cap ?start (need + 1) = Some g" "need + 1 \<le> g"
      using grow_cap_reaches [of ?start "need + 1"] 3(1) lim by auto
    define cap where "cap = (if exact then need + 1 else if g > ac_limit a + 1 then ac_limit a + 1 else g)"
    have cap: "need < cap" "cap \<le> ac_limit a + 1" "0 < cap" using g(2) 3 by (auto simp: cap_def)
    have pick: "(if exact then Some (usize (need + 1))
        else map_option (\<lambda>cap. if cap > usize (ac_limit a + 1) then usize (ac_limit a + 1) else cap) (grow_cap ?start (usize (need + 1)))) = Some cap"
      by (simp only: u g) (simp add: cap_def)
    obtain old where old: "(if ac_len a = 0 then Some [] else case ac_buf a of None \<Rightarrow> None | Some b \<Rightarrow> rd_n b 0 (int (ac_len a))) = Some old"
      "old = map Some body"
      using h by (cases "ac_buf a") (auto simp: holds_def rd_n_def)
    have w: "wr_n (replicate cap None) 0 old = Some (map Some body @ replicate (cap - length body) None)"
      using cap(1) n(1) by (simp add: wr_n_def old(2))
    show ?thesis
    proof (cases "m cap")
      case True
      then have "accum_reserve m need exact a =
          Some (ESP_OK, a\<lparr>ac_buf := Some (map Some body @ replicate (cap - length body) None), ac_cap := cap\<rparr>)"
        using 3(1) u(3) by (simp add: accum_reserve_def pick old(1) w del: u)
      moreover have "holds (a\<lparr>ac_buf := Some (map Some body @ replicate (cap - length body) None), ac_cap := cap\<rparr>) body"
        using h cap n(1) by (simp add: holds_def)
      moreover have "exact \<and> ac_cap a = 0 \<longrightarrow> cap = need + 1 \<and> body = []"
        using h by (auto simp: cap_def holds_def split: option.splits)
      ultimately show ?thesis using cap 3 by auto
    next
      case False
      then have "accum_reserve m need exact a = Some (ESP_ERR_NO_MEM, a\<lparr>ac_status := ESP_ERR_NO_MEM\<rparr>)"
        using 3(1) u(3) by (simp add: accum_reserve_def pick del: u)
      then show ?thesis using h False 3 by (auto simp: holds_def split: option.splits)
    qed
  qed
qed

lemma sink_cases:
  assumes h: "holds a body" and c: "data \<noteq> []" "length data < 2 ^ 31"
  shows "\<exists>n a'. accum_sink m data a = Some (n, a') \<and> ac_limit a' = ac_limit a \<and> ac_got_response a' \<and>
    (n = int (length data) \<and> holds a' (body @ data) \<and> terminated a' \<and> ac_status a' = ac_status a \<and>
       length (body @ data) \<le> ac_limit a \<and> (length (body @ data) < ac_cap a \<longrightarrow> ac_cap a' = ac_cap a)
     \<or> n = 0 \<and> holds a' body \<and> (ac_status a' = ESP_ERR_INVALID_SIZE \<and> ac_limit a < length (body @ data) \<or>
         ac_status a' = ESP_ERR_NO_MEM \<and> \<not> (\<forall>k. m k)))"
proof -
  let ?a = "a\<lparr>ac_got_response := True\<rparr>"
  have h1: "holds ?a body" using h by simp
  have len: "ac_len a = length body" "length body < 2 ^ 31" using h by (simp_all add: holds_def)
  let ?need = "length body + length data"
  have need: "?need < 2 ^ 32" "usize (ac_len a + length data) = ?need" using len c(2) by simp_all
  from reserve_cases [OF h1 _ need(1), of m False] obtain err a2 where
    r: "accum_reserve m ?need False ?a = Some (err, a2)" and h2: "holds a2 body" and lim: "ac_limit a2 = ac_limit a"
    and got: "ac_got_response a2" and
    ok: "err = ESP_OK \<Longrightarrow> ac_status a2 = ac_status a \<and> ?need < ac_cap a2 \<and> ?need \<le> ac_limit a \<and> (?need < ac_cap a \<longrightarrow> a2 = ?a)" and
    bad: "err \<noteq> ESP_OK \<Longrightarrow> ac_status a2 = err \<and> (err = ESP_ERR_INVALID_SIZE \<and> ac_limit a < ?need \<or> err = ESP_ERR_NO_MEM)" and
    mem: "(\<forall>k. m k) \<Longrightarrow> err \<noteq> ESP_ERR_NO_MEM" by auto
  show ?thesis
  proof (cases "err = ESP_OK")
    case False
    then show ?thesis using bad mem by (auto simp: accum_sink_def need(2) r h2 lim got)
  next
    case True
    obtain b where b: "ac_buf a2 = Some b" "length b = ac_cap a2" "take (length body) b = map Some body"
      using h2 ok [OF True] by (cases "ac_buf a2") (auto simp: holds_def)
    have l2: "ac_len a2 = length body" using h2 by (simp add: holds_def)
    have fit: "?need < length b" using ok [OF True] b(2) by simp
    define b1 where "b1 = map Some body @ map Some data @ drop ?need b"
    have b1: "wr_n b (int (length body)) (map Some data) = Some b1" "length b1 = length b"
      using fit b(3) by (simp_all add: wr_n_def b1_def)
    define b2 where "b2 = b1[?need := Some CHR 0x00]"
    have b2: "wr b1 (int ?need) (Some CHR 0x00) = Some b2"
      using fit b1(2) by (simp add: wr_def b2_def nat_add_distrib)
    have t2: "take ?need b2 = map Some (body @ data)" by (simp add: b2_def b1_def)
    have n2: "b2 ! ?need = Some CHR 0x00" "length b2 = length b" using fit b1(2) by (simp_all add: b2_def)
    let ?r = "a2\<lparr>ac_buf := Some b2, ac_len := ac_len a2 + length data\<rparr>"
    have "accum_sink m data a = Some (int (length data), ?r)"
      using c(2) True by (simp add: accum_sink_def need(2) r b(1) l2 b1(1) b2 [simplified])
    moreover have "holds ?r (body @ data)"
      using h2 ok [OF True] t2 n2(2) b(2) by (simp add: holds_def lim l2)
    moreover have "terminated ?r" using n2 fit by (simp add: terminated_def l2)
    ultimately show ?thesis using ok [OF True] lim got by auto
  qed
qed

lemma chunks_cases:
  assumes "holds a body" and "\<forall>c \<in> set chunks. c \<noteq> [] \<and> length c < 2 ^ 31" and "ac_status a = ESP_OK"
  shows "\<exists>ok a' got. deliver_chunks m chunks a = Some (ok, a') \<and> holds a' (body @ got) \<and> ac_limit a' = ac_limit a \<and>
    (ac_got_response a \<longrightarrow> ac_got_response a') \<and>
    (ok \<longrightarrow> got = concat chunks \<and> ac_status a' = ESP_OK \<and> (if chunks = [] then a' = a else terminated a')) \<and>
    (\<not> ok \<longrightarrow> ac_status a' = ESP_ERR_INVALID_SIZE \<and> ac_limit a < length (body @ concat chunks) \<or>
       ac_status a' = ESP_ERR_NO_MEM \<and> \<not> (\<forall>k. m k)) \<and>
    (ok \<and> length (body @ concat chunks) < ac_cap a \<longrightarrow> ac_cap a' = ac_cap a)"
  using assms
proof (induction chunks arbitrary: a body)
  case Nil
  show ?case by (intro exI [of _ True] exI [of _ a] exI [of _ "[]"]) (use Nil in simp)
next
  case (Cons c cs)
  from Cons.prems(2) have c: "c \<noteq> []" "length c < 2 ^ 31" and cs: "\<forall>c \<in> set cs. c \<noteq> [] \<and> length c < 2 ^ 31" by simp_all
  from sink_cases [OF Cons.prems(1) c, of m] obtain n a1 where s: "accum_sink m c a = Some (n, a1)" "ac_limit a1 = ac_limit a" "ac_got_response a1"
    and alt: "n = int (length c) \<and> holds a1 (body @ c) \<and> terminated a1 \<and> ac_status a1 = ac_status a \<and>
       length (body @ c) \<le> ac_limit a \<and> (length (body @ c) < ac_cap a \<longrightarrow> ac_cap a1 = ac_cap a)
     \<or> n = 0 \<and> holds a1 body \<and> (ac_status a1 = ESP_ERR_INVALID_SIZE \<and> ac_limit a < length (body @ c) \<or>
         ac_status a1 = ESP_ERR_NO_MEM \<and> \<not> (\<forall>k. m k))" by blast
  from alt show ?case
  proof
    assume b: "n = 0 \<and> holds a1 body \<and> (ac_status a1 = ESP_ERR_INVALID_SIZE \<and> ac_limit a < length (body @ c) \<or>
         ac_status a1 = ESP_ERR_NO_MEM \<and> \<not> (\<forall>k. m k))"
    then have "deliver_chunks m (c # cs) a = Some (False, a1)" using c(1) s(1) by simp
    then show ?thesis using b s(2,3) by (intro exI [of _ False] exI [of _ a1] exI [of _ "[]"]) auto
  next
    assume g: "n = int (length c) \<and> holds a1 (body @ c) \<and> terminated a1 \<and> ac_status a1 = ac_status a \<and>
       length (body @ c) \<le> ac_limit a \<and> (length (body @ c) < ac_cap a \<longrightarrow> ac_cap a1 = ac_cap a)"
    then have d: "deliver_chunks m (c # cs) a = deliver_chunks m cs a1" using s(1) by simp
    have st: "ac_status a1 = ESP_OK" using g Cons.prems(3) by simp
    from Cons.IH [OF _ cs st, of "body @ c"] g obtain ok a' got where ih:
      "deliver_chunks m cs a1 = Some (ok, a')" "holds a' ((body @ c) @ got)" "ac_limit a' = ac_limit a1"
      "ok \<longrightarrow> got = concat cs \<and> ac_status a' = ESP_OK \<and> (if cs = [] then a' = a1 else terminated a')"
      "\<not> ok \<longrightarrow> ac_status a' = ESP_ERR_INVALID_SIZE \<and> ac_limit a1 < length ((body @ c) @ concat cs) \<or>
        ac_status a' = ESP_ERR_NO_MEM \<and> \<not> (\<forall>k. m k)"
      "ok \<and> length ((body @ c) @ concat cs) < ac_cap a1 \<longrightarrow> ac_cap a' = ac_cap a1" and rsp: "ac_got_response a'"
      using s(3) by blast
    have t: "terminated a'" if ok using ih(4) that g by (cases "cs = []") auto
    have cap: "ok \<and> length (body @ concat (c # cs)) < ac_cap a \<longrightarrow> ac_cap a' = ac_cap a"
      using ih(6) g by auto
    show ?thesis unfolding d
      by (intro exI [of _ ok] exI [of _ a'] exI [of _ "c @ got"]) (use ih(1-5) s(2) t cap rsp in simp)
  qed
qed

lemma hint_cases:
  assumes h: "holds a []" and "ac_status a = ESP_OK" and cl: "cl < 2 ^ 32"
  shows "\<exists>n a'. accum_hint m cl a = Some (n, a') \<and> holds a' [] \<and> ac_limit a' = ac_limit a \<and> ac_got_response a' \<and>
    (n = 0 \<and> ac_status a' = ESP_OK \<and> cl \<le> ac_limit a \<and>
       (0 < cl \<and> ac_cap a = 0 \<longrightarrow> ac_cap a' = cl + 1 \<and> ac_buf a' = Some (replicate (cl + 1) None))
     \<or> n \<noteq> 0 \<and> (ac_status a' = ESP_ERR_INVALID_SIZE \<and> ac_limit a < cl \<or> ac_status a' = ESP_ERR_NO_MEM \<and> \<not> (\<forall>k. m k)))"
proof (cases "cl = 0")
  case True
  then show ?thesis using assms by (simp add: accum_hint_def)
next
  case False
  have h1: "holds (a\<lparr>ac_got_response := True\<rparr>) []" using h by simp
  have c1: "ac_cap (a\<lparr>ac_got_response := True\<rparr>) = ac_cap a" "ac_status (a\<lparr>ac_got_response := True\<rparr>) = ac_status a"
    "ac_limit (a\<lparr>ac_got_response := True\<rparr>) = ac_limit a" "ac_got_response (a\<lparr>ac_got_response := True\<rparr>) = True" by simp_all
  have "length ([] :: string) \<le> cl" by simp
  from reserve_cases [OF h1 this cl, of m True, unfolded c1] obtain err a' where
    r: "accum_reserve m cl True (a\<lparr>ac_got_response := True\<rparr>) = Some (err, a')" "holds a' []" "ac_limit a' = ac_limit a" "ac_got_response a'"
    and ok: "err = ESP_OK \<longrightarrow> ac_status a' = ac_status a \<and> cl \<le> ac_limit a \<and>
      (ac_cap a = 0 \<longrightarrow> ac_cap a' = cl + 1 \<and> ac_buf a' = Some (replicate (cl + 1) None))"
    and bad: "err \<noteq> ESP_OK \<longrightarrow> ac_status a' = err \<and> (err = ESP_ERR_INVALID_SIZE \<and> ac_limit a < cl \<or> err = ESP_ERR_NO_MEM)"
    and mem: "(\<forall>k. m k) \<longrightarrow> err \<noteq> ESP_ERR_NO_MEM" by blast
  show ?thesis
  proof (cases "err = ESP_OK")
    case True
    then show ?thesis using ok r(2-4) assms(2) False by (simp add: accum_hint_def r(1))
  next
    case err: False
    then have "accum_hint m cl a = Some (-1, a')" using False by (simp add: accum_hint_def r(1))
    moreover have "(-1 :: int) \<noteq> 0" by simp
    ultimately show ?thesis using err bad mem r(2-4) by metis
  qed
qed

lemma deliver_cases:
  assumes h: "holds a []" "ac_status a = ESP_OK" and cl: "cl < 2 ^ 32" and c: "\<forall>c \<in> set chunks. c \<noteq> [] \<and> length c < 2 ^ 31"
  shows "\<exists>ok a' got. deliver m cl chunks a = Some (ok, a') \<and> holds a' got \<and> ac_limit a' = ac_limit a \<and> ac_got_response a' \<and>
    (ok \<longleftrightarrow> ac_status a' = ESP_OK) \<and> (ok \<longrightarrow> got = concat chunks)"
proof -
  from hint_cases [OF h cl, of m] obtain n a1 where
    hint: "accum_hint m cl a = Some (n, a1)" and h1: "holds a1 []" "ac_limit a1 = ac_limit a" "ac_got_response a1" and
    alt: "n = 0 \<and> ac_status a1 = ESP_OK \<or> n \<noteq> 0 \<and> ac_status a1 \<noteq> ESP_OK" by fastforce
  show ?thesis
  proof (cases "n = 0")
    case False
    with alt h1 show ?thesis by (auto simp: deliver_def hint)
  next
    case True
    with alt have "ac_status a1 = ESP_OK" by simp
    from chunks_cases [OF h1(1) c this, of m, unfolded append_Nil] obtain ok a' got where
      d: "deliver_chunks m chunks a1 = Some (ok, a')" "holds a' got" "ac_limit a' = ac_limit a1" "ac_got_response a'" and
      good: "ok \<longrightarrow> got = concat chunks \<and> ac_status a' = ESP_OK" and bad: "\<not> ok \<longrightarrow> ac_status a' \<noteq> ESP_OK"
      using h1(3) by fastforce
    have "deliver m cl chunks a = Some (ok, a')" by (simp add: deliver_def hint True d)
    with d(2-4) good bad h1(2) show ?thesis by (intro exI [of _ ok] exI [of _ a'] exI [of _ got]) auto
  qed
qed

text \<open>C28.
  The accumulator collects a body whole or not at all. Driven by the hint and any sequence of non-empty chunks, it never
  writes outside its buffer and never holds more than the limit and the terminator. When no callback refuses, the buffer is the
  chunks in order followed by NUL; when one does, the status says why, and with an allocator that does not fail it is exactly the
  bodies that declare or reach more than the limit that are refused. A declared length is allocated once and exactly. A non-zero
  hint with no body leaves a buffer whose first byte was never written: no terminator is at \<open>len\<close>.\<close>

theorem accum_collects:
  assumes "limit < 2 ^ 31" and "content_length < 2 ^ 32" and "\<forall>c \<in> set chunks. c \<noteq> [] \<and> length c < 2 ^ 31"
  shows "\<exists>ok a. deliver malloc_ok content_length chunks (accum_init limit) = Some (ok, a) \<and> ac_cap a \<le> limit + 1 \<and>
    (ok \<longleftrightarrow> ac_status a = ESP_OK) \<and> (\<not> ok \<longrightarrow> ac_status a = ESP_ERR_INVALID_SIZE \<or> ac_status a = ESP_ERR_NO_MEM) \<and>
    ((\<forall>k. malloc_ok k) \<longrightarrow> (ok \<longleftrightarrow> content_length \<le> limit \<and> length (concat chunks) \<le> limit)) \<and>
    (ok \<longrightarrow> ac_len a = length (concat chunks) \<and>
      (chunks \<noteq> [] \<longrightarrow> (\<exists>b. ac_buf a = Some b \<and> take (ac_len a + 1) b = map Some (concat chunks @ [CHR 0x00]))) \<and>
      (0 < content_length \<and> length (concat chunks) \<le> content_length \<longrightarrow> ac_cap a = content_length + 1) \<and>
      (0 < content_length \<and> chunks = [] \<longrightarrow> (\<exists>b. ac_buf a = Some b \<and> b ! ac_len a = None)))"
proof -
  let ?i = "accum_init limit"
  have i: "holds ?i []" "ac_status ?i = ESP_OK" "ac_cap ?i = 0" "ac_limit ?i = limit" using holds_init [OF assms(1)] by (simp_all add: accum_init_def)
  from hint_cases [OF i(1,2) assms(2), of malloc_ok] obtain n a1 where
    hint: "accum_hint malloc_ok content_length ?i = Some (n, a1)" and h1: "holds a1 []" "ac_limit a1 = limit" and
    alt: "n = 0 \<and> ac_status a1 = ESP_OK \<and> content_length \<le> limit \<and>
       (0 < content_length \<longrightarrow> ac_cap a1 = content_length + 1 \<and> ac_buf a1 = Some (replicate (content_length + 1) None))
     \<or> n \<noteq> 0 \<and> (ac_status a1 = ESP_ERR_INVALID_SIZE \<and> limit < content_length \<or> ac_status a1 = ESP_ERR_NO_MEM \<and> \<not> (\<forall>k. malloc_ok k))"
    unfolding i(3,4) by blast
  show ?thesis
  proof (cases "n = 0")
    case False
    then have d: "deliver malloc_ok content_length chunks ?i = Some (False, a1)" by (simp add: deliver_def hint)
    have "ac_cap a1 \<le> limit + 1" using h1 by (simp add: holds_def)
    with d alt False show ?thesis by auto
  next
    case True
    with alt have st: "ac_status a1 = ESP_OK" and cl: "content_length \<le> limit"
      "0 < content_length \<Longrightarrow> ac_cap a1 = content_length + 1 \<and> ac_buf a1 = Some (replicate (content_length + 1) None)" by auto
    from chunks_cases [OF h1(1) assms(3) st, of malloc_ok] obtain ok a got where
      d: "deliver_chunks malloc_ok chunks a1 = Some (ok, a)" and ha: "holds a got" "ac_limit a = limit" and
      good: "ok \<longrightarrow> got = concat chunks \<and> ac_status a = ESP_OK \<and> (if chunks = [] then a = a1 else terminated a)" and
      bad: "\<not> ok \<longrightarrow> ac_status a = ESP_ERR_INVALID_SIZE \<and> limit < length (concat chunks) \<or> ac_status a = ESP_ERR_NO_MEM \<and> \<not> (\<forall>k. malloc_ok k)" and
      cap: "ok \<and> length (concat chunks) < ac_cap a1 \<longrightarrow> ac_cap a = ac_cap a1"
      unfolding h1(2) append_Nil by blast
    have body: "ac_len a = length got" "length got \<le> limit" "ac_cap a \<le> limit + 1" using ha by (simp_all add: holds_def)
    have buf: "take (ac_len a + 1) b = map Some (got @ [CHR 0x00])" if "terminated a" "ac_buf a = Some b" for b
    proof -
      from ha(1) that have "take (length got) b = map Some got" "length got < length b" "b ! length got = Some CHR 0x00"
        by (auto simp: holds_def terminated_def)
      then show ?thesis by (simp add: body(1) take_Suc_conv_app_nth)
    qed
    have "\<exists>b. ac_buf a = Some b \<and> take (ac_len a + 1) b = map Some (concat chunks @ [CHR 0x00])" if ok "chunks \<noteq> []"
    proof -
      from good that have t: "terminated a" "got = concat chunks" by auto
      then obtain b where "ac_buf a = Some b" by (auto simp: terminated_def)
      with buf [OF t(1) this] t(2) show ?thesis by auto
    qed
    moreover have "\<exists>b. ac_buf a = Some b \<and> b ! ac_len a = None" if ok "0 < content_length" "chunks = []"
      using good that cl(2) body(1) by auto
    moreover have "deliver malloc_ok content_length chunks ?i = Some (ok, a)" by (simp add: deliver_def hint True d)
    ultimately show ?thesis using good bad cap body cl by (intro exI [of _ ok] exI [of _ a]) auto
  qed
qed

theorem accum_collects_witness:
  "\<exists>ok a. deliver (\<lambda>_. True) 5 [''ab'', ''cde''] (accum_init 8192) = Some (ok, a) \<and> ok \<and> ac_cap a = 6 \<and>
     (\<exists>b. ac_buf a = Some b \<and> take 6 b = map Some (''abcde'' @ [CHR 0x00]))"
proof -
  have pre: "\<forall>c \<in> set [''ab'', ''cde'']. c \<noteq> [] \<and> length c < 2 ^ 31" by simp
  obtain ok a where a: "deliver (\<lambda>_. True) 5 [''ab'', ''cde''] (accum_init 8192) = Some (ok, a)"
    and ok: "(\<forall>k :: nat. True) \<longrightarrow> (ok \<longleftrightarrow> (5 :: nat) \<le> 8192 \<and> length (concat [''ab'', ''cde'']) \<le> 8192)"
    and c: "ok \<longrightarrow> ac_len a = length (concat [''ab'', ''cde'']) \<and>
      ([''ab'', ''cde''] \<noteq> [] \<longrightarrow> (\<exists>b. ac_buf a = Some b \<and> take (ac_len a + 1) b = map Some (concat [''ab'', ''cde''] @ [CHR 0x00]))) \<and>
      ((0 :: nat) < 5 \<and> length (concat [''ab'', ''cde'']) \<le> 5 \<longrightarrow> ac_cap a = 5 + 1)"
    using accum_collects [OF _ _ pre, of 8192 5 "\<lambda>_. True"] by auto
  have "ok" using ok by simp
  with a c show ?thesis by (intro exI [of _ ok] exI [of _ a]) (auto simp: eval_nat_numeral)
qed

end
