(* ===== verification/Aws_Creds.thy ===== *)
theory Aws_Creds
  imports Aws_Time Aws_Accum
begin

section \<open>AWS signing: handles and credentials\<close>

text \<open>
  \<open>components/rmaker_aws_sign/src/esp_rmaker_aws_sign_creds.c\<close>: the handle, the region, the credential response, the clock
  gate, the fetch from the IoT Credential Provider, and the refresh that decides when to fetch. The installed port is an argument: its
  HTTP operations act on a world of type \<open>'w\<close> that the clock reads too. A string copied to the heap is the string; every
  operation here is a whole, as a single task sees it; \<open>Aws_Locks\<close> has the mutexes. \<open>None\<close> is undefined behaviour, which only the accumulator can have.
\<close>

subsection \<open>The port\<close>

datatype http_method = HTTP_GET | HTTP_POST | HTTP_PUT | HTTP_DELETE | HTTP_PATCH

record http_config =
  hc_url :: string
  hc_method :: http_method
  hc_client_cert :: "string option"
  hc_client_cert_len :: nat
  hc_client_key :: "string option"
  hc_client_key_len :: nat
  hc_timeout_ms :: int
  hc_keep_alive :: bool

text \<open>What one \<open>perform\<close> gives the receiver: \<open>rp_hint\<close> is the declared size, \<open>None\<close> when the transfer fails before the
  response headers; then the chunks; \<open>rp_err\<close> is the result when the receiver accepts everything, \<open>rp_refused\<close> when it does not.\<close>

record reply =
  rp_hint :: "nat option"
  rp_chunks :: "string list"
  rp_err :: esp_err
  rp_refused :: esp_err

text \<open>\<open>perform\<close> sends a body and drives the response into the receiver, an accumulator whose callbacks allocate; \<open>None\<close> is a
  transfer that does not end, or undefined behaviour.\<close>

record ('w, 'h) http_ops =
  h_open :: "http_config \<Rightarrow> 'w \<Rightarrow> esp_err \<times> 'h \<times> 'w"
  h_set_url :: "'h \<Rightarrow> string \<Rightarrow> 'w \<Rightarrow> esp_err \<times> 'w"
  h_set_method :: "'h \<Rightarrow> http_method \<Rightarrow> 'w \<Rightarrow> esp_err \<times> 'w"
  h_set_header :: "'h \<Rightarrow> string \<Rightarrow> string option \<Rightarrow> 'w \<Rightarrow> esp_err \<times> 'w"
  h_perform :: "(nat \<Rightarrow> bool) \<Rightarrow> 'h \<Rightarrow> string \<Rightarrow> accum \<Rightarrow> 'w \<Rightarrow> (esp_err \<times> accum \<times> 'w) option"
  h_status_code :: "'h \<Rightarrow> 'w \<Rightarrow> int"
  h_close :: "'h \<Rightarrow> 'w \<Rightarrow> 'w"

text \<open>\<open>pt_json\<close> reads string fields of one object: \<open>None\<close> when the document does not parse, otherwise the value of each key that is
  present. \<open>pt_malloc\<close> says which sizes the allocator grants.\<close>

record ('w, 'h) aws_port =
  pt_http :: "('w, 'h) http_ops"
  pt_get_time :: "'w \<Rightarrow> int"
  pt_is_synced :: "('w \<Rightarrow> bool) option"
  pt_json :: "string \<Rightarrow> string \<Rightarrow> (string \<times> nat) list \<Rightarrow> string option list option"
  pt_malloc :: "nat \<Rightarrow> bool"

text \<open>The response driven into an accumulator.\<close>

definition perform_into :: "(nat \<Rightarrow> bool) \<Rightarrow> reply \<Rightarrow> accum \<Rightarrow> (esp_err \<times> accum) option" where
  "perform_into malloc_ok rp acc =
     (case rp_hint rp of
        None \<Rightarrow> Some (rp_err rp, acc)
      | Some cl \<Rightarrow>
          map_option (\<lambda>(ok, acc'). (if ok then rp_err rp else rp_refused rp, acc')) (deliver malloc_ok cl (rp_chunks rp) acc))"

subsection \<open>Regions\<close>

definition ESP_RMAKER_AWS_SIGN_REGION_LEN :: nat where "ESP_RMAKER_AWS_SIGN_REGION_LEN = 32"

text \<open>\<open>strstr\<close>: what precedes the first occurrence.\<close>

fun before_substring :: "string \<Rightarrow> string \<Rightarrow> string option" where
  "before_substring pat [] = (if pat = [] then Some [] else None)"
| "before_substring pat (c # cs) =
     (if take (length pat) (c # cs) = pat then Some [] else map_option (Cons c) (before_substring pat cs))"

definition parse_region_from_host :: "(nat \<Rightarrow> bool) \<Rightarrow> string option \<Rightarrow> string option" where
  "parse_region_from_host malloc_ok host =
     (case host of
        None \<Rightarrow> None
      | Some h \<Rightarrow>
          (case before_substring ''.amazonaws.'' h of
             None \<Rightarrow> None
           | Some aws \<Rightarrow>
               let region = rev (takeWhile (\<lambda>c. c \<noteq> CHR ''.'') (rev aws))
               in if region = [] then None else if malloc_ok (length region + 1) then Some region else None))"

definition region_resolve :: "(nat \<Rightarrow> bool) \<Rightarrow> string \<Rightarrow> string option \<Rightarrow> esp_err \<times> string" where
  "region_resolve malloc_ok host region =
     (case (case region of Some r \<Rightarrow> Some r | None \<Rightarrow> parse_region_from_host malloc_ok (Some host)) of
        None \<Rightarrow> (ESP_ERR_INVALID_ARG, [])
      | Some src \<Rightarrow> if length src \<ge> ESP_RMAKER_AWS_SIGN_REGION_LEN then (ESP_ERR_INVALID_ARG, take 31 src) else (ESP_OK, src))"

subsection \<open>The handle\<close>

text \<open>\<open>s_last_host_gen\<close> and the generation taken from it; 0 is skipped.\<close>

function next_host_gen :: "u32 \<Rightarrow> u32 \<times> u32" where
  "next_host_gen counter = (let gen = counter + 1 in if gen = 0 then next_host_gen gen else (gen, gen))"
  by pat_completeness auto
termination
  by (relation "measure (\<lambda>l. if l + 1 = 0 then 1 else 0)") auto

declare next_host_gen.simps [simp del]

record 'h aws_ctx =
  cx_cred_host :: string
  cx_cred_host_gen :: u32
  cx_region :: string
  cx_thing_name :: string
  cx_client_cert :: string
  cx_client_cert_len :: nat
  cx_client_key :: string
  cx_client_key_len :: nat
  cx_conn :: "'h option"
  cx_conn_host :: string
  cx_conn_last_use :: int
  cx_conn_timeout_ms :: int

record aws_config =
  cf_cred_host :: "string option"
  cf_thing_name :: "string option"
  cf_client_cert :: "string option"
  cf_client_cert_len :: nat
  cf_client_key :: "string option"
  cf_client_key_len :: nat
  cf_region :: "string option"

text \<open>\<open>copy_blob\<close>: a PEM text keeps length 0 and its terminator, a DER blob is \<open>len\<close> bytes from the pointer.\<close>

definition copy_blob :: "(nat \<Rightarrow> bool) \<Rightarrow> string \<Rightarrow> nat \<Rightarrow> string option" where
  "copy_blob malloc_ok src len =
     (let n = (if len \<noteq> 0 then len else length (c_str src) + 1) in if malloc_ok n then Some (take n src) else None)"

text \<open>\<open>port_ready\<close>: \<open>None\<close> when no port is installed, otherwise whether it has HTTP. \<open>ctx_ok\<close> and \<open>mutex_ok\<close>: whether the
  handle and the three mutexes are created.\<close>

definition esp_rmaker_aws_sign_create ::
  "bool option \<Rightarrow> (nat \<Rightarrow> bool) \<Rightarrow> bool \<Rightarrow> bool \<Rightarrow> aws_config option \<Rightarrow> u32 \<Rightarrow> esp_err \<times> 'h aws_ctx option \<times> u32" where
  "esp_rmaker_aws_sign_create port_ready malloc_ok ctx_ok mutex_ok config last_gen =
     (case port_ready of
        None \<Rightarrow> (ESP_ERR_INVALID_STATE, None, last_gen)
      | Some has_http \<Rightarrow>
          if \<not> has_http then (ESP_ERR_NOT_SUPPORTED, None, last_gen)
          else case config of
            None \<Rightarrow> (ESP_ERR_INVALID_ARG, None, last_gen)
          | Some c \<Rightarrow>
              (case (cf_cred_host c, cf_thing_name c, cf_client_cert c, cf_client_key c) of
                 (Some host, Some thing, Some cert, Some key) \<Rightarrow>
                   if \<not> ctx_ok then (ESP_ERR_NO_MEM, None, last_gen)
                   else (case region_resolve malloc_ok host (cf_region c) of
                     (err, region) \<Rightarrow>
                       if err \<noteq> ESP_OK then (err, None, last_gen)
                       else case next_host_gen last_gen of
                         (last', gen) \<Rightarrow>
                           (case (copy_blob malloc_ok cert (cf_client_cert_len c), copy_blob malloc_ok key (cf_client_key_len c)) of
                              (Some cert', Some key') \<Rightarrow>
                                if malloc_ok (length host + 1) \<and> malloc_ok (length thing + 1) \<and> mutex_ok
                                then (ESP_OK,
                                  Some \<lparr>cx_cred_host = host, cx_cred_host_gen = gen, cx_region = region, cx_thing_name = thing,
                                    cx_client_cert = cert', cx_client_cert_len = cf_client_cert_len c, cx_client_key = key',
                                    cx_client_key_len = cf_client_key_len c, cx_conn = None, cx_conn_host = [], cx_conn_last_use = 0,
                                    cx_conn_timeout_ms = 0\<rparr>, last')
                                else (ESP_ERR_NO_MEM, None, last')
                            | _ \<Rightarrow> (ESP_ERR_NO_MEM, None, last')))
               | _ \<Rightarrow> (ESP_ERR_INVALID_ARG, None, last_gen)))"

definition esp_rmaker_aws_sign_set_cred_host ::
  "(nat \<Rightarrow> bool) \<Rightarrow> string option \<Rightarrow> string option \<Rightarrow> u32 \<Rightarrow> 'h aws_ctx \<Rightarrow> esp_err \<times> 'h aws_ctx \<times> u32" where
  "esp_rmaker_aws_sign_set_cred_host malloc_ok cred_host region last_gen h =
     (case cred_host of
        None \<Rightarrow> (ESP_ERR_INVALID_ARG, h, last_gen)
      | Some host \<Rightarrow>
          (case region_resolve malloc_ok host region of
             (err, new_region) \<Rightarrow>
               if err \<noteq> ESP_OK then (err, h, last_gen)
               else if \<not> malloc_ok (length host + 1) then (ESP_ERR_NO_MEM, h, last_gen)
               else case next_host_gen last_gen of
                 (last', gen) \<Rightarrow>
                   (ESP_OK, h\<lparr>cx_cred_host := host, cx_cred_host_gen := gen, cx_region := new_region\<rparr>, last')))"

text \<open>The region copied into a buffer of the caller; the text of the buffer when it fits.\<close>

definition esp_rmaker_aws_sign_get_region :: "nat \<Rightarrow> 'h aws_ctx \<Rightarrow> esp_err \<times> string option" where
  "esp_rmaker_aws_sign_get_region buf_len h =
     (if buf_len = 0 then (ESP_ERR_INVALID_ARG, None)
      else if length (cx_region h) < buf_len then (ESP_OK, Some (cx_region h)) else (ESP_ERR_INVALID_SIZE, None))"

subsection \<open>The credential response\<close>

definition AK_BUF_LEN :: nat where "AK_BUF_LEN = 128"
definition SK_BUF_LEN :: nat where "SK_BUF_LEN = 128"
definition EXP_BUF_LEN :: nat where "EXP_BUF_LEN = 32"
definition CREDS_RESPONSE_MAX :: nat where "CREDS_RESPONSE_MAX = 4096"

text \<open>\<open>cr_keys\<close> is the block of the three strings, \<open>None\<close> in an empty struct.\<close>

record aws_creds =
  cr_keys :: "(string \<times> string \<times> string) option"
  cr_expiration :: int
  cr_refresh :: int
  cr_host_gen :: u32
  cr_alias_hash :: u32

definition no_creds :: aws_creds where
  "no_creds = \<lparr>cr_keys = None, cr_expiration = 0, cr_refresh = 0, cr_host_gen = 0, cr_alias_hash = 0\<rparr>"

definition esp_rmaker_aws_sign_creds_free :: "aws_creds \<Rightarrow> aws_creds" where
  "esp_rmaker_aws_sign_creds_free creds = no_creds"

definition parse_creds_json :: "('w, 'h) aws_port \<Rightarrow> string \<Rightarrow> esp_err \<times> aws_creds" where
  "parse_creds_json p json =
     (if json = [] then (ESP_ERR_INVALID_ARG, no_creds)
      else let tok_size = (if length json < CREDS_RESPONSE_MAX then length json + 1 else CREDS_RESPONSE_MAX)
           in if \<not> pt_malloc p tok_size then (ESP_ERR_NO_MEM, no_creds)
              else case pt_json p json ''credentials''
                   [(''accessKeyId'', AK_BUF_LEN), (''secretAccessKey'', SK_BUF_LEN), (''sessionToken'', tok_size),
                    (''expiration'', EXP_BUF_LEN)] of
                Some [Some ak, Some sk, Some tok, expiration] \<Rightarrow>
                  if \<not> pt_malloc p (length ak + 1 + (length sk + 1) + (length tok + 1)) then (ESP_ERR_NO_MEM, no_creds)
                  else (ESP_OK, no_creds\<lparr>cr_keys := Some (ak, sk, tok),
                     cr_expiration := (case expiration of None \<Rightarrow> 0 | Some e \<Rightarrow> iso8601_to_epoch (Some e))\<rparr>)
              | _ \<Rightarrow> (ESP_FAIL, no_creds))"

subsection \<open>Clock gate and fetch\<close>

definition MIN_VALID_EPOCH :: int where "MIN_VALID_EPOCH = 1735689600"
definition CREDS_HTTP_TIMEOUT_MS :: int where "CREDS_HTTP_TIMEOUT_MS = 10000"
definition CREDS_REFRESH_MARGIN_SEC :: int where "CREDS_REFRESH_MARGIN_SEC = 300"
definition CREDS_DEFAULT_TTL_SEC :: int where "CREDS_DEFAULT_TTL_SEC = 3000"

definition clock_is_trustworthy :: "('w, 'h) aws_port \<Rightarrow> 'w \<Rightarrow> bool" where
  "clock_is_trustworthy p w =
     (case pt_is_synced p of Some synced \<Rightarrow> synced w | None \<Rightarrow> pt_get_time p w > MIN_VALID_EPOCH)"

definition creds_url :: "'h aws_ctx \<Rightarrow> string \<Rightarrow> string" where
  "creds_url h role_alias = ''https://'' @ cx_cred_host h @ ''/role-aliases/'' @ role_alias @ ''/credentials''"

definition creds_config :: "'h aws_ctx \<Rightarrow> string \<Rightarrow> http_config" where
  "creds_config h role_alias =
     \<lparr>hc_url = creds_url h role_alias, hc_method = HTTP_GET, hc_client_cert = Some (cx_client_cert h),
      hc_client_cert_len = cx_client_cert_len h, hc_client_key = Some (cx_client_key h), hc_client_key_len = cx_client_key_len h,
      hc_timeout_ms = CREDS_HTTP_TIMEOUT_MS, hc_keep_alive = False\<rparr>"

text \<open>From the open connection to the parsed credentials. The result of \<open>perform\<close> gives way to the accumulator's status.\<close>

definition creds_exchange ::
  "('w, 'h) aws_port \<Rightarrow> 'h \<Rightarrow> 'w \<Rightarrow> (esp_err \<times> aws_creds \<times> 'w) option" where
  "creds_exchange p conn w =
     (case h_perform (pt_http p) (pt_malloc p) conn [] (accum_init CREDS_RESPONSE_MAX) w of
        None \<Rightarrow> None
      | Some (err, acc, w1) \<Rightarrow>
          let status = h_status_code (pt_http p) conn w1;
              err1 = (if ac_status acc \<noteq> ESP_OK then ac_status acc else err)
          in if err1 \<noteq> ESP_OK then Some (err1, no_creds, w1)
             else if status sdiv 100 \<noteq> 2 then Some (ESP_FAIL, no_creds, w1)
             else if ac_len acc = 0 then Some (ESP_FAIL, no_creds, w1)
             else case ac_buf acc of
               None \<Rightarrow> None
             | Some b \<Rightarrow>
                 if ac_len acc \<le> length b \<and> None \<notin> set (take (ac_len acc) b)
                 then (case parse_creds_json p (map the (take (ac_len acc) b)) of (e, c) \<Rightarrow> Some (e, c, w1))
                 else None)"

definition creds_fetch ::
  "('w, 'h) aws_port \<Rightarrow> 'h aws_ctx \<Rightarrow> string \<Rightarrow> 'w \<Rightarrow> (esp_err \<times> aws_creds \<times> 'w) option" where
  "creds_fetch p h role_alias w =
     (if \<not> pt_malloc p (length (creds_url h role_alias) + 1) then Some (ESP_ERR_NO_MEM, no_creds, w)
      else case h_open (pt_http p) (creds_config h role_alias) w of
        (err, conn, w1) \<Rightarrow>
          if err \<noteq> ESP_OK then Some (err, no_creds, w1)
          else case h_set_header (pt_http p) conn ''x-amzn-iot-thingname'' (Some (cx_thing_name h)) w1 of
            (e1, w2) \<Rightarrow>
              if e1 \<noteq> ESP_OK then Some (ESP_FAIL, no_creds, h_close (pt_http p) conn w2)
              else case h_set_header (pt_http p) conn ''Accept'' (Some ''application/json'') w2 of
                (e2, w3) \<Rightarrow>
                  if e2 \<noteq> ESP_OK then Some (ESP_FAIL, no_creds, h_close (pt_http p) conn w3)
                  else map_option (\<lambda>(e, c, w4). (e, c, h_close (pt_http p) conn w4)) (creds_exchange p conn w3))"

subsection \<open>Refresh\<close>

fun alias_hash_loop :: "u32 \<Rightarrow> string \<Rightarrow> u32" where
  "alias_hash_loop h [] = h"
| "alias_hash_loop h (c # cs) = alias_hash_loop ((xor h (of_nat (code c))) * 16777619) cs"

definition alias_hash :: "string \<Rightarrow> u32" where
  "alias_hash txt = alias_hash_loop 2166136261 txt"

text \<open>The refresh time given to fetched credentials.\<close>

definition date_creds :: "int \<Rightarrow> u32 \<Rightarrow> u32 \<Rightarrow> aws_creds \<Rightarrow> aws_creds" where
  "date_creds now gen hash fresh =
     (let expiry = (if cr_expiration fresh \<le> now then now + CREDS_DEFAULT_TTL_SEC else cr_expiration fresh);
          half = (expiry - now) sdiv 2;
          margin = (if half > CREDS_REFRESH_MARGIN_SEC then CREDS_REFRESH_MARGIN_SEC else half)
      in fresh\<lparr>cr_expiration := expiry, cr_refresh := expiry - margin, cr_host_gen := gen, cr_alias_hash := hash\<rparr>)"

definition creds_stale :: "'h aws_ctx \<Rightarrow> int \<Rightarrow> aws_creds \<Rightarrow> bool" where
  "creds_stale h now creds \<longleftrightarrow> cr_keys creds = None \<or> cr_host_gen creds \<noteq> cx_cred_host_gen h \<or> now \<ge> cr_refresh creds"

definition esp_rmaker_aws_sign_creds_refresh ::
  "('w, 'h) aws_port \<Rightarrow> 'h aws_ctx \<Rightarrow> string \<Rightarrow> aws_creds \<Rightarrow> 'w \<Rightarrow> (esp_err \<times> aws_creds \<times> 'w) option" where
  "esp_rmaker_aws_sign_creds_refresh p h role_alias creds w =
     (if cr_keys creds \<noteq> None \<and> cr_alias_hash creds \<noteq> alias_hash role_alias then Some (ESP_ERR_INVALID_ARG, creds, w)
      else if \<not> clock_is_trustworthy p w then Some (ESP_ERR_INVALID_STATE, creds, w)
      else let now = pt_get_time p w
           in if creds_stale h now creds
              then map_option (\<lambda>(err, fresh, w'). if err = ESP_OK
                     then (ESP_OK, date_creds now (cx_cred_host_gen h) (alias_hash role_alias) fresh, w') else (err, creds, w'))
                   (creds_fetch p h role_alias w)
              else Some (ESP_OK, creds, w))"

subsection \<open>What a refresh guarantees\<close>

text \<open>Replies a port may give: sizes that fit \<open>size_t\<close>, and chunks that are not empty.\<close>

definition reply_ok :: "reply \<Rightarrow> bool" where
  "reply_ok rp \<longleftrightarrow> (\<forall>cl. rp_hint rp = Some cl \<longrightarrow> cl < 2 ^ 32) \<and> (\<forall>c \<in> set (rp_chunks rp). c \<noteq> [] \<and> length c < 2 ^ 31)"

text \<open>What the core relies on: a transfer into an empty accumulator ends, and does to it what some reply does.\<close>

definition replies_ok :: "('w, 'h) aws_port \<Rightarrow> bool" where
  "replies_ok p \<longleftrightarrow> (\<forall>m conn body acc w. holds acc [] \<and> ac_status acc = ESP_OK \<longrightarrow>
     (\<exists>err acc' w' rp. h_perform (pt_http p) m conn body acc w = Some (err, acc', w') \<and> reply_ok rp \<and>
        perform_into m rp acc = Some (err, acc')))"

lemma replies_okE:
  assumes "replies_ok p" "holds acc []" "ac_status acc = ESP_OK"
  obtains err acc' w' rp where "h_perform (pt_http p) m conn body acc w = Some (err, acc', w')" "reply_ok rp"
    "perform_into m rp acc = Some (err, acc')"
  using assms unfolding replies_ok_def by meson

text \<open>A port whose server answers each request with one reply.\<close>

definition answering ::
  "('h \<Rightarrow> string \<Rightarrow> 'w \<Rightarrow> reply \<times> 'w) \<Rightarrow> (nat \<Rightarrow> bool) \<Rightarrow> 'h \<Rightarrow> string \<Rightarrow> accum \<Rightarrow> 'w \<Rightarrow> (esp_err \<times> accum \<times> 'w) option" where
  "answering server m conn body acc w =
     (case server conn body w of (rp, w') \<Rightarrow> map_option (\<lambda>(err, acc'). (err, acc', w')) (perform_into m rp acc))"

lemma perform_into_cases:
  assumes h: "holds acc []" "ac_status acc = ESP_OK" and rp: "reply_ok rp"
  shows "\<exists>err acc' got. perform_into m rp acc = Some (err, acc') \<and> holds acc' got \<and> ac_limit acc' = ac_limit acc \<and>
    (rp_hint rp = None \<longrightarrow> acc' = acc \<and> err = rp_err rp) \<and> (rp_hint rp \<noteq> None \<longrightarrow> ac_got_response acc') \<and>
    (ac_status acc' = ESP_OK \<longrightarrow> err = rp_err rp)"
proof (cases "rp_hint rp")
  case None
  then show ?thesis using h by (auto simp: perform_into_def)
next
  case (Some cl)
  have cl: "cl < 2 ^ 32" and c: "\<forall>c \<in> set (rp_chunks rp). c \<noteq> [] \<and> length c < 2 ^ 31"
    using rp Some by (simp_all add: reply_ok_def)
  from deliver_cases [OF h cl c, of m] show ?thesis by (fastforce simp: perform_into_def Some)
qed

lemma holds_text:
  assumes "holds acc got" and "ac_len acc \<noteq> 0"
  shows "\<exists>b. ac_buf acc = Some b \<and> ac_len acc \<le> length b \<and> take (ac_len acc) b = map Some got"
  using assms by (cases "ac_buf acc") (auto simp: holds_def)

lemma creds_exchange_total:
  assumes "replies_ok p"
  shows "\<exists>err c w'. creds_exchange p conn w = Some (err, c, w') \<and> (err = ESP_OK \<longrightarrow> cr_keys c \<noteq> None)"
proof -
  have i: "holds (accum_init CREDS_RESPONSE_MAX) []" "ac_status (accum_init CREDS_RESPONSE_MAX) = ESP_OK"
    using holds_init [of CREDS_RESPONSE_MAX] by (simp_all add: CREDS_RESPONSE_MAX_def accum_init_def)
  from replies_okE [OF assms i] obtain err acc w1 rp where
    pf: "h_perform (pt_http p) (pt_malloc p) conn [] (accum_init CREDS_RESPONSE_MAX) w = Some (err, acc, w1)" and rp: "reply_ok rp"
    and pi: "perform_into (pt_malloc p) rp (accum_init CREDS_RESPONSE_MAX) = Some (err, acc)" by blast
  from perform_into_cases [OF i rp, of "pt_malloc p"] pi obtain got where got: "holds acc got" by auto
  define err1 where "err1 = (if ac_status acc \<noteq> ESP_OK then ac_status acc else err)"
  consider "err1 \<noteq> ESP_OK \<or> h_status_code (pt_http p) conn w1 sdiv 100 \<noteq> 2 \<or> ac_len acc = 0"
    | "err1 = ESP_OK" "h_status_code (pt_http p) conn w1 sdiv 100 = 2" "ac_len acc \<noteq> 0" by blast
  then show ?thesis
  proof cases
    case 1
    then show ?thesis by (auto simp: creds_exchange_def pf Let_def err1_def split: if_splits)
  next
    case 2
    from holds_text [OF got 2(3)] obtain b where b: "ac_buf acc = Some b" "ac_len acc \<le> length b" "take (ac_len acc) b = map Some got" by blast
    have "cr_keys (snd (parse_creds_json p got)) \<noteq> None" if "fst (parse_creds_json p got) = ESP_OK"
      using that by (auto simp: parse_creds_json_def Let_def split: if_splits option.splits list.splits)
    then show ?thesis
      using 2 by (auto simp: creds_exchange_def pf b Let_def err1_def [symmetric] comp_def split: prod.splits)
  qed
qed

lemma creds_fetch_total:
  assumes "replies_ok p"
  shows "\<exists>err c w'. creds_fetch p h role_alias w = Some (err, c, w') \<and> (err = ESP_OK \<longrightarrow> cr_keys c \<noteq> None)"
proof -
  obtain err conn w1 where o: "h_open (pt_http p) (creds_config h role_alias) w = (err, conn, w1)" by (metis prod_cases3)
  obtain e1 w2 where s1: "h_set_header (pt_http p) conn ''x-amzn-iot-thingname'' (Some (cx_thing_name h)) w1 = (e1, w2)" by fastforce
  obtain e2 w3 where s2: "h_set_header (pt_http p) conn ''Accept'' (Some ''application/json'') w2 = (e2, w3)" by fastforce
  from creds_exchange_total [OF assms, of conn w3] show ?thesis by (auto simp: creds_fetch_def o s1 s2)
qed

lemma half_sdiv: "0 \<le> d \<Longrightarrow> (d :: int) sdiv 2 = d div 2"
  by (simp add: signed_divide_int_def sgn_if)

lemma date_creds_times:
  "now < cr_refresh (date_creds now gen hash c) \<and> cr_refresh (date_creds now gen hash c) \<le> cr_expiration (date_creds now gen hash c) \<and>
    cr_expiration (date_creds now gen hash c) - cr_refresh (date_creds now gen hash c) \<le> CREDS_REFRESH_MARGIN_SEC"
proof -
  define expiry where "expiry = (if cr_expiration c \<le> now then now + CREDS_DEFAULT_TTL_SEC else cr_expiration c)"
  have "now < expiry" by (simp add: expiry_def CREDS_DEFAULT_TTL_SEC_def)
  moreover from this have "(expiry - now) sdiv 2 = (expiry - now) div 2" by (simp add: half_sdiv)
  ultimately show ?thesis
    by (auto simp: date_creds_def Let_def expiry_def [symmetric] CREDS_REFRESH_MARGIN_SEC_def)
qed

text \<open>C19.
  A refresh always returns, and on any error the struct keeps its contents. Success means a struct for this role alias and this
  credential host whose refresh time lies ahead, at most five minutes before its expiry. Nothing goes on the network when the
  clock is not trusted or the struct is current; and the struct a refresh leaves is reused unchanged, without network, by
  every later refresh before its refresh time.\<close>

theorem creds_refresh_contract:
  assumes "replies_ok p"
  shows "\<exists>err creds' w'. esp_rmaker_aws_sign_creds_refresh p h role_alias creds w = Some (err, creds', w') \<and>
    (err \<noteq> ESP_OK \<longrightarrow> creds' = creds) \<and>
    (err = ESP_OK \<longrightarrow> cr_keys creds' \<noteq> None \<and> cr_alias_hash creds' = alias_hash role_alias \<and>
       cr_host_gen creds' = cx_cred_host_gen h \<and> pt_get_time p w < cr_refresh creds' \<and>
       (creds_stale h (pt_get_time p w) creds \<longrightarrow> cr_refresh creds' \<le> cr_expiration creds' \<and> cr_expiration creds' - cr_refresh creds' \<le> 300) \<and>
       (\<forall>w2. clock_is_trustworthy p w2 \<and> pt_get_time p w2 < cr_refresh creds' \<longrightarrow>
          esp_rmaker_aws_sign_creds_refresh p h role_alias creds' w2 = Some (ESP_OK, creds', w2))) \<and>
    (\<not> clock_is_trustworthy p w \<longrightarrow> err \<noteq> ESP_OK \<and> w' = w) \<and>
    (\<not> creds_stale h (pt_get_time p w) creds \<longrightarrow> w' = w \<and> creds' = creds)"
proof -
  have reuse: "esp_rmaker_aws_sign_creds_refresh p h role_alias c w2 = Some (ESP_OK, c, w2)"
    if "cr_keys c \<noteq> None" "cr_alias_hash c = alias_hash role_alias" "cr_host_gen c = cx_cred_host_gen h"
      "clock_is_trustworthy p w2" "pt_get_time p w2 < cr_refresh c" for c w2
    using that by (auto simp: esp_rmaker_aws_sign_creds_refresh_def creds_stale_def Let_def)
  consider "cr_keys creds \<noteq> None \<and> cr_alias_hash creds \<noteq> alias_hash role_alias \<or> \<not> clock_is_trustworthy p w"
    | "cr_keys creds = None \<or> cr_alias_hash creds = alias_hash role_alias" "clock_is_trustworthy p w" "\<not> creds_stale h (pt_get_time p w) creds"
    | "cr_keys creds = None \<or> cr_alias_hash creds = alias_hash role_alias" "clock_is_trustworthy p w" "creds_stale h (pt_get_time p w) creds"
    by metis
  then show ?thesis
  proof cases
    case 1
    then show ?thesis by (auto simp: esp_rmaker_aws_sign_creds_refresh_def)
  next
    case 2
    then have "cr_keys creds \<noteq> None" "cr_host_gen creds = cx_cred_host_gen h" "pt_get_time p w < cr_refresh creds"
      by (auto simp: creds_stale_def)
    with 2 reuse [of creds] show ?thesis by (intro exI [of _ ESP_OK] exI [of _ creds] exI [of _ w]) auto
  next
    case 3
    from creds_fetch_total [OF assms, of h role_alias w] obtain err c w1 where
      f: "creds_fetch p h role_alias w = Some (err, c, w1)" "err = ESP_OK \<longrightarrow> cr_keys c \<noteq> None" by blast
    let ?d = "date_creds (pt_get_time p w) (cx_cred_host_gen h) (alias_hash role_alias) c"
    have r: "esp_rmaker_aws_sign_creds_refresh p h role_alias creds w =
        Some (if err = ESP_OK then (ESP_OK, ?d, w1) else (err, creds, w1))"
      using 3 f(1) by (auto simp: esp_rmaker_aws_sign_creds_refresh_def Let_def)
    have d: "cr_keys ?d = cr_keys c" "cr_alias_hash ?d = alias_hash role_alias" "cr_host_gen ?d = cx_cred_host_gen h"
      by (simp_all add: date_creds_def Let_def)
    show ?thesis
    proof (cases "err = ESP_OK")
      case True
      with f(2) r d reuse [of ?d] date_creds_times [of "pt_get_time p w" "cx_cred_host_gen h" "alias_hash role_alias" c] 3 show ?thesis
        by (intro exI [of _ ESP_OK] exI [of _ ?d] exI [of _ w1]) (simp add: CREDS_REFRESH_MARGIN_SEC_def)
    next
      case False
      with r 3 show ?thesis by (intro exI [of _ err] exI [of _ creds] exI [of _ w1]) simp
    qed
  qed
qed

text \<open>A port whose clock is the world and whose provider answers with credentials that expire on 2026-06-11.\<close>

definition sample_http :: "(int, nat) http_ops" where
  "sample_http = \<lparr>h_open = (\<lambda>cfg w. (ESP_OK, 1, w)), h_set_url = (\<lambda>c u w. (ESP_OK, w)), h_set_method = (\<lambda>c m w. (ESP_OK, w)),
     h_set_header = (\<lambda>c n v w. (ESP_OK, w)),
     h_perform = answering (\<lambda>c b w. (\<lparr>rp_hint = Some 2, rp_chunks = [''{}''], rp_err = ESP_OK, rp_refused = ESP_ERR_INVALID_SIZE\<rparr>, w)),
     h_status_code = (\<lambda>c w. 200), h_close = (\<lambda>c w. w)\<rparr>"

definition sample_aws_port :: "(int, nat) aws_port" where
  "sample_aws_port = \<lparr>pt_http = sample_http, pt_get_time = (\<lambda>w. w), pt_is_synced = None,
     pt_json = (\<lambda>j obj fs. Some [Some ''AK'', Some ''SK'', Some ''TOKEN'', Some ''2026-06-11T08:31:00Z'']), pt_malloc = (\<lambda>_. True)\<rparr>"

definition sample_ctx :: "nat aws_ctx" where
  "sample_ctx = \<lparr>cx_cred_host = ''c1.credentials.iot.us-east-1.amazonaws.com'', cx_cred_host_gen = 7, cx_region = ''us-east-1'',
     cx_thing_name = ''thing'', cx_client_cert = ''cert'', cx_client_cert_len = 4, cx_client_key = ''key'', cx_client_key_len = 3,
     cx_conn = None, cx_conn_host = [], cx_conn_last_use = 0, cx_conn_timeout_ms = 0\<rparr>"

lemma answering_ok:
  assumes "h_perform (pt_http p) = answering server" and "\<And>conn body w. reply_ok (fst (server conn body w))"
  shows "replies_ok p"
  unfolding replies_ok_def
proof (intro allI impI)
  fix m conn body acc w
  assume h: "holds acc [] \<and> ac_status acc = ESP_OK"
  obtain rp w' where rp: "server conn body w = (rp, w')" by (rule prod.exhaust)
  with assms(2) [of conn body w] have ok: "reply_ok rp" by simp
  from perform_into_cases [OF _ _ this, of acc m] h obtain err acc' where "perform_into m rp acc = Some (err, acc')" by blast
  then show "\<exists>err acc' w' rp. h_perform (pt_http p) m conn body acc w = Some (err, acc', w') \<and> reply_ok rp \<and>
      perform_into m rp acc = Some (err, acc')"
    using rp ok assms(1) by (auto simp: answering_def)
qed

lemma sample_replies: "replies_ok sample_aws_port"
  by (rule answering_ok) (simp_all add: sample_aws_port_def sample_http_def, simp add: reply_ok_def)

definition sample_acc :: "cells \<Rightarrow> nat \<Rightarrow> accum" where
  "sample_acc b n = \<lparr>ac_buf = Some b, ac_len = n, ac_cap = 3, ac_limit = 4096, ac_status = ESP_OK, ac_got_response = True\<rparr>"

lemma sample_hint: "accum_hint (\<lambda>_. True) 2 (accum_init 4096) = Some (0, sample_acc [None, None, None] 0)"
  by (simp add: accum_hint_def accum_reserve_def accum_init_def wr_n_def sample_acc_def numeral_3_eq_3)

lemma sample_sink:
  "accum_sink (\<lambda>_. True) ''{}'' (sample_acc [None, None, None] 0) = Some (2, sample_acc [Some CHR ''{'', Some CHR ''}'', Some CHR 0x00] 2)"
proof -
  have u: "usize (Suc (Suc 0)) = Suc (Suc 0)" "usize (Suc (Suc (Suc 0))) = Suc (Suc (Suc 0))" "c_int (Suc (Suc 0)) = 2"
    by (simp_all add: usize_def c_int_def)
  show ?thesis
    by (simp add: accum_sink_def accum_reserve_def sample_acc_def wr_n_def wr_def numeral_2_eq_2 u)
qed

lemma sample_body:
  "perform_into (\<lambda>_. True) \<lparr>rp_hint = Some 2, rp_chunks = [''{}''], rp_err = ESP_OK, rp_refused = ESP_ERR_INVALID_SIZE\<rparr> (accum_init 4096) =
    Some (ESP_OK, sample_acc [Some CHR ''{'', Some CHR ''}'', Some CHR 0x00] 2)"
  by (simp add: perform_into_def deliver_def sample_hint sample_sink)

lemma sample_refresh:
  "map_option fst (esp_rmaker_aws_sign_creds_refresh sample_aws_port sample_ctx ''role'' no_creds 1780000000) = Some ESP_OK"
  by (simp add: esp_rmaker_aws_sign_creds_refresh_def clock_is_trustworthy_def creds_stale_def creds_fetch_def creds_exchange_def
    parse_creds_json_def sample_aws_port_def sample_http_def answering_def no_creds_def MIN_VALID_EPOCH_def CREDS_RESPONSE_MAX_def sample_body sample_acc_def
    signed_divide_int_def take_Cons' Let_def)

theorem creds_refresh_contract_witness:
  "\<exists>creds' w'. esp_rmaker_aws_sign_creds_refresh sample_aws_port sample_ctx ''role'' no_creds 1780000000 = Some (ESP_OK, creds', w') \<and>
     1780000000 < cr_refresh creds' \<and>
     esp_rmaker_aws_sign_creds_refresh sample_aws_port sample_ctx ''role'' creds' 1780000000 = Some (ESP_OK, creds', 1780000000)"
proof -
  from creds_refresh_contract [OF sample_replies, of sample_ctx "''role''" no_creds 1780000000] obtain err creds' w' where
    r: "esp_rmaker_aws_sign_creds_refresh sample_aws_port sample_ctx ''role'' no_creds 1780000000 = Some (err, creds', w')" and
    ok: "err = ESP_OK \<longrightarrow> pt_get_time sample_aws_port 1780000000 < cr_refresh creds' \<and>
       (\<forall>w2. clock_is_trustworthy sample_aws_port w2 \<and> pt_get_time sample_aws_port w2 < cr_refresh creds' \<longrightarrow>
          esp_rmaker_aws_sign_creds_refresh sample_aws_port sample_ctx ''role'' creds' w2 = Some (ESP_OK, creds', w2))" by blast
  have "err = ESP_OK" using sample_refresh by (simp add: r)
  moreover have "clock_is_trustworthy sample_aws_port 1780000000" "pt_get_time sample_aws_port 1780000000 = 1780000000"
    by (simp_all add: clock_is_trustworthy_def sample_aws_port_def MIN_VALID_EPOCH_def)
  ultimately show ?thesis using r ok by auto
qed

end
