(* ===== verification/Aws_Text.thy ===== *)
theory Aws_Text
  imports Aws_Encode
begin

section \<open>AWS signing: what the encoders mean\<close>

text \<open>
  Reference definitions for the encoders of \<open>Aws_Encode\<close> and the lemmas that the code's loops compute them: percent
  decoding inverts the encoder, encoding twice is the composition of two encodings, the two-pass path
  normalisation is dot-segment removal with a stack, trimming keeps the words of a value.
\<close>

subsection \<open>Percent encoding\<close>

definition hex_val :: "char \<Rightarrow> nat" where
  "hex_val c = (if code c \<le> 57 then code c - 48 else code c - 55)"

fun pct_decode :: "string \<Rightarrow> string" where
  "pct_decode (c # a # b # cs) =
     (if c = CHR ''%'' then char_of (16 * hex_val a + hex_val b) # pct_decode cs else c # pct_decode (a # b # cs))"
| "pct_decode cs = cs"

definition encoded :: "bool \<Rightarrow> string \<Rightarrow> string" where
  "encoded keep_slash s = concat (put_encoded keep_slash False s)"

lemma hexu_val: "k < 16 \<Longrightarrow> hex_val (HEXU ! k) = k"
proof -
  assume "k < 16"
  moreover have "\<forall>k \<in> set [0..<16]. hex_val (HEXU ! k) = k"
    by (simp add: upt_rec HEXU_def hex_val_def code_def)
  ultimately show ?thesis by auto
qed

lemma hexu_pass: "k < 16 \<Longrightarrow> pass_through b (HEXU ! k)"
proof -
  assume "k < 16"
  moreover have "\<forall>k \<in> set [0..<16]. pass_through b (HEXU ! k)"
    by (simp add: upt_rec HEXU_def pass_through_def isalnum_def code_def)
  ultimately show ?thesis by auto
qed

lemma code_nibbles: "16 * (code c div 16) + code c mod 16 = code c" and nibbles_less: "code c div 16 < 16" "code c mod 16 < 16"
  using code_less [of c] by auto

lemma char_of_code [simp]: "char_of (code c) = c"
  by (simp add: code_def)

lemma pass_not_pct: "pass_through b c \<Longrightarrow> c \<noteq> CHR ''%''"
  by (auto simp: pass_through_def isalnum_def code_def)

lemma pct_decode_other: "c \<noteq> CHR ''%'' \<Longrightarrow> pct_decode (c # cs) = c # pct_decode cs"
  by (cases cs; cases "tl cs") auto

lemma pct_decode_encoded: "pct_decode (encoded ks s) = s"
proof (induction s)
  case (Cons c cs)
  then show ?case
    by (cases "pass_through ks c")
      (auto simp: encoded_def pct_decode_other pass_not_pct hexu_val nibbles_less code_nibbles)
qed (simp add: encoded_def)

lemma encoded_inj: "encoded ks s = encoded ks t \<longleftrightarrow> s = t"
  by (metis pct_decode_encoded)

text \<open>Only unreserved characters, \<open>%\<close>, and \<open>/\<close> where it is kept.\<close>

lemma encoded_chars: "c \<in> set (encoded ks s) \<Longrightarrow> pass_through ks c \<or> c = CHR ''%''"
proof (induction s)
  case (Cons d ds)
  have h: "pass_through ks (HEXU ! (code d div 16))" "pass_through ks (HEXU ! (code d mod 16))"
    by (simp_all add: hexu_pass nibbles_less)
  show ?case
  proof (cases "pass_through ks d")
    case True
    with Cons show ?thesis by (auto simp: encoded_def)
  next
    case False
    then have "encoded ks (d # ds) = CHR ''%'' # HEXU ! (code d div 16) # HEXU ! (code d mod 16) # encoded ks ds"
      by (simp add: encoded_def)
    with Cons h show ?thesis by auto
  qed
qed (simp add: encoded_def)

lemma encoded_pass: "list_all (pass_through ks) s \<Longrightarrow> encoded ks s = s"
  by (induction s) (auto simp: encoded_def)

lemma encoded_append: "encoded ks (s @ t) = encoded ks s @ encoded ks t"
  by (induction s) (auto simp: encoded_def)

lemma pct_reserved: "\<not> pass_through ks CHR ''%''"
  by (auto simp: pass_through_def isalnum_def code_def)

lemma hexu_2: "HEXU ! 2 = CHR ''2''" "HEXU ! 5 = CHR ''5''"
  by (simp_all add: HEXU_def)

lemma encoded_pct: "encoded ks (CHR ''%'' # s) = ''%25'' @ encoded ks s"
proof -
  have "code CHR ''%'' div 16 = 2" "code CHR ''%'' mod 16 = 5" by (simp_all add: code_def)
  then show ?thesis using pct_reserved [of ks] by (simp add: encoded_def hexu_2)
qed

lemma encoded_Cons_pass: "pass_through ks c \<Longrightarrow> encoded ks (c # s) = c # encoded ks s"
  by (simp add: encoded_def)

lemma put_encoded_twice: "concat (put_encoded ks True s) = encoded ks (encoded ks s)"
proof (induction s)
  case (Cons c cs)
  have h: "pass_through ks (HEXU ! (code c div 16))" "pass_through ks (HEXU ! (code c mod 16))"
    by (simp_all add: hexu_pass nibbles_less)
  show ?case
  proof (cases "pass_through ks c")
    case True
    with Cons show ?thesis by (simp add: encoded_Cons_pass)
  next
    case False
    then have "encoded ks (c # cs) = CHR ''%'' # HEXU ! (code c div 16) # HEXU ! (code c mod 16) # encoded ks cs"
      by (simp add: encoded_def)
    with Cons False h show ?thesis by (simp add: encoded_pct encoded_Cons_pass)
  qed
qed (simp add: encoded_def)

subsection \<open>Path normalisation\<close>

text \<open>The non-empty segments of a path.\<close>

function segments :: "string \<Rightarrow> string list" where
  "segments p =
     (case next_segment p of (SEG_END, _, _) \<Rightarrow> [] | (_, seg, rest) \<Rightarrow> seg # segments rest)"
  by pat_completeness auto
termination
  by (relation "measure length") (auto dest: next_segment_less [OF sym])

declare segments.simps [simp del]

text \<open>Dot-segment removal: \<open>.\<close> is dropped, \<open>..\<close> pops the stack.\<close>

fun push_segment :: "string \<Rightarrow> string list \<Rightarrow> string list" where
  "push_segment s st = (if s = ''.'' then st else if s = ''..'' then drop 1 st else s # st)"

definition remove_dots :: "string list \<Rightarrow> string list" where
  "remove_dots ss = rev (fold push_segment ss [])"

text \<open>How many names before it a list of segments removes, and which of its own stay.\<close>

fun removes :: "string list \<Rightarrow> nat" where
  "removes [] = 0"
| "removes (s # ss) = (if s = ''.'' then removes ss else if s = ''..'' then removes ss + 1 else removes ss - 1)"

fun stay :: "string list \<Rightarrow> string list" where
  "stay [] = []"
| "stay (s # ss) = (if s = ''.'' \<or> s = ''..'' \<or> 0 < removes ss then stay ss else s # stay ss)"

lemma fold_push: "fold push_segment ss st = rev (stay ss) @ drop (removes ss) st"
proof (induction ss arbitrary: st)
  case (Cons s ss)
  then show ?case by (cases "removes ss") auto
qed simp

lemma remove_dots_stay: "remove_dots ss = stay ss"
  by (simp add: remove_dots_def fold_push)

lemma next_segment_kind:
  assumes "next_segment p = (k, seg, rest)"
  shows "(k = SEG_END \<longleftrightarrow> seg = []) \<and> (k = SEG_DOT \<longleftrightarrow> seg = ''.'') \<and> (k = SEG_DOT_DOT \<longleftrightarrow> seg = ''..'')"
  using assms by (auto simp: next_segment_def Let_def split: if_splits)

lemma segments_step:
  assumes "next_segment p = (k, seg, rest)"
  shows "segments p = (if seg = [] then [] else seg # segments rest)"
  using assms next_segment_kind [OF assms] by (subst segments.simps) (auto split: seg_kind.splits)

lemma removed_later_removes:
  "removed_later_loop (int n) p \<longleftrightarrow> n < removes (segments p)"
proof (induction "length p" arbitrary: p n rule: less_induct)
  case less
  obtain k seg rest where ns: "next_segment p = (k, seg, rest)" by (metis prod_cases3)
  note kind = next_segment_kind [OF ns]
  show ?case
  proof (cases k)
    case SEG_END
    with ns kind show ?thesis by (subst removed_later_loop.simps) (simp add: segments_step [OF ns])
  next
    case SEG_NAME
    with ns kind less [of rest "Suc n"] next_segment_less [OF ns] show ?thesis
      by (subst removed_later_loop.simps) (auto simp: segments_step [OF ns] add.commute)
  next
    case SEG_DOT
    with ns kind less [of rest n] next_segment_less [OF ns] show ?thesis
      by (subst removed_later_loop.simps) (auto simp: segments_step [OF ns])
  next
    case SEG_DOT_DOT
    show ?thesis
    proof (cases n)
      case 0
      with SEG_DOT_DOT ns kind show ?thesis
        by (subst removed_later_loop.simps) (simp add: segments_step [OF ns])
    next
      case (Suc m)
      with SEG_DOT_DOT ns kind less [of rest m] next_segment_less [OF ns] show ?thesis
        by (subst removed_later_loop.simps) (auto simp: segments_step [OF ns])
    qed
  qed
qed

definition seg_text :: "bool \<Rightarrow> string \<Rightarrow> string" where
  "seg_text encode seg = (if encode then encoded True (encoded True seg) else seg)"

lemma normalized_loop_stay:
  "concat (fst (normalized_loop encode p)) = concat (map (\<lambda>s. CHR ''/'' # seg_text encode s) (stay (segments p))) \<and>
   (snd (normalized_loop encode p) \<longleftrightarrow> stay (segments p) \<noteq> [])"
proof (induction "length p" arbitrary: p rule: less_induct)
  case less
  obtain k seg rest where ns: "next_segment p = (k, seg, rest)" by (metis prod_cases3)
  note kind = next_segment_kind [OF ns]
  show ?case
  proof (cases "k = SEG_END")
    case True
    with ns kind show ?thesis by (subst (1 2) normalized_loop.simps) (simp add: segments_step [OF ns])
  next
    case False
    have IH: "concat (fst (normalized_loop encode rest)) = concat (map (\<lambda>s. CHR ''/'' # seg_text encode s) (stay (segments rest))) \<and>
        (snd (normalized_loop encode rest) \<longleftrightarrow> stay (segments rest) \<noteq> [])"
      by (rule less) (rule next_segment_less [OF ns False])
    have loop: "normalized_loop encode p =
        (if k \<noteq> SEG_NAME \<or> removed_later rest then normalized_loop encode rest
         else (''/'' # (if encode then put_encoded True True seg else [seg]) @ fst (normalized_loop encode rest), True))"
      using False ns by (subst normalized_loop.simps) (auto split: seg_kind.splits)
    have "removed_later rest \<longleftrightarrow> 0 < removes (segments rest)"
      using removed_later_removes [of 0 rest] by (simp add: removed_later_def)
    with loop IH kind False segments_step [OF ns] show ?thesis
      by (cases k) (auto simp: put_encoded_twice seg_text_def)
  qed
qed

text \<open>The path with its dot segments and empty segments removed.\<close>

definition normal_path :: "bool \<Rightarrow> string \<Rightarrow> string" where
  "normal_path encode path =
     (let ss = remove_dots (segments path)
      in concat (map (\<lambda>s. CHR ''/'' # seg_text encode s) ss) @ (if ss = [] \<or> last path = CHR ''/'' then ''/'' else ''''))"

lemma put_normalized_text: "concat (put_normalized encode path) = normal_path encode path"
  using normalized_loop_stay [of encode path]
  by (auto simp: put_normalized_def normal_path_def Let_def remove_dots_stay split: prod.splits)

subsection \<open>Trimming\<close>

function words :: "string \<Rightarrow> string list" where
  "words s =
     (let q = dropWhile isspace s
      in if q = [] then [] else takeWhile (\<lambda>c. \<not> isspace c) q # words (dropWhile (\<lambda>c. \<not> isspace c) q))"
  by pat_completeness auto
termination
proof (relation "measure length", simp)
  fix s q :: string
  assume q: "q = dropWhile isspace s" and "q \<noteq> []"
  then have "\<not> isspace (hd q)" by (simp add: hd_dropWhile)
  then have "dropWhile (\<lambda>c. \<not> isspace c) q = dropWhile (\<lambda>c. \<not> isspace c) (tl q)"
    using \<open>q \<noteq> []\<close> by (cases q) auto
  moreover have "length (dropWhile (\<lambda>c. \<not> isspace c) (tl q)) \<le> length (tl q)" by (rule length_dropWhile_le)
  moreover have "length (tl q) < length q" using \<open>q \<noteq> []\<close> by (cases q) auto
  moreover have "length q \<le> length s" unfolding q by (rule length_dropWhile_le)
  ultimately show "(dropWhile (\<lambda>c. \<not> isspace c) q, s) \<in> measure length" by simp
qed

declare words.simps [simp del]

fun join_with :: "char \<Rightarrow> string list \<Rightarrow> string" where
  "join_with c [] = []"
| "join_with c [w] = w"
| "join_with c (w # ws) = w @ c # join_with c ws"

lemma words_space: "isspace c \<Longrightarrow> words (c # s) = words s"
  by (subst (1 2) words.simps) simp

lemma words_Nil [simp]: "words [] = []"
  by (subst words.simps) simp

lemma words_nonspace:
  assumes "\<not> isspace c"
  shows "words (c # s) = (c # takeWhile (\<lambda>c. \<not> isspace c) s) # words (dropWhile (\<lambda>c. \<not> isspace c) s)"
  using assms by (subst words.simps) (simp add: Let_def)

lemma trimmed_loop_words:
  "concat (trimmed_loop True s) = (if words s = [] then [] else CHR '' '' # join_with CHR '' '' (words s)) \<and>
   concat (trimmed_loop False s) =
     takeWhile (\<lambda>c. \<not> isspace c) s @
     (case words (dropWhile (\<lambda>c. \<not> isspace c) s) of [] \<Rightarrow> [] | ws \<Rightarrow> CHR '' '' # join_with CHR '' '' ws)"
proof (induction s)
  case (Cons c s)
  show ?case
  proof (cases "isspace c")
    case True
    with Cons show ?thesis by (auto simp: words_space split: list.split)
  next
    case False
    with Cons show ?thesis
      by (cases "words (dropWhile (\<lambda>c. \<not> isspace c) s)") (auto simp: words_nonspace)
  qed
qed simp

lemma put_trimmed_words: "concat (put_trimmed v) = join_with CHR '' '' (words v)"
proof -
  define q where "q = dropWhile isspace v"
  have w: "words v = words q"
    unfolding q_def by (induction v) (auto simp: words_space)
  show ?thesis
  proof (cases q)
    case Nil
    then show ?thesis by (simp add: put_trimmed_def w flip: q_def)
  next
    case (Cons c cs)
    then have c: "\<not> isspace c" using hd_dropWhile [of isspace v] by (simp add: q_def)
    have "concat (put_trimmed v) = concat (trimmed_loop False q)" by (simp add: put_trimmed_def q_def)
    with trimmed_loop_words [of q] c Cons show ?thesis
      by (cases "words (dropWhile (\<lambda>c. \<not> isspace c) cs)") (auto simp: w words_nonspace)
  qed
qed

lemma put_lower_text [simp]: "concat (put_lower s) = map lower_char s"
  by (simp add: put_lower_def concat_map_singleton)

subsection \<open>Joining and splitting\<close>

fun split_on :: "char \<Rightarrow> string \<Rightarrow> string list" where
  "split_on c [] = [[]]"
| "split_on c (x # xs) =
     (if x = c then [] # split_on c xs else (x # hd (split_on c xs)) # tl (split_on c xs))"

lemma split_on_nonempty [simp]: "split_on c s \<noteq> []"
  by (cases s) auto

lemma split_on_append: "c \<notin> set w \<Longrightarrow> split_on c (w @ c # s) = w # split_on c s"
  by (induction w) auto

lemma split_on_single: "c \<notin> set w \<Longrightarrow> split_on c w = [w]"
  by (induction w) auto

lemma split_join: "ws \<noteq> [] \<Longrightarrow> \<forall>w \<in> set ws. c \<notin> set w \<Longrightarrow> split_on c (join_with c ws) = ws"
  by (induction c ws rule: join_with.induct) (auto simp: split_on_append split_on_single)

lemma join_with_Cons: "join_with c (w # ws) = w @ (if ws = [] then [] else c # join_with c ws)"
  by (cases ws) auto

lemma set_join_with: "set (join_with c ws) \<subseteq> insert c (\<Union> (set ` set ws))"
  by (induction c ws rule: join_with.induct) auto

lemma join_with_all: "\<forall>w \<in> set ws. \<forall>x \<in> set w. P x \<Longrightarrow> P c \<Longrightarrow> \<forall>x \<in> set (join_with c ws). P x"
  using set_join_with [of c ws] by blast

lemma takeWhile_sep: "c \<notin> set w \<Longrightarrow> takeWhile (\<lambda>x. x \<noteq> c) (w @ c # s) = w"
  by (induction w) auto

lemma dropWhile_sep: "c \<notin> set w \<Longrightarrow> dropWhile (\<lambda>x. x \<noteq> c) (w @ c # s) = c # s"
  by (induction w) auto

lemma length_join_with: "ws \<noteq> [] \<Longrightarrow> length (join_with c ws) + 1 = sum_list (map (\<lambda>w. length w + 1) ws)"
  by (induction c ws rule: join_with.induct) auto

end
