(* ===== verification/Aws_Headers.thy ===== *)
theory Aws_Headers
  imports Aws_Text "HOL-Library.Product_Lexorder"
begin

section \<open>AWS signing: headers and the canonical query\<close>

text \<open>
  \<open>collect_headers\<close>, \<open>esp_rmaker_aws_sign_build_signed_headers\<close> and \<open>esp_rmaker_aws_sign_build_query\<close> of
  \<open>components/rmaker_aws_sign/src/esp_rmaker_aws_sign_sigv4.c\<close>. \<open>qsort\<close> is modelled as sorting by its comparison; two
  parameters that compare equal are equal, so the order of equal ones cannot be seen. Allocations are arguments.
\<close>

definition MAX_HEADERS :: nat where "MAX_HEADERS = 16"

subsection \<open>Headers\<close>

record aws_header =
  h_name :: string
  h_value :: string

definition lower_name :: "aws_header \<Rightarrow> string" where
  "lower_name h = map lower_char (h_name h)"

definition name_reserved :: "aws_header list \<Rightarrow> string \<Rightarrow> bool" where
  "name_reserved builtin name \<longleftrightarrow>
     strcasecmp_eq name ''authorization'' \<or> list_ex (\<lambda>h. strcasecmp_eq (h_name h) name) builtin"

fun add_extra :: "aws_header list \<Rightarrow> (string option \<times> string option) list \<Rightarrow> aws_header list \<Rightarrow> aws_header list option" where
  "add_extra builtin [] h = Some h"
| "add_extra builtin (x # xs) h =
     (if length h \<ge> MAX_HEADERS then None
      else case x of
        (Some n, Some v) \<Rightarrow>
          if name_reserved builtin n then None
          else add_extra builtin xs (h @ [\<lparr>h_name = n, h_value = v\<rparr>])
      | _ \<Rightarrow> None)"

text \<open>The inner loop of the insertion sort; the sorted part is given from its last element backwards.\<close>

fun insert_back :: "aws_header \<Rightarrow> aws_header list \<Rightarrow> aws_header list" where
  "insert_back key [] = [key]"
| "insert_back key (h # hs) = (if lower_name h > lower_name key then h # insert_back key hs else key # h # hs)"

definition sort_headers :: "aws_header list \<Rightarrow> aws_header list" where
  "sort_headers h = rev (fold insert_back h [])"

definition collect_headers :: "aws_header list \<Rightarrow> (string option \<times> string option) list \<Rightarrow> aws_header list option" where
  "collect_headers builtin extra = map_option sort_headers (add_extra builtin extra builtin)"

text \<open>The pieces of the second pass; \<open>len\<close> is \<open>o.len\<close>, \<open>prev\<close> the name of the entry before.\<close>

fun signed_loop :: "nat \<Rightarrow> string option \<Rightarrow> aws_header list \<Rightarrow> string list" where
  "signed_loop len prev [] = []"
| "signed_loop len prev (h # hs) =
     (if (case prev of None \<Rightarrow> False | Some p \<Rightarrow> strcasecmp_eq (h_name h) p) then signed_loop len (Some (h_name h)) hs
      else
        (let ps = (if len > 0 then ['';''] else []) @ put_lower (h_name h)
         in ps @ signed_loop (len + length (concat ps)) (Some (h_name h)) hs))"

fun signed_cap :: "string option \<Rightarrow> aws_header list \<Rightarrow> nat" where
  "signed_cap prev [] = 0"
| "signed_cap prev (h # hs) =
     (if (case prev of None \<Rightarrow> False | Some p \<Rightarrow> strcasecmp_eq (h_name h) p) then 0 else length (h_name h) + 1)
     + signed_cap (Some (h_name h)) hs"

text \<open>A buffer from \<open>calloc\<close> written once, as a C string.\<close>

definition calloc_write :: "nat \<Rightarrow> string list \<Rightarrow> string" where
  "calloc_write cap ps =
     (case write_chunks (Some (replicate cap CHR 0x00)) ps of (_, Some b) \<Rightarrow> c_str b | _ \<Rightarrow> [])"

definition build_signed_headers :: "bool \<Rightarrow> aws_header list \<Rightarrow> esp_err \<times> string option" where
  "build_signed_headers alloc hs =
     (if hs = [] then (ESP_ERR_INVALID_ARG, None)
      else if \<not> alloc then (ESP_ERR_NO_MEM, None)
      else (ESP_OK, Some (calloc_write (1 + signed_cap None hs) (signed_loop 0 None hs))))"

subsection \<open>The canonical query\<close>

definition encode_dup :: "bool \<Rightarrow> string \<Rightarrow> string option" where
  "encode_dup alloc s =
     (let (n, _) = write_chunks None (put_encoded False False s)
      in if alloc then Some (calloc_write (n + 1) (put_encoded False False s)) else None)"

text \<open>The loop that encodes; \<open>alloc k\<close> is the \<open>k\<close>-th allocation from here on. \<open>None\<close>: one failed.\<close>

fun encode_params :: "(nat \<Rightarrow> bool) \<Rightarrow> nat \<Rightarrow> (string \<times> string option) list \<Rightarrow> (string \<times> string) list option" where
  "encode_params alloc k [] = Some []"
| "encode_params alloc k ((n, v) # ps) =
     (case (encode_dup (alloc k) n, encode_dup (alloc (k + 1)) (case v of None \<Rightarrow> '''' | Some x \<Rightarrow> x)) of
        (Some n', Some v') \<Rightarrow> map_option (Cons (n', v')) (encode_params alloc (k + 2) ps)
      | _ \<Rightarrow> None)"

fun query_pieces :: "bool \<Rightarrow> (string \<times> string) list \<Rightarrow> string list" where
  "query_pieces first [] = []"
| "query_pieces first ((n, v) # ps) = (if first then [] else [''&'']) @ [n, ''='', v] @ query_pieces False ps"

definition query_cap :: "(string \<times> string) list \<Rightarrow> nat" where
  "query_cap ps = 1 + sum_list (map (\<lambda>(n, v). length n + 1 + length v + 1) ps)"

definition build_query ::
  "(nat \<Rightarrow> bool) \<Rightarrow> (string option \<times> string option) list \<Rightarrow> esp_err \<times> string option" where
  "build_query alloc params =
     (if list_ex (\<lambda>(n, v). n = None) params then (ESP_ERR_INVALID_ARG, None)
      else if params = [] then (ESP_OK, None)
      else if \<not> alloc 0 then (ESP_ERR_NO_MEM, None)
      else case encode_params alloc 1 (map (\<lambda>(n, v). (the n, v)) params) of
        None \<Rightarrow> (ESP_ERR_NO_MEM, None)
      | Some enc \<Rightarrow>
          (let es = sort enc
           in if \<not> alloc (1 + 2 * length params) then (ESP_ERR_NO_MEM, None)
              else (ESP_OK, Some (calloc_write (query_cap enc) (query_pieces True es)))))"

subsection \<open>Writing into an exactly sized buffer\<close>

lemma calloc_write_text:
  assumes "length (concat ps) < cap" and "CHR 0x00 \<notin> set (concat ps)"
  shows "calloc_write cap ps = concat ps"
  using write_fits [of ps "replicate cap CHR 0x00"] assms by (simp add: calloc_write_def c_str_text)

lemma encoded_no_nul: "CHR 0x00 \<notin> set (encoded ks s)"
  using encoded_chars [of "CHR 0x00" ks s] by (auto simp: pass_through_def isalnum_def code_def)

lemma encode_dup_text: "encode_dup True s = Some (encoded False s)"
  using encoded_no_nul [of False s]
  by (simp add: encode_dup_def write_counts calloc_write_text flip: encoded_def)

lemma encode_params_text:
  "\<forall>k. alloc k \<Longrightarrow> encode_params alloc k ps =
     Some (map (\<lambda>(n, v). (encoded False n, encoded False (case v of None \<Rightarrow> '''' | Some x \<Rightarrow> x))) ps)"
  by (induction alloc k ps rule: encode_params.induct) (auto simp: encode_dup_text)

subsection \<open>The header sort is stable\<close>

lemma mset_insert_back: "mset (insert_back k hs) = add_mset k (mset hs)"
  by (induction hs) auto

lemma sorted_insert_back:
  "sorted_wrt (\<lambda>a b. lower_name a \<ge> lower_name b) hs \<Longrightarrow> sorted_wrt (\<lambda>a b. lower_name a \<ge> lower_name b) (insert_back k hs)"
proof (induction hs)
  case (Cons h hs)
  have "set (insert_back k hs) = insert k (set hs)"
    using mset_insert_back [of k hs] by (metis set_mset_add_mset_insert set_mset_mset)
  with Cons show ?case by auto
qed simp

lemma filter_insert_back:
  "sorted_wrt (\<lambda>a b. lower_name a \<ge> lower_name b) hs \<Longrightarrow>
   filter (\<lambda>h. lower_name h = l) (insert_back k hs) =
     (if lower_name k = l then k # filter (\<lambda>h. lower_name h = l) hs else filter (\<lambda>h. lower_name h = l) hs)"
proof (induction hs)
  case (Cons h hs)
  then show ?case by auto
qed simp

lemma fold_insert_back:
  assumes "sorted_wrt (\<lambda>a b. lower_name a \<ge> lower_name b) acc"
  shows "mset (fold insert_back hs acc) = mset hs + mset acc \<and>
    sorted_wrt (\<lambda>a b. lower_name a \<ge> lower_name b) (fold insert_back hs acc) \<and>
    filter (\<lambda>h. lower_name h = l) (fold insert_back hs acc) =
      rev (filter (\<lambda>h. lower_name h = l) hs) @ filter (\<lambda>h. lower_name h = l) acc"
  using assms
proof (induction hs arbitrary: acc)
  case (Cons h hs)
  from Cons.IH [OF sorted_insert_back [OF Cons.prems, of h]] show ?case
    by (simp add: mset_insert_back filter_insert_back [OF Cons.prems])
qed simp

lemma sort_headers_stable: "sort_headers h = sort_key lower_name h"
proof (rule properties_for_sort_key [symmetric])
  note f = fold_insert_back [of "[]" h]
  show "mset (sort_headers h) = mset h" using f by (simp add: sort_headers_def)
  show "filter (\<lambda>x. lower_name k = lower_name x) (sort_headers h) = filter (\<lambda>x. lower_name k = lower_name x) h" for k
    using f [of "lower_name k"] by (simp add: sort_headers_def rev_filter [symmetric] eq_commute [of "lower_name k"])
  have "sorted_wrt (\<lambda>a b. lower_name a \<ge> lower_name b) (fold insert_back h [])" using f by simp
  then show "sorted (map lower_name (sort_headers h))"
    by (simp add: sort_headers_def sorted_map sorted_wrt_rev)
qed

subsection \<open>The signed header names\<close>

definition signed_names :: "aws_header list \<Rightarrow> string list" where
  "signed_names hs = remdups_adj (map lower_name hs)"

lemma code_inject: "code c = code d \<longleftrightarrow> c = d"
  by (metis char_of_code)

lemma code_0: "code c = 0 \<longleftrightarrow> c = CHR 0x00"
  using code_inject [of c "CHR 0x00"] by (simp add: code_def)

lemma lower_char_nul: "lower_char c = CHR 0x00 \<longleftrightarrow> c = CHR 0x00"
proof
  assume "lower_char c = CHR 0x00"
  then have "code (lower_char c) = 0" by (simp add: code_0)
  then have "code c = 0" by (auto simp: lower_char_def code_def split: if_splits)
  then show "c = CHR 0x00" by (simp add: code_0)
qed (simp add: lower_char_def code_def)

lemma remdups_adj_head:
  obtains ws where "remdups_adj (x # xs) = x # ws"
  by (metis hd_remdups_adj list.collapse list.distinct(1) list.sel(1) remdups_adj_Nil_iff)

lemma strcasecmp_lower: "strcasecmp_eq (h_name h) p \<longleftrightarrow> lower_name h = map lower_char p"
  by (simp add: strcasecmp_eq_def lower_name_def)

lemma length_lower_name [simp]: "length (lower_name h) = length (h_name h)"
  by (simp add: lower_name_def)

lemma signed_loop_rest:
  assumes "\<forall>h \<in> set hs. h_name h \<noteq> []" and "len > 0"
  shows "concat (signed_loop len (Some p) hs) =
    concat (map (\<lambda>w. CHR '';'' # w) (tl (remdups_adj (map lower_char p # map lower_name hs))))"
  using assms
proof (induction hs arbitrary: len p)
  case (Cons h hs)
  show ?case
  proof (cases "lower_name h = map lower_char p")
    case True
    with Cons.IH [of len "h_name h"] Cons.prems show ?thesis
      by (simp add: strcasecmp_lower flip: lower_name_def)
  next
    case False
    obtain ws where ws: "remdups_adj (lower_name h # map lower_name hs) = lower_name h # ws" by (rule remdups_adj_head)
    have "concat (signed_loop (len + Suc (length (h_name h))) (Some (h_name h)) hs) = concat (map (\<lambda>w. CHR '';'' # w) ws)"
      using Cons.IH [of "len + Suc (length (h_name h))" "h_name h"] Cons.prems ws by (simp flip: lower_name_def)
    then show ?thesis
      using False Cons.prems ws by (simp add: strcasecmp_lower Let_def flip: lower_name_def)
  qed
qed simp

lemma join_tl: "ws \<noteq> [] \<Longrightarrow> join_with c ws = hd ws @ concat (map (\<lambda>w. c # w) (tl ws))"
  by (induction c ws rule: join_with.induct) auto

lemma signed_loop_text:
  assumes "\<forall>h \<in> set hs. h_name h \<noteq> []"
  shows "concat (signed_loop 0 None hs) = join_with CHR '';'' (signed_names hs)"
proof (cases hs)
  case (Cons h hs')
  obtain ws where ws: "remdups_adj (lower_name h # map lower_name hs') = lower_name h # ws" by (rule remdups_adj_head)
  have "concat (signed_loop (length (h_name h)) (Some (h_name h)) hs') = concat (map (\<lambda>w. CHR '';'' # w) ws)"
    using signed_loop_rest [of hs' "length (h_name h)" "h_name h"] assms Cons ws by (simp flip: lower_name_def)
  then show ?thesis
    using Cons ws by (simp add: signed_names_def join_tl flip: lower_name_def)
qed (simp add: signed_names_def)

lemma signed_cap_rest:
  "signed_cap (Some p) hs = sum_list (map (\<lambda>w. length w + 1) (tl (remdups_adj (map lower_char p # map lower_name hs))))"
proof (induction hs arbitrary: p)
  case (Cons h hs)
  obtain ws where "remdups_adj (lower_name h # map lower_name hs) = lower_name h # ws" by (rule remdups_adj_head)
  with Cons [of "h_name h"] show ?case
    by (auto simp: strcasecmp_lower simp flip: lower_name_def)
qed simp

lemma signed_cap_text:
  assumes "hs \<noteq> []"
  shows "signed_cap None hs = length (join_with CHR '';'' (signed_names hs)) + 1"
proof -
  obtain h hs' where hs: "hs = h # hs'" using assms by (cases hs) auto
  obtain ws where ws: "remdups_adj (lower_name h # map lower_name hs') = lower_name h # ws" by (rule remdups_adj_head)
  have "signed_cap None hs = sum_list (map (\<lambda>w. length w + 1) (signed_names hs))"
    using signed_cap_rest [of "h_name h" hs'] ws by (simp add: hs signed_names_def flip: lower_name_def)
  moreover have "signed_names hs \<noteq> []" by (simp add: hs signed_names_def)
  ultimately show ?thesis using length_join_with [of "signed_names hs" "CHR '';''"] by simp
qed

text \<open>Header names are non-empty C strings.\<close>

definition names_ok :: "aws_header list \<Rightarrow> bool" where
  "names_ok hs \<longleftrightarrow> (\<forall>h \<in> set hs. h_name h \<noteq> [] \<and> CHR 0x00 \<notin> set (h_name h))"

lemma signed_names_no_nul: "names_ok hs \<Longrightarrow> CHR 0x00 \<notin> set (join_with CHR '';'' (signed_names hs))"
  using set_join_with [of "CHR '';''" "signed_names hs"]
  by (auto simp: signed_names_def names_ok_def lower_name_def dest!: lower_char_nul [THEN iffD1, OF sym])

lemma signed_headers_text:
  assumes "hs \<noteq> []" and "names_ok hs"
  shows "build_signed_headers True hs = (ESP_OK, Some (join_with CHR '';'' (signed_names hs)))"
proof -
  have t: "concat (signed_loop 0 None hs) = join_with CHR '';'' (signed_names hs)"
    by (rule signed_loop_text) (use assms(2) in \<open>auto simp: names_ok_def\<close>)
  have "calloc_write (1 + signed_cap None hs) (signed_loop 0 None hs) = concat (signed_loop 0 None hs)"
    by (rule calloc_write_text) (use signed_cap_text [OF assms(1)] signed_names_no_nul [OF assms(2)] in \<open>simp_all add: t\<close>)
  with assms(1) t show ?thesis by (simp add: build_signed_headers_def)
qed

subsection \<open>The query text\<close>

definition param_text :: "string \<times> string \<Rightarrow> string" where
  "param_text p = fst p @ CHR ''='' # snd p"

lemma query_pieces_text:
  "concat (query_pieces first ps) =
     (if ps = [] then [] else (if first then [] else ''&'') @ join_with CHR ''&'' (map param_text ps))"
  by (induction first ps rule: query_pieces.induct) (auto simp: param_text_def join_with_Cons)

lemma sum_list_mset:
  fixes f :: "'a \<Rightarrow> nat"
  assumes "mset xs = mset ys"
  shows "sum_list (map f xs) = sum_list (map f ys)"
  using arg_cong [OF assms, of "\<lambda>m. sum_mset (image_mset f m)"] by (simp add: sum_mset_sum_list flip: mset_map)

lemma query_cap_text: "mset es = mset ps \<Longrightarrow> ps \<noteq> [] \<Longrightarrow> length (join_with CHR ''&'' (map param_text es)) + 2 = query_cap ps"
proof -
  assume m: "mset es = mset ps" and "ps \<noteq> []"
  then have "map param_text es \<noteq> []" by auto
  from length_join_with [OF this, of "CHR ''&''"]
  have "length (join_with CHR ''&'' (map param_text es)) + 1 = sum_list (map (\<lambda>(n, v). length n + 1 + length v + 1) es)"
    by (simp add: param_text_def comp_def case_prod_beta')
  also have "\<dots> = sum_list (map (\<lambda>(n, v). length n + 1 + length v + 1) ps)"
    using m by (rule sum_list_mset)
  finally show ?thesis by (simp add: query_cap_def)
qed

definition enc_param :: "string \<times> string \<Rightarrow> string \<times> string" where
  "enc_param p = (encoded False (fst p), encoded False (snd p))"

text \<open>The inverse: split, then decode each name and value.\<close>

definition parse_param :: "string \<Rightarrow> string \<times> string" where
  "parse_param s = (pct_decode (takeWhile (\<lambda>c. c \<noteq> CHR ''='') s), pct_decode (drop 1 (dropWhile (\<lambda>c. c \<noteq> CHR ''='') s)))"

definition parse_query :: "string \<Rightarrow> (string \<times> string) list" where
  "parse_query q = map parse_param (split_on CHR ''&'' q)"

lemma encoded_no_sep: "CHR ''&'' \<notin> set (encoded False s)" "CHR ''='' \<notin> set (encoded False s)"
  using encoded_chars [of _ False s] by (fastforce simp: pass_through_def isalnum_def code_def)+

lemma parse_param_text: "parse_param (param_text (enc_param p)) = p"
proof -
  have "takeWhile (\<lambda>c. c \<noteq> CHR ''='') (encoded False s @ CHR ''='' # t) = encoded False s"
    "dropWhile (\<lambda>c. c \<noteq> CHR ''='') (encoded False s @ CHR ''='' # t) = CHR ''='' # t" for s t
    using encoded_no_sep(2) [of s] by (simp_all add: takeWhile_sep dropWhile_sep)
  then show ?thesis by (simp add: parse_param_def param_text_def enc_param_def pct_decode_encoded)
qed

lemma sort_key_empty: "sort_key f xs = [] \<longleftrightarrow> xs = []"
  by (metis length_0_conv length_sort)

lemma sort_map: "sort (map f xs) = map f (sort_key f xs)"
  by (rule properties_for_sort) simp_all

definition plain_params :: "(string option \<times> string option) list \<Rightarrow> (string \<times> string) list" where
  "plain_params = map (\<lambda>(n, v). (the n, case v of None \<Rightarrow> '''' | Some x \<Rightarrow> x))"

lemma build_query_text:
  assumes "\<forall>k. alloc k" and "\<forall>p \<in> set params. fst p \<noteq> None" and "params \<noteq> []"
  shows "build_query alloc params =
    (ESP_OK, Some (join_with CHR ''&'' (map (param_text \<circ> enc_param) (sort_key enc_param (plain_params params)))))"
proof -
  let ?enc = "map enc_param (plain_params params)"
  let ?es = "sort ?enc"
  have enc: "encode_params alloc 1 (map (\<lambda>(n, v). (the n, v)) params) = Some ?enc"
    using encode_params_text [OF assms(1)] by (simp add: plain_params_def enc_param_def comp_def case_prod_beta')
  have ne: "?enc \<noteq> []" using assms(3) by (simp add: plain_params_def)
  have t: "concat (query_pieces True ?es) = join_with CHR ''&'' (map param_text ?es)"
    using ne by (simp add: query_pieces_text)
  have "CHR 0x00 \<notin> set (join_with CHR ''&'' (map param_text ?es))"
    using join_with_all [of "map param_text ?es" "\<lambda>x. x \<noteq> CHR 0x00" "CHR ''&''"] encoded_no_nul
    by (auto simp: param_text_def enc_param_def)
  then have "calloc_write (query_cap ?enc) (query_pieces True ?es) = join_with CHR ''&'' (map param_text ?es)"
    using calloc_write_text [of "query_pieces True ?es" "query_cap ?enc"] query_cap_text [of ?es ?enc] ne by (simp add: t)
  with assms enc show ?thesis
    by (auto simp: build_query_def Let_def list_ex_iff sort_map)
qed

text \<open>
  C37. The canonical query is canonical and loses nothing: with every allocation granted, the query built from named
  parameters consists of the parameters in the order of their encoded names and values (so it does not depend on the
  caller's order), and splitting it at \<open>&\<close> and \<open>=\<close> and percent-decoding gives back exactly the parameters; the buffer
  sized beforehand holds it.
\<close>

theorem query_roundtrip:
  assumes "\<forall>k. alloc k" and "\<forall>p \<in> set params. fst p \<noteq> None" and "params \<noteq> []"
  shows "\<exists>q. build_query alloc params = (ESP_OK, Some q) \<and>
    mset (parse_query q) = mset (map (\<lambda>(n, v). (the n, case v of None \<Rightarrow> '''' | Some x \<Rightarrow> x)) params) \<and>
    sorted (map enc_param (parse_query q)) \<and> (\<forall>c \<in> set q. pass_through False c \<or> c \<in> {CHR ''%'', CHR ''&'', CHR ''=''})"
proof -
  let ?ps = "sort_key enc_param (plain_params params)"
  let ?q = "join_with CHR ''&'' (map (param_text \<circ> enc_param) ?ps)"
  have ne: "?ps \<noteq> []"
    using assms(3) by (simp add: plain_params_def sort_key_empty)
  have "split_on CHR ''&'' ?q = map (param_text \<circ> enc_param) ?ps"
    by (rule split_join) (use ne encoded_no_sep in \<open>auto simp: param_text_def enc_param_def\<close>)
  then have p: "parse_query ?q = ?ps" by (simp add: parse_query_def parse_param_text comp_def)
  have "\<forall>c \<in> set ?q. pass_through False c \<or> c \<in> {CHR ''%'', CHR ''&'', CHR ''=''}"
    by (rule join_with_all) (use encoded_chars [of _ False] in \<open>auto simp: param_text_def enc_param_def\<close>)
  with p build_query_text [OF assms] show ?thesis by (simp add: plain_params_def)
qed

theorem query_roundtrip_witness:
  "\<exists>q. build_query (\<lambda>_. True) [(Some ''b'', Some ''1 2''), (Some ''a'', None)] = (ESP_OK, Some q) \<and>
    mset (parse_query q) = {# (''a'', ''''), (''b'', ''1 2'') #}"
  using query_roundtrip [of "\<lambda>_. True" "[(Some ''b'', Some ''1 2''), (Some ''a'', None)]"]
  by (auto simp: add_mset_commute)

end
