(* ===== verification/Aws_Crypto.thy ===== *)
theory Aws_Crypto
  imports Aws_Headers
begin

section \<open>AWS signing: the crypto port\<close>

text \<open>
  The crypto table of a port (\<open>esp_rmaker_aws_sign_crypto_ops_t\<close>), the hashing mode of the output sink of
  \<open>esp_rmaker_aws_sign_sigv4.c\<close>, and the ESP port's table, \<open>components/rmaker_aws_sign/port/esp/crypto.c\<close>: SHA-256 and an
  RFC 2104 HMAC over the PSA hash functions. PSA itself is outside the repository: \<open>psa\<close> says which calls succeed and
  what the digest is. The locale is what the signer relies on; the ESP port is its instance.
\<close>

subsection \<open>The table and the sink\<close>

text \<open>The context type is the port's own; an operation that takes a context pointer returns the context afterwards.\<close>

record 'x crypto_ops =
  sha256_init :: "esp_err \<times> 'x"
  sha256_update :: "'x \<Rightarrow> string \<Rightarrow> esp_err \<times> 'x"
  sha256_finish :: "'x \<Rightarrow> esp_err \<times> string"
  hmac_sha256 :: "string \<Rightarrow> string \<Rightarrow> esp_err \<times> string"

text \<open>\<open>aws_out_t\<close> in digest mode.\<close>

record 'x aws_hash =
  ah_ctx :: 'x
  ah_err :: esp_err

definition out_hash_init :: "'x crypto_ops \<Rightarrow> 'x aws_hash" where
  "out_hash_init cr = (case sha256_init cr of (e, x) \<Rightarrow> \<lparr>ah_ctx = x, ah_err = e\<rparr>)"

definition out_hash_put :: "'x crypto_ops \<Rightarrow> string \<Rightarrow> 'x aws_hash \<Rightarrow> 'x aws_hash" where
  "out_hash_put cr p oh =
     (if ah_err oh = ESP_OK
      then (case sha256_update cr (ah_ctx oh) p of (e, x) \<Rightarrow> \<lparr>ah_ctx = x, ah_err = e\<rparr>) else oh)"

definition out_hash_finish :: "'x crypto_ops \<Rightarrow> 'x aws_hash \<Rightarrow> esp_err \<times> string" where
  "out_hash_finish cr oh = (if ah_err oh \<noteq> ESP_OK then (ah_err oh, []) else sha256_finish cr (ah_ctx oh))"

text \<open>Both users of the digest mode: init, the pieces, finish.\<close>

definition hash_pieces :: "'x crypto_ops \<Rightarrow> string list \<Rightarrow> esp_err \<times> string" where
  "hash_pieces cr ps =
     (let oh = out_hash_init cr
      in if ah_err oh \<noteq> ESP_OK then (ESP_FAIL, []) else out_hash_finish cr (fold (out_hash_put cr) ps oh))"

definition aws_sha256 :: "'x crypto_ops \<Rightarrow> string \<Rightarrow> esp_err \<times> string" where
  "aws_sha256 cr data = hash_pieces cr [data]"

subsection \<open>What the signer relies on\<close>

text \<open>
  \<open>absorbed\<close> is the data a context has taken in. A call may fail; one that succeeds does what it says.
\<close>

locale sha256_port =
  fixes cr :: "'x crypto_ops"
    and absorbed :: "'x \<Rightarrow> string"
    and sha :: "string \<Rightarrow> string"
    and hmac :: "string \<Rightarrow> string \<Rightarrow> string"
  assumes init_empty: "sha256_init cr = (ESP_OK, x) \<Longrightarrow> absorbed x = []"
    and update_absorbs: "sha256_update cr x p = (ESP_OK, x') \<Longrightarrow> absorbed x' = absorbed x @ p"
    and finish_digest: "sha256_finish cr x = (ESP_OK, d) \<Longrightarrow> d = sha (absorbed x)"
    and hmac_value: "hmac_sha256 cr k m = (ESP_OK, d) \<Longrightarrow> d = hmac k m"
begin

lemma put_absorbs:
  "ah_err (fold (out_hash_put cr) ps oh) = ESP_OK \<Longrightarrow>
   ah_err oh = ESP_OK \<and> absorbed (ah_ctx (fold (out_hash_put cr) ps oh)) = absorbed (ah_ctx oh) @ concat ps"
proof (induction ps arbitrary: oh)
  case (Cons p ps)
  let ?oh = "out_hash_put cr p oh"
  from Cons.IH [of ?oh] Cons.prems have e: "ah_err ?oh = ESP_OK"
    and a: "absorbed (ah_ctx (fold (out_hash_put cr) ps ?oh)) = absorbed (ah_ctx ?oh) @ concat ps" by simp_all
  from e have "ah_err oh = ESP_OK" by (auto simp: out_hash_put_def split: if_splits)
  moreover from this e have "absorbed (ah_ctx ?oh) = absorbed (ah_ctx oh) @ p"
    using update_absorbs [of "ah_ctx oh" p] by (auto simp: out_hash_put_def split: prod.splits)
  ultimately show ?case using a by simp
qed simp

text \<open>Streaming the pieces is hashing the text they make.\<close>

lemma hash_pieces_digest:
  assumes "hash_pieces cr ps = (ESP_OK, d)"
  shows "d = sha (concat ps)"
proof -
  let ?oh = "out_hash_init cr"
  let ?e = "fold (out_hash_put cr) ps ?oh"
  from assms have i: "ah_err ?oh = ESP_OK" and f: "out_hash_finish cr ?e = (ESP_OK, d)"
    by (auto simp: hash_pieces_def Let_def split: if_splits)
  from f have e: "ah_err ?e = ESP_OK" and d: "sha256_finish cr (ah_ctx ?e) = (ESP_OK, d)"
    by (auto simp: out_hash_finish_def split: if_splits)
  have "absorbed (ah_ctx ?oh) = []"
    using i init_empty by (auto simp: out_hash_init_def split: prod.splits)
  with put_absorbs [OF e] finish_digest [OF d] show ?thesis by simp
qed

lemma aws_sha256_digest: "aws_sha256 cr data = (ESP_OK, d) \<Longrightarrow> d = sha data"
  using hash_pieces_digest [of "[data]" d] by (simp add: aws_sha256_def)

end

subsection \<open>The ESP port\<close>

record psa =
  psa_setup_ok :: bool
  psa_update_ok :: "string \<Rightarrow> string \<Rightarrow> bool"
  psa_finish_ok :: "string \<Rightarrow> bool"
  psa_digest :: "string \<Rightarrow> string"

definition HMAC_BLOCK_LEN :: nat where "HMAC_BLOCK_LEN = 64"

text \<open>The operation is the data given so far, \<open>None\<close> when inactive.\<close>

definition esp_sha256_init :: "psa \<Rightarrow> esp_err \<times> string option" where
  "esp_sha256_init p = (if psa_setup_ok p then (ESP_OK, Some []) else (ESP_FAIL, None))"

definition esp_sha256_update :: "psa \<Rightarrow> string option \<Rightarrow> string \<Rightarrow> esp_err \<times> string option" where
  "esp_sha256_update p x d =
     (case x of None \<Rightarrow> (ESP_FAIL, None)
      | Some s \<Rightarrow> if psa_update_ok p s d then (ESP_OK, Some (s @ d)) else (ESP_FAIL, None))"

definition esp_sha256_finish :: "psa \<Rightarrow> string option \<Rightarrow> esp_err \<times> string" where
  "esp_sha256_finish p x =
     (case x of None \<Rightarrow> (ESP_FAIL, [])
      | Some s \<Rightarrow> if psa_finish_ok p s \<and> length (psa_digest p s) = 32 then (ESP_OK, psa_digest p s) else (ESP_FAIL, []))"

text \<open>One pass; \<open>None\<close>: a PSA call failed.\<close>

definition hmac_pass :: "psa \<Rightarrow> string \<Rightarrow> string \<Rightarrow> string option" where
  "hmac_pass p pad data =
     (if psa_setup_ok p \<and> psa_update_ok p [] pad \<and> psa_update_ok p pad data \<and> psa_finish_ok p (pad @ data)
      then Some (psa_digest p (pad @ data)) else None)"

definition xor_char :: "nat \<Rightarrow> char \<Rightarrow> char" where
  "xor_char k c = char_of (Bit_Operations.xor (code c) k)"

definition copy_pad :: "string \<Rightarrow> string" where
  "copy_pad k = k @ replicate (HMAC_BLOCK_LEN - length k) CHR 0x00"

definition esp_hmac_sha256 :: "psa \<Rightarrow> string \<Rightarrow> string \<Rightarrow> esp_err \<times> string" where
  "esp_hmac_sha256 p key msg =
     (case (if length key > HMAC_BLOCK_LEN
            then (if psa_setup_ok p \<and> psa_update_ok p [] key \<and> psa_finish_ok p key then Some (psa_digest p key) else None)
            else Some key) of
        None \<Rightarrow> (ESP_FAIL, [])
      | Some k \<Rightarrow>
          (let pad1 = map (xor_char 0x36) (copy_pad k)
           in case hmac_pass p pad1 msg of
                None \<Rightarrow> (ESP_FAIL, [])
              | Some inner \<Rightarrow>
                  (let pad2 = map (xor_char (Bit_Operations.xor 0x36 0x5c)) pad1
                   in case hmac_pass p pad2 inner of
                        None \<Rightarrow> (ESP_FAIL, [])
                      | Some d \<Rightarrow> (ESP_OK, d))))"

definition esp_crypto_ops :: "psa \<Rightarrow> string option crypto_ops" where
  "esp_crypto_ops p =
     \<lparr>sha256_init = esp_sha256_init p, sha256_update = esp_sha256_update p, sha256_finish = esp_sha256_finish p,
      hmac_sha256 = esp_hmac_sha256 p\<rparr>"

subsection \<open>The ESP port keeps the contract\<close>

text \<open>RFC 2104: \<open>H(K XOR opad, H(K XOR ipad, text))\<close>, \<open>K\<close> the key or its digest, padded to the block length.\<close>

definition hmac_block_key :: "(string \<Rightarrow> string) \<Rightarrow> string \<Rightarrow> string" where
  "hmac_block_key H key =
     (let k = (if length key > 64 then H key else key) in k @ replicate (64 - length k) CHR 0x00)"

definition hmac_rfc2104 :: "(string \<Rightarrow> string) \<Rightarrow> string \<Rightarrow> string \<Rightarrow> string" where
  "hmac_rfc2104 H key msg =
     (let K = hmac_block_key H key
      in H (map (xor_char 0x5c) K @ H (map (xor_char 0x36) K @ msg)))"

lemma code_char_of: "code (char_of n) = take_bit 8 n"
  by (simp add: code_def take_bit_eq_mod)

lemma xor_char_comp: "xor_char b (xor_char a c) = xor_char (Bit_Operations.xor a b) c"
proof -
  have "xor_char b (xor_char a c) = char_of (take_bit 8 (Bit_Operations.xor (take_bit 8 (Bit_Operations.xor (code c) a)) b))"
    by (simp only: xor_char_def code_char_of char_of_take_bit_eq order_refl)
  also have "\<dots> = char_of (take_bit 8 (Bit_Operations.xor (code c) (Bit_Operations.xor a b)))"
    by (simp add: take_bit_xor xor.assoc)
  finally show ?thesis by (simp only: xor_char_def char_of_take_bit_eq order_refl)
qed

lemma repad: "map (xor_char 106) (map (xor_char 54) k) = map (xor_char 92) k"
  by (simp add: xor_char_comp)

lemma hmac_block_copy: "hmac_block_key H key = copy_pad (if length key > HMAC_BLOCK_LEN then H key else key)"
  by (simp add: hmac_block_key_def copy_pad_def HMAC_BLOCK_LEN_def Let_def)

lemma esp_hmac_value:
  assumes "esp_hmac_sha256 p key msg = (ESP_OK, d)"
  shows "d = hmac_rfc2104 (psa_digest p) key msg"
  using assms
  by (auto simp: esp_hmac_sha256_def hmac_pass_def hmac_rfc2104_def hmac_block_copy Let_def repad simp del: map_map split: if_splits)

interpretation esp_port: sha256_port "esp_crypto_ops p" "\<lambda>x. case x of None \<Rightarrow> [] | Some s \<Rightarrow> s" "psa_digest p" "hmac_rfc2104 (psa_digest p)" for p
  by unfold_locales
    (auto simp: esp_crypto_ops_def esp_sha256_init_def esp_sha256_update_def esp_sha256_finish_def
      split: if_splits option.splits dest: esp_hmac_value)

text \<open>When PSA never fails, no operation of the port does.\<close>

definition psa_works :: "psa \<Rightarrow> bool" where
  "psa_works p \<longleftrightarrow> psa_setup_ok p \<and> (\<forall>s d. psa_update_ok p s d) \<and> (\<forall>s. psa_finish_ok p s \<and> length (psa_digest p s) = 32)"

lemma esp_put_ok:
  assumes "psa_works p"
  shows "fold (out_hash_put (esp_crypto_ops p)) ps \<lparr>ah_ctx = Some s, ah_err = ESP_OK\<rparr> = \<lparr>ah_ctx = Some (s @ concat ps), ah_err = ESP_OK\<rparr>"
  using assms by (induction ps arbitrary: s) (auto simp: out_hash_put_def esp_crypto_ops_def esp_sha256_update_def psa_works_def)

lemma esp_hash_ok:
  assumes "psa_works p"
  shows "hash_pieces (esp_crypto_ops p) ps = (ESP_OK, psa_digest p (concat ps))"
proof -
  have "out_hash_init (esp_crypto_ops p) = \<lparr>ah_ctx = Some [], ah_err = ESP_OK\<rparr>"
    using assms by (simp add: out_hash_init_def esp_crypto_ops_def esp_sha256_init_def psa_works_def)
  moreover have "sha256_finish (esp_crypto_ops p) (Some s) = (ESP_OK, psa_digest p s)" for s
    using assms by (simp add: esp_crypto_ops_def esp_sha256_finish_def psa_works_def)
  ultimately show ?thesis
    by (simp add: hash_pieces_def esp_put_ok [OF assms] out_hash_finish_def)
qed

lemma esp_hmac_ok:
  assumes "psa_works p"
  shows "hmac_sha256 (esp_crypto_ops p) k m = (ESP_OK, hmac_rfc2104 (psa_digest p) k m)"
proof -
  have "\<exists>d. esp_hmac_sha256 p k m = (ESP_OK, d)"
    using assms by (auto simp: esp_hmac_sha256_def hmac_pass_def psa_works_def Let_def)
  with esp_hmac_value [of p k m] show ?thesis by (auto simp: esp_crypto_ops_def)
qed

end
