(* ===== verification/Aws_Sigv4.thy ===== *)
theory Aws_Sigv4
  imports Aws_Crypto Aws_Time
begin

section \<open>AWS signing: the signer\<close>

text \<open>
  \<open>sign_canonical\<close>, \<open>esp_rmaker_aws_sign_sigv4_with_query\<close>, \<open>esp_rmaker_aws_sign_sigv4\<close> and
  \<open>esp_rmaker_aws_sign_presign_url\<close> of \<open>components/rmaker_aws_sign/src/esp_rmaker_aws_sign_sigv4.c\<close>. Pointers that may
  be NULL are options. The reference is the text of the SigV4 specification: canonical request, string to sign,
  signing key.
\<close>

definition NL :: char where "NL = CHR 0x0A"

definition SCOPE_LEN :: nat where "SCOPE_LEN = 128"
definition STS_LEN :: nat where "STS_LEN = 320"
definition AKEY_LEN :: nat where "AKEY_LEN = 132"
definition HEX_LEN :: nat where "HEX_LEN = 64"

subsection \<open>The pieces\<close>

definition make_scope :: "string \<Rightarrow> string \<Rightarrow> string \<Rightarrow> esp_err \<times> string" where
  "make_scope amz_date region service =
     (let s = take 8 amz_date @ ''/'' @ region @ ''/'' @ service @ ''/aws4_request''
      in if length s < SCOPE_LEN then (ESP_OK, s) else (ESP_ERR_INVALID_ARG, []))"

definition make_payload_hash :: "'x crypto_ops \<Rightarrow> string option \<Rightarrow> string option \<Rightarrow> esp_err \<times> string" where
  "make_payload_hash cr payload override =
     (case override of
        Some v \<Rightarrow> if length v > HEX_LEN then (ESP_ERR_INVALID_ARG, []) else (ESP_OK, v)
      | None \<Rightarrow>
          (case aws_sha256 cr (case payload of None \<Rightarrow> [] | Some d \<Rightarrow> d) of
             (e, d) \<Rightarrow> if e \<noteq> ESP_OK then (ESP_FAIL, []) else (ESP_OK, to_hex d)))"

record creq =
  rq_method :: string
  rq_path :: string
  rq_query :: "string option"
  rq_service :: string
  rq_region :: string
  rq_secret :: string
  rq_amz_date :: string
  rq_scope :: string
  rq_headers :: "aws_header list"
  rq_signed_headers :: string
  rq_payload_hex :: string

text \<open>The header loop: a group of equal names is one line, its values joined with commas.\<close>

fun values_pieces :: "bool \<Rightarrow> aws_header list \<Rightarrow> string list" where
  "values_pieces first [] = []"
| "values_pieces first (h # hs) = (if first then [] else ['','']) @ put_trimmed (h_value h) @ values_pieces False hs"

function header_pieces :: "aws_header list \<Rightarrow> string list" where
  "header_pieces [] = []"
| "header_pieces (h # hs) =
     put_lower (h_name h) @ ['':''] @
     values_pieces True (h # takeWhile (\<lambda>x. strcasecmp_eq (h_name x) (h_name h)) hs) @ [[NL]] @
     header_pieces (dropWhile (\<lambda>x. strcasecmp_eq (h_name x) (h_name h)) hs)"
  by pat_completeness auto
termination
  by (relation "measure length") (auto simp: le_imp_less_Suc length_dropWhile_le)

text \<open>Everything that is put into the digest, in order.\<close>

definition canonical_pieces :: "creq \<Rightarrow> string list" where
  "canonical_pieces r =
     [rq_method r, [NL]] @
     (if rq_service r = ''s3'' then put_uri True False (rq_path r) else put_normalized True (rq_path r)) @ [[NL]] @
     (case rq_query r of None \<Rightarrow> [] | Some q \<Rightarrow> [q]) @ [[NL]] @
     header_pieces (rq_headers r) @ [[NL], rq_signed_headers r, [NL], rq_payload_hex r]"

definition sign_canonical :: "'x crypto_ops \<Rightarrow> creq \<Rightarrow> esp_err \<times> string" where
  "sign_canonical cr r =
     (case hash_pieces cr (canonical_pieces r) of
        (e0, creq_hash) \<Rightarrow>
          if e0 \<noteq> ESP_OK then (ESP_FAIL, [])
          else
            (let sts = ''AWS4-HMAC-SHA256'' @ [NL] @ rq_amz_date r @ [NL] @ rq_scope r @ [NL] @ to_hex creq_hash;
                 akey = ''AWS4'' @ rq_secret r
             in if length sts \<ge> STS_LEN then (ESP_FAIL, [])
                else if length akey \<ge> AKEY_LEN then (ESP_ERR_INVALID_ARG, [])
                else
                  (let (e1, k1) = hmac_sha256 cr akey (take 8 (rq_amz_date r));
                       (e2, k2) = hmac_sha256 cr k1 (rq_region r);
                       (e3, k3) = hmac_sha256 cr k2 (rq_service r);
                       (e4, k4) = hmac_sha256 cr k3 ''aws4_request'';
                       (e5, sig) = hmac_sha256 cr k4 sts
                   in if e1 = ESP_OK \<and> e2 = ESP_OK \<and> e3 = ESP_OK \<and> e4 = ESP_OK \<and> e5 = ESP_OK
                      then (ESP_OK, to_hex sig) else (ESP_FAIL, []))))"

subsection \<open>The specification\<close>

definition canonical_uri :: "string \<Rightarrow> string \<Rightarrow> string" where
  "canonical_uri service path =
     (if service = ''s3'' then (if path = [] then ''/'' else encoded True path) else normal_path True path)"

text \<open>One line for each name, with the trimmed values of all headers of that name in their order.\<close>

definition canonical_header :: "aws_header list \<Rightarrow> string \<Rightarrow> string" where
  "canonical_header hs n =
     n @ '':'' @ join_with CHR '','' (map (\<lambda>h. join_with CHR '' '' (words (h_value h))) (filter (\<lambda>h. lower_name h = n) hs)) @ [NL]"

definition canonical_request :: "creq \<Rightarrow> string" where
  "canonical_request r =
     join_with NL
       [rq_method r, canonical_uri (rq_service r) (rq_path r), case rq_query r of None \<Rightarrow> [] | Some q \<Rightarrow> q,
        concat (map (canonical_header (rq_headers r)) (signed_names (rq_headers r))), rq_signed_headers r, rq_payload_hex r]"

definition string_to_sign :: "(string \<Rightarrow> string) \<Rightarrow> creq \<Rightarrow> string" where
  "string_to_sign H r =
     join_with NL [''AWS4-HMAC-SHA256'', rq_amz_date r, rq_scope r, to_hex (H (canonical_request r))]"

definition signing_key :: "(string \<Rightarrow> string \<Rightarrow> string) \<Rightarrow> creq \<Rightarrow> string" where
  "signing_key M r =
     M (M (M (M (''AWS4'' @ rq_secret r) (take 8 (rq_amz_date r))) (rq_region r)) (rq_service r)) ''aws4_request''"

definition signature_of :: "(string \<Rightarrow> string) \<Rightarrow> (string \<Rightarrow> string \<Rightarrow> string) \<Rightarrow> creq \<Rightarrow> string" where
  "signature_of H M r = to_hex (M (signing_key M r) (string_to_sign H r))"

subsection \<open>The pieces make the canonical request\<close>

lemma values_pieces_text:
  "concat (values_pieces first hs) =
     (if first \<or> hs = [] then [] else '','') @ join_with CHR '','' (map (\<lambda>h. join_with CHR '' '' (words (h_value h))) hs)"
  by (induction first hs rule: values_pieces.induct) (auto simp: put_trimmed_words join_with_Cons)

lemma sorted_after:
  assumes "sorted (map f (h # x # hs))" and "f x \<noteq> f h" and "y \<in> set hs"
  shows "f y \<noteq> f h"
proof -
  have "f h \<le> f x" "f x \<le> f y" using assms(1,3) by simp_all
  with assms(2) show ?thesis by (metis order_antisym)
qed

lemma sorted_group:
  assumes "sorted (map f (h # hs))"
  shows "filter (\<lambda>x. f x = f h) hs = takeWhile (\<lambda>x. f x = f h) hs \<and> (\<forall>x \<in> set (dropWhile (\<lambda>x. f x = f h) hs). f x \<noteq> f h)"
  using assms
proof (induction hs)
  case (Cons x hs)
  show ?case
  proof (cases "f x = f h")
    case True
    have "sorted (map f (h # hs))" using Cons.prems by simp
    note IH = Cons.IH [OF this]
    have "filter (\<lambda>x. f x = f h) (x # hs) = takeWhile (\<lambda>x. f x = f h) (x # hs)" using True by (simp add: IH [THEN conjunct1])
    moreover have "dropWhile (\<lambda>x. f x = f h) (x # hs) = dropWhile (\<lambda>x. f x = f h) hs" using True by simp
    ultimately show ?thesis using IH [THEN conjunct2] by (simp only:)
  next
    case False
    note after = sorted_after [OF Cons.prems False]
    then have "filter (\<lambda>x. f x = f h) hs = []" by (simp only: filter_empty_conv) blast
    then have "filter (\<lambda>x. f x = f h) (x # hs) = []" "takeWhile (\<lambda>x. f x = f h) (x # hs) = []"
      "dropWhile (\<lambda>x. f x = f h) (x # hs) = x # hs" using False by simp_all
    moreover have "\<forall>y \<in> set (x # hs). f y \<noteq> f h" using False after unfolding list.set by blast
    ultimately show ?thesis by (simp only:)
  qed
qed simp

lemma remdups_group:
  "remdups_adj (map f (h # hs)) = f h # remdups_adj (map f (dropWhile (\<lambda>x. f x = f h) hs))"
  by (induction hs) (auto simp: remdups_adj_Cons split: list.splits)

lemma signed_names_mem: "n \<in> set (signed_names hs) \<longleftrightarrow> (\<exists>h \<in> set hs. lower_name h = n)"
  by (auto simp: signed_names_def)

lemma header_pieces_text:
  assumes "sorted (map lower_name hs)"
  shows "concat (header_pieces hs) = concat (map (canonical_header hs) (signed_names hs))"
  using assms
proof (induction hs rule: header_pieces.induct)
  case (2 h hs)
  let ?same = "takeWhile (\<lambda>x. lower_name x = lower_name h) hs" and ?rest = "dropWhile (\<lambda>x. lower_name x = lower_name h) hs"
  have eq: "(\<lambda>x. strcasecmp_eq (h_name x) (h_name h)) = (\<lambda>x. lower_name x = lower_name h)"
    by (simp add: fun_eq_iff strcasecmp_lower lower_name_def)
  have "sorted (map lower_name (?same @ ?rest))" using 2 by simp
  then have s: "sorted (map lower_name ?rest)" by (simp only: map_append sorted_append)
  have other: "canonical_header (h # hs) n = canonical_header ?rest n" if mem: "n \<in> set (signed_names ?rest)" for n
  proof -
    have "\<forall>x \<in> set ?rest. lower_name x \<noteq> lower_name h" by (rule sorted_group [OF 2(2), THEN conjunct2])
    moreover obtain x where "x \<in> set ?rest" "lower_name x = n" using mem unfolding signed_names_mem by blast
    ultimately have "n \<noteq> lower_name h" by blast
    moreover have "\<forall>x \<in> set ?same. lower_name x = lower_name h" by (auto dest: set_takeWhileD)
    ultimately have "filter (\<lambda>x. lower_name x = n) ?same = []" unfolding filter_empty_conv by metis
    then have "filter (\<lambda>x. lower_name x = n) hs = filter (\<lambda>x. lower_name x = n) ?rest"
      by (subst takeWhile_dropWhile_id [symmetric, of _ "\<lambda>x. lower_name x = lower_name h"]) (simp only: filter_append append_Nil)
    with \<open>n \<noteq> lower_name h\<close> show ?thesis by (simp add: canonical_header_def)
  qed
  have "concat (header_pieces ?rest) = concat (map (canonical_header ?rest) (signed_names ?rest))"
    using 2(1) s by (simp add: eq)
  also have "\<dots> = concat (map (canonical_header (h # hs)) (signed_names ?rest))"
    using other by (simp cong: map_cong)
  finally have rest: "concat (header_pieces ?rest) = concat (map (canonical_header (h # hs)) (signed_names ?rest))" .
  have names: "signed_names (h # hs) = lower_name h # signed_names ?rest"
    unfolding signed_names_def by (rule remdups_group)
  have "canonical_header (h # hs) (lower_name h) =
      lower_name h @ '':'' @ join_with CHR '','' (map (\<lambda>h. join_with CHR '' '' (words (h_value h))) (h # ?same)) @ [NL]"
    using sorted_group [OF 2(2), THEN conjunct1] by (simp add: canonical_header_def)
  with names rest show ?case
    by (simp add: eq values_pieces_text del: values_pieces.simps) (simp add: lower_name_def)
qed (simp add: signed_names_def)

lemma canonical_pieces_text:
  assumes "sorted (map lower_name (rq_headers r))"
  shows "concat (canonical_pieces r) = canonical_request r"
  using header_pieces_text [OF assms]
  by (simp add: canonical_pieces_def canonical_request_def canonical_uri_def put_uri_def put_normalized_text encoded_def
      split: option.split)

subsection \<open>Signing a request\<close>

text \<open>
  \<open>esp_rmaker_aws_sign_sigv4_input_t\<close>: a pointer to a string is an option. An array with its count is a list, \<open>None\<close> when the
  count is not zero and the pointer NULL. The structure pointers themselves are not NULL.
\<close>

record sign_input =
  si_method :: "string option"
  si_host :: "string option"
  si_path :: "string option"
  si_params :: "(string option \<times> string option) list option"
  si_headers :: "(string option \<times> string option) list option"
  si_payload :: "string option"
  si_payload_hash :: "string option"
  si_sign_payload_hash :: bool
  si_access_key :: "string option"
  si_secret :: "string option"
  si_token :: "string option"
  si_region :: "string option"
  si_service :: "string option"
  si_now :: int

record sign_output =
  so_authorization :: string
  so_amz_date :: string
  so_content_sha256 :: string

definition absolute_path :: "string option \<Rightarrow> bool" where
  "absolute_path p = (case p of Some (c # _) \<Rightarrow> c = CHR ''/'' | _ \<Rightarrow> False)"

definition builtin_headers :: "sign_input \<Rightarrow> string \<Rightarrow> string \<Rightarrow> aws_header list" where
  "builtin_headers inp amz_date payload_hex =
     [\<lparr>h_name = ''host'', h_value = the (si_host inp)\<rparr>, \<lparr>h_name = ''x-amz-date'', h_value = amz_date\<rparr>] @
     (case si_token inp of None \<Rightarrow> [] | Some t \<Rightarrow> [\<lparr>h_name = ''x-amz-security-token'', h_value = t\<rparr>]) @
     (if si_sign_payload_hash inp then [\<lparr>h_name = ''x-amz-content-sha256'', h_value = payload_hex\<rparr>] else [])"

definition authorization_pieces :: "string \<Rightarrow> string \<Rightarrow> string \<Rightarrow> string \<Rightarrow> string list" where
  "authorization_pieces access_key scope signed_headers sig_hex =
     [''AWS4-HMAC-SHA256 Credential='', access_key, ''/'', scope, '', SignedHeaders='', signed_headers, '', Signature='', sig_hex]"

text \<open>\<open>alloc\<close>: the allocations in order (signed headers, then the three output strings).\<close>

definition sigv4_with_query ::
  "bool \<Rightarrow> 'x crypto_ops \<Rightarrow> (nat \<Rightarrow> bool) \<Rightarrow> sign_input \<Rightarrow> string option \<Rightarrow> esp_err \<times> sign_output option" where
  "sigv4_with_query installed cr alloc inp query =
     (if \<not> installed then (ESP_ERR_INVALID_STATE, None)
      else if si_method inp = None \<or> si_host inp = None \<or> \<not> absolute_path (si_path inp) \<or> si_access_key inp = None \<or>
          si_secret inp = None \<or> si_region inp = None \<or> si_service inp = None \<or> si_headers inp = None \<or> si_payload inp = None
      then (ESP_ERR_INVALID_ARG, None)
      else case make_amz_date (si_now inp) of (e1, amz_date) \<Rightarrow>
        if e1 \<noteq> ESP_OK then (e1, None)
        else case make_scope amz_date (the (si_region inp)) (the (si_service inp)) of (e2, scope) \<Rightarrow>
        if e2 \<noteq> ESP_OK then (e2, None)
        else case make_payload_hash cr (si_payload inp) (si_payload_hash inp) of (e3, payload_hex) \<Rightarrow>
        if e3 \<noteq> ESP_OK then (e3, None)
        else case collect_headers (builtin_headers inp amz_date payload_hex) (the (si_headers inp)) of
          None \<Rightarrow> (ESP_ERR_INVALID_ARG, None)
        | Some h \<Rightarrow>
            (case build_signed_headers (alloc 0) h of
               (e4, None) \<Rightarrow> (e4, None)
             | (e4, Some sh) \<Rightarrow>
                 (case sign_canonical cr
                    \<lparr>rq_method = the (si_method inp), rq_path = the (si_path inp), rq_query = query,
                     rq_service = the (si_service inp), rq_region = the (si_region inp), rq_secret = the (si_secret inp),
                     rq_amz_date = amz_date, rq_scope = scope, rq_headers = h, rq_signed_headers = sh,
                     rq_payload_hex = payload_hex\<rparr> of (e5, sig_hex) \<Rightarrow>
                    if e5 \<noteq> ESP_OK then (e5, None)
                    else if alloc 1 \<and> alloc 2 \<and> alloc 3
                    then (ESP_OK, Some \<lparr>so_authorization = concat (authorization_pieces (the (si_access_key inp)) scope sh sig_hex),
                            so_amz_date = amz_date, so_content_sha256 = payload_hex\<rparr>)
                    else (ESP_ERR_NO_MEM, None))))"

text \<open>\<open>qalloc\<close>: the allocations of the query.\<close>

definition esp_rmaker_aws_sign_sigv4 ::
  "bool \<Rightarrow> 'x crypto_ops \<Rightarrow> (nat \<Rightarrow> bool) \<Rightarrow> (nat \<Rightarrow> bool) \<Rightarrow> sign_input \<Rightarrow> esp_err \<times> sign_output option" where
  "esp_rmaker_aws_sign_sigv4 installed cr qalloc alloc inp =
     (if \<not> installed then (ESP_ERR_INVALID_STATE, None)
      else case si_params inp of
        None \<Rightarrow> (ESP_ERR_INVALID_ARG, None)
      | Some ps \<Rightarrow>
          (case build_query qalloc ps of
             (e, q) \<Rightarrow> if e = ESP_OK then sigv4_with_query installed cr alloc inp q else (e, None)))"

subsection \<open>Presigned URLs\<close>

definition PRESIGN_MAX_EXPIRES :: nat where "PRESIGN_MAX_EXPIRES = 604800"

record presign_input =
  pi_scheme :: "string option"
  pi_method :: "string option"
  pi_host :: "string option"
  pi_path :: "string option"
  pi_params :: "(string option \<times> string option) list option"
  pi_headers :: "(string option \<times> string option) list option"
  pi_payload_hash :: "string option"
  pi_expires :: nat
  pi_access_key :: "string option"
  pi_secret :: "string option"
  pi_token :: "string option"
  pi_token_after :: bool
  pi_region :: "string option"
  pi_service :: "string option"
  pi_now :: int

definition presign_param_reserved :: "string \<Rightarrow> bool" where
  "presign_param_reserved name =
     list_ex (strcasecmp_eq name)
       [''X-Amz-Algorithm'', ''X-Amz-Credential'', ''X-Amz-Date'', ''X-Amz-Expires'', ''X-Amz-SignedHeaders'',
        ''X-Amz-Security-Token'', ''X-Amz-Signature'']"

fun decimal :: "nat \<Rightarrow> string" where
  "decimal n = (if n < 10 then [digit_char (int n)] else decimal (n div 10) @ [digit_char (int (n mod 10))])"

declare decimal.simps [simp del]

definition presigned_url_pieces :: "presign_input \<Rightarrow> string \<Rightarrow> string \<Rightarrow> string list" where
  "presigned_url_pieces inp query sig_hex =
     [case pi_scheme inp of None \<Rightarrow> ''https'' | Some s \<Rightarrow> s, ''://'', the (pi_host inp)] @
     put_uri True False (the (pi_path inp)) @ [''?'', query, ''&X-Amz-Signature='', sig_hex] @
     (case pi_token inp of None \<Rightarrow> []
      | Some t \<Rightarrow> if pi_token_after inp then ''&X-Amz-Security-Token='' # put_encoded False False t else [])"

definition presign_params :: "presign_input \<Rightarrow> string \<Rightarrow> string \<Rightarrow> string \<Rightarrow> (string option \<times> string option) list" where
  "presign_params inp credential amz_date sh =
     the (pi_params inp) @
     map (\<lambda>(n, v). (Some n, Some v))
       [(''X-Amz-Algorithm'', ''AWS4-HMAC-SHA256''), (''X-Amz-Credential'', credential), (''X-Amz-Date'', amz_date),
        (''X-Amz-Expires'', decimal (pi_expires inp)), (''X-Amz-SignedHeaders'', sh)] @
     (case pi_token inp of None \<Rightarrow> [] | Some t \<Rightarrow> if pi_token_after inp then [] else [(Some ''X-Amz-Security-Token'', Some t)])"

definition esp_rmaker_aws_sign_presign_url ::
  "bool \<Rightarrow> 'x crypto_ops \<Rightarrow> (nat \<Rightarrow> bool) \<Rightarrow> (nat \<Rightarrow> bool) \<Rightarrow> presign_input \<Rightarrow> esp_err \<times> string option" where
  "esp_rmaker_aws_sign_presign_url installed cr qalloc alloc inp =
     (if \<not> installed then (ESP_ERR_INVALID_STATE, None)
      else if pi_method inp = None \<or> pi_host inp = None \<or> \<not> absolute_path (pi_path inp) \<or> pi_access_key inp = None \<or>
          pi_secret inp = None \<or> pi_region inp = None \<or> pi_service inp = None \<or> pi_params inp = None \<or> pi_headers inp = None \<or>
          pi_expires inp = 0 \<or> pi_expires inp > PRESIGN_MAX_EXPIRES
      then (ESP_ERR_INVALID_ARG, None)
      else if list_ex (\<lambda>(n, v). case n of None \<Rightarrow> True | Some s \<Rightarrow> presign_param_reserved s) (the (pi_params inp))
      then (ESP_ERR_INVALID_ARG, None)
      else case make_amz_date (pi_now inp) of (e1, amz_date) \<Rightarrow>
        if e1 \<noteq> ESP_OK then (e1, None)
        else case make_scope amz_date (the (pi_region inp)) (the (pi_service inp)) of (e2, scope) \<Rightarrow>
        if e2 \<noteq> ESP_OK then (e2, None)
        else case make_payload_hash cr (Some [])
            (case pi_payload_hash inp of Some v \<Rightarrow> Some v
             | None \<Rightarrow> if the (pi_service inp) = ''s3'' then Some ''UNSIGNED-PAYLOAD'' else None) of (e3, payload_hex) \<Rightarrow>
        if e3 \<noteq> ESP_OK then (e3, None)
        else case collect_headers [\<lparr>h_name = ''host'', h_value = the (pi_host inp)\<rparr>] (the (pi_headers inp)) of
          None \<Rightarrow> (ESP_ERR_INVALID_ARG, None)
        | Some h \<Rightarrow>
            (case build_signed_headers (alloc 0) h of
               (e4, None) \<Rightarrow> (e4, None)
             | (e4, Some sh) \<Rightarrow>
                 if \<not> (alloc 1 \<and> alloc 2) then (ESP_ERR_NO_MEM, None)
                 else case build_query qalloc (presign_params inp (the (pi_access_key inp) @ ''/'' @ scope) amz_date sh) of
                   (e5, query) \<Rightarrow>
                     if e5 \<noteq> ESP_OK then (e5, None)
                     else case sign_canonical cr
                        \<lparr>rq_method = the (pi_method inp), rq_path = the (pi_path inp), rq_query = query,
                         rq_service = the (pi_service inp), rq_region = the (pi_region inp), rq_secret = the (pi_secret inp),
                         rq_amz_date = amz_date, rq_scope = scope, rq_headers = h, rq_signed_headers = sh,
                         rq_payload_hex = payload_hex\<rparr> of (e6, sig_hex) \<Rightarrow>
                     if e6 \<noteq> ESP_OK then (e6, None)
                     else if \<not> alloc 3 then (ESP_ERR_NO_MEM, None)
                     else (let (n, _) = write_chunks None (presigned_url_pieces inp (the query) sig_hex)
                           in (ESP_OK, Some (calloc_write (n + 1) (presigned_url_pieces inp (the query) sig_hex))))))"

subsection \<open>The signature is the specified one\<close>

lemma collect_sorted:
  assumes "collect_headers builtin extra = Some h"
  shows "sorted (map lower_name h) \<and> set builtin \<subseteq> set h"
proof -
  have "\<exists>l. add_extra b xs l0 = Some l \<and> set l0 \<subseteq> set l" if "add_extra b xs l0 \<noteq> None" for b xs l0
    using that by (induction b xs l0 rule: add_extra.induct) (fastforce split: if_splits option.splits)+
  then obtain l where "add_extra builtin extra builtin = Some l" "set builtin \<subseteq> set l"
    using assms unfolding collect_headers_def by (metis map_option_is_None option.distinct(1))
  with assms show ?thesis by (auto simp: collect_headers_def sort_headers_stable)
qed

text \<open>What fits the fixed buffers of the string to sign and of the key.\<close>

definition creq_fits :: "creq \<Rightarrow> bool" where
  "creq_fits r \<longleftrightarrow> length (rq_amz_date r) = 16 \<and> length (rq_scope r) < SCOPE_LEN \<and> length (rq_secret r) < 128"

lemma sign_canonical_correct:
  assumes "sign_canonical (esp_crypto_ops p) r = (ESP_OK, s)" and "sorted (map lower_name (rq_headers r))"
  shows "s = signature_of (psa_digest p) (hmac_rfc2104 (psa_digest p)) r"
proof -
  obtain e0 d where h: "hash_pieces (esp_crypto_ops p) (canonical_pieces r) = (e0, d)" by fastforce
  with assms(1) have "e0 = ESP_OK" by (auto simp: sign_canonical_def split: if_splits)
  with h esp_port.hash_pieces_digest have d: "d = psa_digest p (canonical_request r)"
    using canonical_pieces_text [OF assms(2)] by metis
  show ?thesis
    using assms(1) h \<open>e0 = ESP_OK\<close>
    by (auto simp: sign_canonical_def signature_of_def signing_key_def string_to_sign_def d Let_def
        split: if_splits prod.splits dest!: esp_port.hmac_value)
qed

lemma sign_canonical_returns:
  assumes "psa_works p" and "creq_fits r"
  shows "\<exists>s. sign_canonical (esp_crypto_ops p) r = (ESP_OK, s)"
  using assms
  by (simp add: sign_canonical_def esp_hash_ok esp_hmac_ok Let_def creq_fits_def STS_LEN_def AKEY_LEN_def SCOPE_LEN_def psa_works_def)

definition creq_of :: "sign_input \<Rightarrow> string option \<Rightarrow> string \<Rightarrow> string \<Rightarrow> aws_header list \<Rightarrow> string \<Rightarrow> creq" where
  "creq_of inp query amz_date scope h payload_hex =
     \<lparr>rq_method = the (si_method inp), rq_path = the (si_path inp), rq_query = query,
      rq_service = the (si_service inp), rq_region = the (si_region inp), rq_secret = the (si_secret inp),
      rq_amz_date = amz_date, rq_scope = scope, rq_headers = h,
      rq_signed_headers = join_with CHR '';'' (signed_names h), rq_payload_hex = payload_hex\<rparr>"

text \<open>Every pointer the signer needs.\<close>

definition input_complete :: "sign_input \<Rightarrow> bool" where
  "input_complete inp \<longleftrightarrow> si_method inp \<noteq> None \<and> si_host inp \<noteq> None \<and> absolute_path (si_path inp) \<and> si_access_key inp \<noteq> None \<and>
     si_secret inp \<noteq> None \<and> si_region inp \<noteq> None \<and> si_service inp \<noteq> None \<and> si_headers inp \<noteq> None \<and> si_payload inp \<noteq> None"

lemma payload_hash_esp:
  assumes "psa_works p" and "si_payload_hash inp = None"
  shows "make_payload_hash (esp_crypto_ops p) (si_payload inp) (si_payload_hash inp) =
    (ESP_OK, to_hex (psa_digest p (case si_payload inp of None \<Rightarrow> [] | Some d \<Rightarrow> d)))"
  using assms by (simp add: make_payload_hash_def aws_sha256_def esp_hash_ok)

text \<open>
  C10. The signer implements SigV4 on the ESP port. For a complete input whose date, scope and key fit, with every
  allocation and every PSA call granted, signing succeeds, and the Authorization value carries the
  specification's signature: the RFC 2104 HMAC under the derived key of the string to sign, whose last line is the
  digest of the canonical request text, although the code never builds that text but streams it. The signed headers are
  sorted and include all of the signer's own (\<open>host\<close>, \<open>x-amz-date\<close>, the token when there is one, the payload hash when asked for).
\<close>

theorem sigv4_signs:
  assumes "psa_works p" and "\<forall>k. alloc k" and "input_complete inp" and "si_payload_hash inp = None"
    and "make_amz_date (si_now inp) = (ESP_OK, amz_date)"
    and "make_scope amz_date (the (si_region inp)) (the (si_service inp)) = (ESP_OK, scope)" and "length (the (si_secret inp)) < 128"
    and "payload_hex = to_hex (psa_digest p (the (si_payload inp)))"
    and "collect_headers (builtin_headers inp amz_date payload_hex) (the (si_headers inp)) = Some h" and "names_ok h"
  shows "sigv4_with_query True (esp_crypto_ops p) alloc inp query =
      (ESP_OK, Some \<lparr>so_authorization = ''AWS4-HMAC-SHA256 Credential='' @ the (si_access_key inp) @ ''/'' @ scope @
         '', SignedHeaders='' @ join_with CHR '';'' (signed_names h) @ '', Signature='' @
         to_hex (hmac_rfc2104 (psa_digest p)
           (signing_key (hmac_rfc2104 (psa_digest p)) (creq_of inp query amz_date scope h payload_hex))
           (string_to_sign (psa_digest p) (creq_of inp query amz_date scope h payload_hex))),
         so_amz_date = amz_date, so_content_sha256 = payload_hex\<rparr>) \<and>
    sorted (map lower_name h) \<and> set (builtin_headers inp amz_date payload_hex) \<subseteq> set h"
proof -
  let ?r = "creq_of inp query amz_date scope h payload_hex"
  note sorted = collect_sorted [OF assms(9)]
  then have "h \<noteq> []" by (auto simp: builtin_headers_def)
  from signed_headers_text [OF this assms(10)] have sh: "build_signed_headers (alloc 0) h = (ESP_OK, Some (rq_signed_headers ?r))"
    using assms(2) by (simp add: creq_of_def)
  have "length scope < SCOPE_LEN" using assms(6) by (auto simp: make_scope_def Let_def split: if_splits)
  then have "creq_fits ?r" using amz_date_length [OF assms(5)] assms(7) by (simp add: creq_fits_def creq_of_def)
  from sign_canonical_returns [OF assms(1) this] obtain s where s: "sign_canonical (esp_crypto_ops p) ?r = (ESP_OK, s)" by blast
  moreover have "rq_headers ?r = h" by (simp add: creq_of_def)
  ultimately have sig: "s = signature_of (psa_digest p) (hmac_rfc2104 (psa_digest p)) ?r"
    using sign_canonical_correct sorted by metis
  have hash: "make_payload_hash (esp_crypto_ops p) (si_payload inp) None = (ESP_OK, payload_hex)"
    using payload_hash_esp [OF assms(1,4)] assms(3,4,8) by (auto simp: input_complete_def)
  have "sigv4_with_query True (esp_crypto_ops p) alloc inp query = (ESP_OK, Some \<lparr>so_authorization =
      concat (authorization_pieces (the (si_access_key inp)) scope (rq_signed_headers ?r) s), so_amz_date = amz_date,
      so_content_sha256 = payload_hex\<rparr>)"
    using s [unfolded creq_of_def] sh assms(2-6,9) hash
    by (simp add: sigv4_with_query_def input_complete_def creq_of_def)
  with sorted show ?thesis
    by (simp add: authorization_pieces_def sig signature_of_def) (simp add: creq_of_def)
qed

text \<open>A request signed at the epoch, with a constant digest.\<close>

definition sample_psa :: psa where
  "sample_psa = \<lparr>psa_setup_ok = True, psa_update_ok = (\<lambda>_ _. True), psa_finish_ok = (\<lambda>_. True),
     psa_digest = (\<lambda>_. replicate 32 CHR ''a'')\<rparr>"

definition sample_input :: sign_input where
  "sample_input = \<lparr>si_method = Some ''GET'', si_host = Some ''h'', si_path = Some ''/'', si_params = Some [], si_headers = Some [],
     si_payload = Some [], si_payload_hash = None, si_sign_payload_hash = False, si_access_key = Some ''AK'', si_secret = Some ''SK'',
     si_token = None, si_region = Some ''us'', si_service = Some ''s3'', si_now = 0\<rparr>"

theorem sigv4_signs_witness:
  "\<exists>out. sigv4_with_query True (esp_crypto_ops sample_psa) (\<lambda>_. True) sample_input None = (ESP_OK, Some out)"
proof -
  have works: "psa_works sample_psa" by (simp add: psa_works_def sample_psa_def)
  have complete: "input_complete sample_input" by (simp add: input_complete_def sample_input_def absolute_path_def)
  define date where "date = snd (make_amz_date 0)"
  have d: "make_amz_date (si_now sample_input) = (ESP_OK, date)"
    by (simp add: date_def make_amz_date_def gmtime_days_def sample_input_def)
  then have "length date = 16" by (rule amz_date_length)
  then have sc: "make_scope date (the (si_region sample_input)) (the (si_service sample_input)) =
      (ESP_OK, take 8 date @ ''/us/s3/aws4_request'')"
    by (simp add: make_scope_def sample_input_def SCOPE_LEN_def)
  have c: "collect_headers (builtin_headers sample_input date hex) (the (si_headers sample_input)) =
      Some [\<lparr>h_name = ''host'', h_value = ''h''\<rparr>, \<lparr>h_name = ''x-amz-date'', h_value = date\<rparr>]" for hex
    by (simp add: collect_headers_def sort_headers_def builtin_headers_def sample_input_def lower_name_def lower_char_def code_def
        less_char_def)
  have "names_ok [\<lparr>h_name = ''host'', h_value = ''h''\<rparr>, \<lparr>h_name = ''x-amz-date'', h_value = date\<rparr>]"
    by (simp add: names_ok_def)
  from sigv4_signs [OF works _ complete _ d sc _ refl c this, of "\<lambda>_. True" None] show ?thesis
    by (simp add: sample_input_def)
qed

end
