(* ===== verification/Aws_Request.thy ===== *)
theory Aws_Request
  imports Aws_Creds Aws_Sigv4
begin

section \<open>AWS signing: signed requests\<close>

text \<open>
  \<open>components/rmaker_aws_sign/src/esp_rmaker_aws_sign_send_request.c\<close>: credentials, signature and one HTTPS exchange over
  the handle's pooled connection, with its single retry. The model runs under the request mutex as a whole. The log of what goes to the HTTP
  client is not part of the model: \<open>recording\<close> wraps any HTTP operations so that they keep one.
\<close>

subsection \<open>The request\<close>

definition REQUEST_HTTP_TIMEOUT_MS :: int where "REQUEST_HTTP_TIMEOUT_MS = 15000"
definition REQUEST_CONN_IDLE_TIMEOUT_SEC :: int where "REQUEST_CONN_IDLE_TIMEOUT_SEC = 10"
definition REQUEST_RESPONSE_MAX :: nat where "REQUEST_RESPONSE_MAX = 8192"
definition CONN_HOST_LEN :: nat where "CONN_HOST_LEN = 160"
definition CONTENT_TYPE_NAME :: string where "CONTENT_TYPE_NAME = ''Content-Type''"
definition CONTENT_TYPE_DEFAULT :: string where "CONTENT_TYPE_DEFAULT = ''application/json''"

type_synonym raw_header = "string option \<times> string option"

text \<open>As in the signer, an array or payload with its count is a list, \<open>None\<close> when the count is not zero and the pointer NULL.\<close>

record aws_request =
  ar_method :: "string option"
  ar_host :: "string option"
  ar_path :: "string option"
  ar_params :: "(string option \<times> string option) list"
  ar_service :: "string option"
  ar_region :: "string option"
  ar_role_alias :: "string option"
  ar_creds :: "aws_creds option"
  ar_extra_headers :: "raw_header list option"
  ar_payload :: "string option"
  ar_timeout_ms :: int

record aws_response =
  rs_status_code :: int
  rs_body :: "cells option"
  rs_body_len :: nat

definition method_to_enum :: "string \<Rightarrow> http_method option" where
  "method_to_enum m =
     (if m = ''GET'' then Some HTTP_GET else if m = ''POST'' then Some HTTP_POST else if m = ''PUT'' then Some HTTP_PUT
      else if m = ''DELETE'' then Some HTTP_DELETE else if m = ''PATCH'' then Some HTTP_PATCH else None)"

definition method_supported :: "string option \<Rightarrow> bool" where
  "method_supported m \<longleftrightarrow> (case m of None \<Rightarrow> False | Some t \<Rightarrow> method_to_enum t \<noteq> None)"

definition build_url :: "(nat \<Rightarrow> bool) \<Rightarrow> string \<Rightarrow> string \<Rightarrow> string option \<Rightarrow> string option" where
  "build_url malloc_ok host path query =
     (let url = ''https://'' @ host @ concat (put_uri True False path) @
            (case query of None \<Rightarrow> [] | Some q \<Rightarrow> if q = [] then [] else ''?'' @ q)
      in if malloc_ok (length url + 1) then Some url else None)"

definition has_content_type :: "raw_header list \<Rightarrow> bool" where
  "has_content_type hdrs \<longleftrightarrow>
     list_ex (\<lambda>(n, v). case n of None \<Rightarrow> False | Some t \<Rightarrow> strcasecmp_eq t CONTENT_TYPE_NAME) hdrs"

definition needs_content_type :: "string \<Rightarrow> raw_header list \<Rightarrow> bool" where
  "needs_content_type payload hdrs \<longleftrightarrow> payload \<noteq> [] \<and> \<not> has_content_type hdrs"

definition with_content_type :: "bool \<Rightarrow> raw_header list \<Rightarrow> raw_header list option" where
  "with_content_type alloc hdrs =
     (if alloc then Some (hdrs @ [(Some CONTENT_TYPE_NAME, Some CONTENT_TYPE_DEFAULT)]) else None)"

subsection \<open>The pooled connection\<close>

definition conn_close :: "('w, 'h) aws_port \<Rightarrow> 'h aws_ctx \<Rightarrow> 'w \<Rightarrow> 'h aws_ctx \<times> 'w" where
  "conn_close p h w =
     (h\<lparr>cx_conn := None, cx_conn_host := [], cx_conn_last_use := 0, cx_conn_timeout_ms := 0\<rparr>,
      case cx_conn h of None \<Rightarrow> w | Some c \<Rightarrow> h_close (pt_http p) c w)"

text \<open>The end of \<open>esp_rmaker_aws_sign_destroy\<close> frees the handle; before that it drops the connection.\<close>

definition conn_idle_expired :: "('w, 'h) aws_port \<Rightarrow> 'h aws_ctx \<Rightarrow> 'w \<Rightarrow> bool" where
  "conn_idle_expired p h w =
     (if REQUEST_CONN_IDLE_TIMEOUT_SEC \<le> 0 then False
      else let idle = pt_get_time p w - cx_conn_last_use h in idle < 0 \<or> idle \<ge> REQUEST_CONN_IDLE_TIMEOUT_SEC)"

definition open_config :: "'h aws_ctx \<Rightarrow> string \<Rightarrow> http_method \<Rightarrow> int \<Rightarrow> http_config" where
  "open_config h url m timeout_ms =
     \<lparr>hc_url = url, hc_method = m, hc_client_cert = Some (cx_client_cert h), hc_client_cert_len = cx_client_cert_len h,
      hc_client_key = Some (cx_client_key h), hc_client_key_len = cx_client_key_len h, hc_timeout_ms = timeout_ms,
      hc_keep_alive = True\<rparr>"

definition conn_open ::
  "('w, 'h) aws_port \<Rightarrow> string \<Rightarrow> string \<Rightarrow> http_method \<Rightarrow> int \<Rightarrow> 'h aws_ctx \<Rightarrow> 'w \<Rightarrow> esp_err \<times> 'h aws_ctx \<times> 'h option \<times> bool \<times> 'w" where
  "conn_open p host url m timeout_ms h w =
     (case h_open (pt_http p) (open_config h url m timeout_ms) w of
        (err, c, w1) \<Rightarrow>
          if err \<noteq> ESP_OK then (err, h\<lparr>cx_conn := None\<rparr>, None, False, w1)
          else (ESP_OK, h\<lparr>cx_conn := Some c, cx_conn_host := take (CONN_HOST_LEN - 1) host, cx_conn_timeout_ms := timeout_ms\<rparr>,
            Some c, False, w1))"

text \<open>Retargeting the pooled handle: \<open>set_url\<close>, then \<open>set_method\<close>.\<close>

definition conn_retarget :: "('w, 'h) aws_port \<Rightarrow> 'h \<Rightarrow> string \<Rightarrow> http_method \<Rightarrow> 'w \<Rightarrow> esp_err \<times> 'w" where
  "conn_retarget p c url m w =
     (case h_set_url (pt_http p) c url w of
        (err, w1) \<Rightarrow> if err = ESP_OK then h_set_method (pt_http p) c m w1 else (err, w1))"

definition conn_get ::
  "('w, 'h) aws_port \<Rightarrow> string \<Rightarrow> int \<Rightarrow> string \<Rightarrow> http_method \<Rightarrow> 'h aws_ctx \<Rightarrow> 'w \<Rightarrow> esp_err \<times> 'h aws_ctx \<times> 'h option \<times> bool \<times> 'w" where
  "conn_get p host req_timeout url m h w =
     (let timeout_ms = (if req_timeout \<noteq> 0 then req_timeout else REQUEST_HTTP_TIMEOUT_MS);
          (h1, w1) = (if cx_conn h \<noteq> None \<and> (cx_conn_host h \<noteq> host \<or> cx_conn_timeout_ms h \<noteq> timeout_ms) then conn_close p h w else (h, w));
          (h2, w2) = (if cx_conn h1 \<noteq> None \<and> conn_idle_expired p h1 w1 then conn_close p h1 w1 else (h1, w1))
      in case cx_conn h2 of
           None \<Rightarrow> conn_open p host url m timeout_ms h2 w2
         | Some c \<Rightarrow>
             (case conn_retarget p c url m w2 of
                (err, w3) \<Rightarrow>
                  if err = ESP_OK then (ESP_OK, h2, Some c, True, w3)
                  else case conn_close p h2 w3 of (h3, w4) \<Rightarrow> conn_open p host url m timeout_ms h3 w4))"

subsection \<open>Headers on the wire\<close>

fun set_headers :: "('w, 'h) aws_port \<Rightarrow> 'h \<Rightarrow> raw_header list \<Rightarrow> 'w \<Rightarrow> esp_err \<times> 'w" where
  "set_headers p c [] w = (ESP_OK, w)"
| "set_headers p c ((n, v) # hs) w =
     (case h_set_header (pt_http p) c (case n of Some t \<Rightarrow> t | None \<Rightarrow> []) v w of
        (err, w1) \<Rightarrow> if err = ESP_OK then set_headers p c hs w1 else (err, w1))"

definition request_headers :: "sign_output \<Rightarrow> string option \<Rightarrow> raw_header list \<Rightarrow> raw_header list" where
  "request_headers sig token hdrs =
     [(Some ''Authorization'', Some (so_authorization sig)), (Some ''x-amz-date'', Some (so_amz_date sig)),
      (Some ''x-amz-content-sha256'', Some (so_content_sha256 sig))] @
     (case token of None \<Rightarrow> [] | Some t \<Rightarrow> [(Some ''x-amz-security-token'', Some t)]) @ hdrs"

definition set_request_headers :: "('w, 'h) aws_port \<Rightarrow> 'h \<Rightarrow> raw_header list \<Rightarrow> sign_output \<Rightarrow> string option \<Rightarrow> 'w \<Rightarrow> esp_err \<times> 'w" where
  "set_request_headers p c hdrs sig token w = set_headers p c (request_headers sig token hdrs) w"

fun clear_caller_headers :: "('w, 'h) aws_port \<Rightarrow> 'h \<Rightarrow> raw_header list \<Rightarrow> 'w \<Rightarrow> 'w" where
  "clear_caller_headers p c [] w = w"
| "clear_caller_headers p c ((n, v) # hs) w =
     clear_caller_headers p c hs (snd (h_set_header (pt_http p) c (case n of Some t \<Rightarrow> t | None \<Rightarrow> []) None w))"

subsection \<open>Sending\<close>

text \<open>The variables of the loop: the handle, \<open>h\<close>, the accumulator, the world.\<close>

record ('w, 'h) exchange =
  ex_ctx :: "'h aws_ctx"
  ex_conn :: "'h option"
  ex_acc :: accum
  ex_world :: 'w

text \<open>One attempt: its error, whether the failure may be retried (a pooled connection, and no response), and the state.\<close>

definition attempt_once ::
  "('w, 'h) aws_port \<Rightarrow> string \<Rightarrow> int \<Rightarrow> string \<Rightarrow> http_method \<Rightarrow> raw_header list \<Rightarrow> sign_output \<Rightarrow> string option \<Rightarrow> string \<Rightarrow>
     ('w, 'h) exchange \<Rightarrow> (esp_err \<times> bool \<times> ('w, 'h) exchange) option" where
  "attempt_once p host timeout url m hdrs sig token payload s =
     (case conn_get p host timeout url m (ex_ctx s) (ex_world s) of
        (err, h1, None, reused, w1) \<Rightarrow> Some (err, False, s\<lparr>ex_ctx := h1, ex_world := w1\<rparr>)
      | (err, h1, Some c, reused, w1) \<Rightarrow>
          (case set_request_headers p c hdrs sig token w1 of
             (err2, w2) \<Rightarrow>
               if err2 \<noteq> ESP_OK then Some (err2, False, s\<lparr>ex_ctx := h1, ex_conn := Some c, ex_world := w2\<rparr>)
               else case h_perform (pt_http p) (pt_malloc p) c payload (ex_acc s) w2 of
                 None \<Rightarrow> None
               | Some (err3, acc, w3) \<Rightarrow>
                   let err4 = (if ac_status acc \<noteq> ESP_OK then ac_status acc else err3)
                   in if err4 = ESP_OK
                      then Some (ESP_OK, False,
                        s\<lparr>ex_ctx := h1\<lparr>cx_conn_last_use := pt_get_time p w3\<rparr>, ex_conn := Some c, ex_acc := acc, ex_world := w3\<rparr>)
                      else case conn_close p h1 w3 of
                        (h2, w4) \<Rightarrow>
                          Some (err4, reused \<and> ac_status acc = ESP_OK \<and> \<not> ac_got_response acc,
                            s\<lparr>ex_ctx := h2, ex_conn := None, ex_acc := acc, ex_world := w4\<rparr>)))"

text \<open>The loop over \<open>attempt\<close>.\<close>

function request_loop ::
  "('w, 'h) aws_port \<Rightarrow> string \<Rightarrow> int \<Rightarrow> string \<Rightarrow> http_method \<Rightarrow> raw_header list \<Rightarrow> sign_output \<Rightarrow> string option \<Rightarrow> string \<Rightarrow>
     nat \<Rightarrow> ('w, 'h) exchange \<Rightarrow> (esp_err \<times> ('w, 'h) exchange) option" where
  "request_loop p host timeout url m hdrs sig token payload attempt s =
     (case attempt_once p host timeout url m hdrs sig token payload s of
        None \<Rightarrow> None
      | Some (err, may_retry, s1) \<Rightarrow>
          if attempt = 0 \<and> may_retry
          then (case accum_reset (ex_acc s1) of
                  None \<Rightarrow> None
                | Some acc \<Rightarrow> request_loop p host timeout url m hdrs sig token payload (attempt + 1) (s1\<lparr>ex_acc := acc\<rparr>))
          else Some (err, s1))"
  by pat_completeness auto
termination
  by (relation "measure (\<lambda>(p, host, timeout, url, m, hdrs, sig, token, payload, attempt, s). 1 - attempt)") auto

declare request_loop.simps [simp del]

definition sign_request ::
  "'x crypto_ops \<Rightarrow> (nat \<Rightarrow> bool) \<Rightarrow> aws_request \<Rightarrow> string \<Rightarrow> raw_header list \<Rightarrow> string \<Rightarrow> aws_creds \<Rightarrow> int \<Rightarrow> string option \<Rightarrow>
     esp_err \<times> sign_output option" where
  "sign_request cr alloc req handle_region hdrs payload creds now query =
     sigv4_with_query True cr alloc
       \<lparr>si_method = ar_method req, si_host = ar_host req, si_path = ar_path req, si_params = Some [], si_headers = Some hdrs,
        si_payload = Some payload, si_payload_hash = None, si_sign_payload_hash = True,
        si_access_key = map_option fst (cr_keys creds), si_secret = map_option (fst \<circ> snd) (cr_keys creds),
        si_token = map_option (snd \<circ> snd) (cr_keys creds),
        si_region = Some (case ar_region req of Some r \<Rightarrow> r | None \<Rightarrow> handle_region), si_service = ar_service req, si_now = now\<rparr> query"

definition request_valid :: "aws_request \<Rightarrow> bool" where
  "request_valid req \<longleftrightarrow> ar_method req \<noteq> None \<and> ar_host req \<noteq> None \<and> absolute_path (ar_path req) \<and> ar_service req \<noteq> None \<and>
     ar_role_alias req \<noteq> None \<and> ar_creds req \<noteq> None \<and> ar_extra_headers req \<noteq> None \<and> ar_payload req \<noteq> None \<and>
     method_to_enum (the (ar_method req)) \<noteq> None"

definition caller_headers :: "bool \<Rightarrow> aws_request \<Rightarrow> raw_header list option" where
  "caller_headers halloc req =
     (if needs_content_type (the (ar_payload req)) (the (ar_extra_headers req))
      then with_content_type halloc (the (ar_extra_headers req)) else Some (the (ar_extra_headers req)))"

text \<open>From the signature to the response: the URL, the loop, what the caller gets, and the headers cleared on a connection that stays pooled.\<close>

definition send_exchange ::
  "('w, 'h) aws_port \<Rightarrow> aws_request \<Rightarrow> raw_header list \<Rightarrow> string option \<Rightarrow> sign_output \<Rightarrow> aws_creds \<Rightarrow> 'h aws_ctx \<Rightarrow> 'w \<Rightarrow>
     (esp_err \<times> aws_response option \<times> 'h aws_ctx \<times> 'w) option" where
  "send_exchange p req hdrs query sig creds h w =
     (case build_url (pt_malloc p) (the (ar_host req)) (the (ar_path req)) query of
        None \<Rightarrow> Some (ESP_ERR_NO_MEM, None, h, w)
      | Some url \<Rightarrow>
          (case request_loop p (the (ar_host req)) (ar_timeout_ms req) url (the (method_to_enum (the (ar_method req)))) hdrs
              sig (map_option (snd \<circ> snd) (cr_keys creds)) (the (ar_payload req)) 0
              \<lparr>ex_ctx = h, ex_conn = None, ex_acc = accum_init REQUEST_RESPONSE_MAX, ex_world = w\<rparr> of
             None \<Rightarrow> None
           | Some (err, s) \<Rightarrow>
               let resp = (if err \<noteq> ESP_OK then None else
                     case ex_conn s of None \<Rightarrow> None
                     | Some c \<Rightarrow> Some \<lparr>rs_status_code = h_status_code (pt_http p) c (ex_world s),
                         rs_body = ac_buf (ex_acc s), rs_body_len = ac_len (ex_acc s)\<rparr>);
                   w2 = (case ex_conn s of None \<Rightarrow> ex_world s
                     | Some c \<Rightarrow> if cx_conn (ex_ctx s) = Some c then clear_caller_headers p c hdrs (ex_world s) else ex_world s)
               in Some (err, resp, ex_ctx s, w2)))"

text \<open>The request mutex is held from the query to the end; \<open>qalloc\<close>, \<open>calloc\<close> and \<open>halloc\<close> are the allocations of the query, of
  the signer and of the header array.\<close>

definition esp_rmaker_aws_sign_send_request ::
  "('w, 'h) aws_port \<Rightarrow> 'x crypto_ops \<Rightarrow> (nat \<Rightarrow> bool) \<Rightarrow> (nat \<Rightarrow> bool) \<Rightarrow> bool \<Rightarrow> aws_request \<Rightarrow> 'h aws_ctx \<Rightarrow> 'w \<Rightarrow>
     (esp_err \<times> aws_response option \<times> aws_creds option \<times> 'h aws_ctx \<times> 'w) option" where
  "esp_rmaker_aws_sign_send_request p cr qalloc calloc halloc req h w =
     (if \<not> request_valid req then Some (ESP_ERR_INVALID_ARG, None, ar_creds req, h, w)
      else case build_query qalloc (ar_params req) of (e0, query) \<Rightarrow>
        if e0 \<noteq> ESP_OK then Some (e0, None, ar_creds req, h, w)
        else case esp_rmaker_aws_sign_creds_refresh p h (the (ar_role_alias req)) (the (ar_creds req)) w of
          None \<Rightarrow> None
        | Some (e1, creds, w1) \<Rightarrow>
            if e1 \<noteq> ESP_OK then Some (e1, None, Some creds, h, w1)
            else case caller_headers halloc req of
              None \<Rightarrow> Some (ESP_ERR_NO_MEM, None, Some creds, h, w1)
            | Some hdrs \<Rightarrow>
                (case sign_request cr calloc req (cx_region h) hdrs (the (ar_payload req)) creds (pt_get_time p w1) query of
                   (e2, None) \<Rightarrow> Some (e2, None, Some creds, h, w1)
                 | (e2, Some sig) \<Rightarrow>
                     map_option (\<lambda>(err, resp, h', w'). (err, resp, Some creds, h', w'))
                       (send_exchange p req hdrs query sig creds h w1)))"

subsection \<open>A log of the HTTP calls\<close>

datatype ('h, 'o) call =
    Call_Open http_config
  | Call_Set_Header 'h string "string option"
  | Call_Perform 'h string 'o esp_err accum
  | Call_Close 'h

text \<open>\<open>obs\<close> is what is noted of the connection when a request is sent on it.\<close>

definition recording :: "('w \<Rightarrow> 'h \<Rightarrow> 'o) \<Rightarrow> ('w, 'h) aws_port \<Rightarrow> ('w \<times> ('h, 'o) call list, 'h) aws_port" where
  "recording obs p =
     \<lparr>pt_http =
        \<lparr>h_open = (\<lambda>cfg (w, l). case h_open (pt_http p) cfg w of (e, c, w') \<Rightarrow> (e, c, w', l @ [Call_Open cfg])),
         h_set_url = (\<lambda>c u (w, l). case h_set_url (pt_http p) c u w of (e, w') \<Rightarrow> (e, w', l)),
         h_set_method = (\<lambda>c m (w, l). case h_set_method (pt_http p) c m w of (e, w') \<Rightarrow> (e, w', l)),
         h_set_header = (\<lambda>c n v (w, l). case h_set_header (pt_http p) c n v w of (e, w') \<Rightarrow> (e, w', l @ [Call_Set_Header c n v])),
         h_perform = (\<lambda>m c b acc (w, l). map_option (\<lambda>(e, acc', w'). (e, acc', w', l @ [Call_Perform c b (obs w c) e acc']))
           (h_perform (pt_http p) m c b acc w)),
         h_status_code = (\<lambda>c (w, l). h_status_code (pt_http p) c w),
         h_close = (\<lambda>c (w, l). (h_close (pt_http p) c w, l @ [Call_Close c]))\<rparr>,
      pt_get_time = (\<lambda>(w, l). pt_get_time p w), pt_is_synced = map_option (\<lambda>f (w, l). f w) (pt_is_synced p),
      pt_json = pt_json p, pt_malloc = pt_malloc p\<rparr>"

text \<open>What was sent, with the outcome: the connection, the body, what was observed, the error and the accumulator after it.\<close>

fun performs :: "('h, 'o) call list \<Rightarrow> ('h \<times> string \<times> 'o \<times> esp_err \<times> accum) list" where
  "performs [] = []"
| "performs (Call_Perform c b ob e acc # l) = (c, b, ob, e, acc) # performs l"
| "performs (_ # l) = performs l"

lemma performs_append [simp]: "performs (l @ l') = performs l @ performs l'"
  by (induction l rule: performs.induct) auto

abbreviation sent :: "'w \<times> ('h, 'o) call list \<Rightarrow> ('h \<times> string \<times> 'o \<times> esp_err \<times> accum) list" where
  "sent w \<equiv> performs (snd w)"

lemma recording_malloc [simp]: "pt_malloc (recording obs p) = pt_malloc p"
  by (simp add: recording_def)

lemma recording_ops:
  "sent (snd (snd (h_open (pt_http (recording obs p)) cfg w))) = sent w"
  "sent (snd (h_set_url (pt_http (recording obs p)) c u w)) = sent w"
  "sent (snd (h_set_method (pt_http (recording obs p)) c m w)) = sent w"
  "sent (snd (h_set_header (pt_http (recording obs p)) c n v w)) = sent w"
  "sent (h_close (pt_http (recording obs p)) c w) = sent w"
  by (cases w; simp add: recording_def split: prod.splits)+

lemma recording_perform:
  "h_perform (pt_http (recording obs p)) m c b acc w =
    map_option (\<lambda>(e, acc', w'). (e, acc', w', snd w @ [Call_Perform c b (obs (fst w) c) e acc'])) (h_perform (pt_http p) m c b acc (fst w))"
  by (cases w) (simp add: recording_def)

lemma conn_close_sent:
  "conn_close (recording obs p) h w = (h', w') \<Longrightarrow> sent w' = sent w \<and> cx_conn h' = None"
  by (auto simp: conn_close_def recording_ops split: option.splits)

lemma conn_open_sent:
  "conn_open (recording obs p) host url m t h w = (e, h', c, r, w') \<Longrightarrow> sent w' = sent w \<and> \<not> r \<and> (c = None \<longrightarrow> e \<noteq> ESP_OK)"
  using recording_ops(1) [of obs p "open_config h url m t" w]
  by (auto simp: conn_open_def split: prod.splits if_splits)

lemma conn_retarget_sent: "conn_retarget (recording obs p) c url m w = (e, w') \<Longrightarrow> sent w' = sent w"
proof -
  obtain e1 w1 where u: "h_set_url (pt_http (recording obs p)) c url w = (e1, w1)" by (rule prod.exhaust)
  then have "sent w1 = sent w" using recording_ops(2) [of obs p c url w] by simp
  moreover assume "conn_retarget (recording obs p) c url m w = (e, w')"
  ultimately show ?thesis
    using recording_ops(3) [of obs p c m w1] by (auto simp: conn_retarget_def u split: if_splits)
qed

lemma set_headers_sent: "set_headers (recording obs p) c hs w = (e, w') \<Longrightarrow> sent w' = sent w"
proof (induction hs arbitrary: w)
  case (Cons nv hs)
  obtain n v where nv: "nv = (n, v)" by fastforce
  obtain e1 w1 where s: "h_set_header (pt_http (recording obs p)) c (case n of Some t \<Rightarrow> t | None \<Rightarrow> []) v w = (e1, w1)" by (rule prod.exhaust)
  then have "sent w1 = sent w" using recording_ops(4) [of obs p c "case n of Some t \<Rightarrow> t | None \<Rightarrow> []" v w] by simp
  with Cons s show ?case by (auto simp: nv split: if_splits)
qed simp

lemma conn_get_sent:
  assumes "conn_get (recording obs p) host t url m h w = (e, h', c, r, w')"
  shows "sent w' = sent w \<and> (r \<longrightarrow> c = cx_conn h \<and> c \<noteq> None) \<and> (c = None \<longrightarrow> e \<noteq> ESP_OK \<and> \<not> r)"
proof -
  define tm where "tm = (if t \<noteq> 0 then t else REQUEST_HTTP_TIMEOUT_MS)"
  obtain h1 w1 where s1: "(if cx_conn h \<noteq> None \<and> (cx_conn_host h \<noteq> host \<or> cx_conn_timeout_ms h \<noteq> tm)
      then conn_close (recording obs p) h w else (h, w)) = (h1, w1)" by (rule prod.exhaust)
  then have h1: "sent w1 = sent w \<and> (cx_conn h1 = None \<or> cx_conn h1 = cx_conn h)"
    using conn_close_sent [of obs p h w h1 w1] by (auto split: if_splits)
  obtain h2 w2 where s2: "(if cx_conn h1 \<noteq> None \<and> conn_idle_expired (recording obs p) h1 w1 then conn_close (recording obs p) h1 w1 else (h1, w1)) = (h2, w2)"
    by (rule prod.exhaust)
  then have h2: "sent w2 = sent w \<and> (cx_conn h2 = None \<or> cx_conn h2 = cx_conn h)"
    using h1 conn_close_sent [of obs p h1 w1 h2 w2] by (auto split: if_splits)
  note eq = assms [unfolded conn_get_def Let_def tm_def [symmetric] s1 s2 prod.case]
  show ?thesis
  proof (cases "cx_conn h2")
    case None
    with eq have "conn_open (recording obs p) host url m tm h2 w2 = (e, h', c, r, w')" by simp
    from conn_open_sent [OF this] h2 show ?thesis by auto
  next
    case (Some d)
    obtain e3 w3 where r: "conn_retarget (recording obs p) d url m w2 = (e3, w3)" by (rule prod.exhaust)
    note w3 = conn_retarget_sent [OF this]
    obtain h4 w4 where cl: "conn_close (recording obs p) h2 w3 = (h4, w4)" by (rule prod.exhaust)
    from eq Some r cl have "(if e3 = ESP_OK then (ESP_OK, h2, Some d, True, w3) else conn_open (recording obs p) host url m tm h4 w4) = (e, h', c, r, w')"
      by (auto split: if_splits)
    then show ?thesis
      using Some h2 w3 conn_open_sent [of obs p host url m tm h4 w4 e h' c r w'] conn_close_sent [OF cl]
      by (cases "e3 = ESP_OK") (simp_all, metis option.distinct(1))
  qed
qed

subsection \<open>At most one retry\<close>

text \<open>A transfer on a port that replies.\<close>

lemma perform_total:
  assumes "replies_ok p" and acc: "holds acc []" "ac_status acc = ESP_OK"
  obtains err acc' w' where "h_perform (pt_http p) m conn body acc w = Some (err, acc', w')"
    "\<exists>got. holds acc' got" "ac_got_response acc' \<or> acc' = acc"
proof -
  from replies_okE [OF assms] obtain err acc' w' rp where
    r: "h_perform (pt_http p) m conn body acc w = Some (err, acc', w')" "reply_ok rp" "perform_into m rp acc = Some (err, acc')" by blast
  from perform_into_cases [OF acc r(2), of m] r(3) have "\<exists>got. holds acc' got" "ac_got_response acc' \<or> acc' = acc" by auto
  with r(1) that show ?thesis by blast
qed

text \<open>One attempt sends at most once; one that may be retried was sent on the pooled connection and met no response.\<close>

lemma attempt_cases:
  assumes ok: "replies_ok p" and acc: "holds (ex_acc s) []" "ac_status (ex_acc s) = ESP_OK"
  shows "\<exists>err may_retry s1 new. attempt_once (recording obs p) host t url m hdrs sig token payload s = Some (err, may_retry, s1) \<and>
    sent (ex_world s1) = sent (ex_world s) @ new \<and>
    (new = [] \<and> \<not> may_retry \<and> err \<noteq> ESP_OK \<or>
     (\<exists>c ob e acc. new = [(c, payload, ob, e, acc)] \<and> ex_acc s1 = acc \<and>
       (may_retry \<longrightarrow> err \<noteq> ESP_OK \<and> cx_conn (ex_ctx s) = Some c \<and> \<not> ac_got_response acc \<and> holds acc []) \<and>
       (err = ESP_OK \<longrightarrow> e = ESP_OK \<and> ac_status acc = ESP_OK \<and> (\<exists>got. holds acc got))))"
proof -
  obtain e h1 oc r w1 where g: "conn_get (recording obs p) host t url m (ex_ctx s) (ex_world s) = (e, h1, oc, r, w1)"
    by (metis prod.exhaust)
  from conn_get_sent [OF g] have g1: "sent w1 = sent (ex_world s)" "r \<longrightarrow> oc = cx_conn (ex_ctx s) \<and> oc \<noteq> None" "oc = None \<longrightarrow> e \<noteq> ESP_OK" by auto
  show ?thesis
  proof (cases oc)
    case None
    then show ?thesis using g g1 by (auto simp: attempt_once_def)
  next
    case (Some c)
    obtain e2 w2 where sh: "set_request_headers (recording obs p) c hdrs sig token w1 = (e2, w2)" by (rule prod.exhaust)
    then have w2: "sent w2 = sent (ex_world s)" using set_headers_sent g1(1) by (metis set_request_headers_def)
    show ?thesis
    proof (cases "e2 = ESP_OK")
      case False
      then show ?thesis using g sh w2 Some by (auto simp: attempt_once_def)
    next
      case True
      from perform_total [OF ok acc] obtain e3 acc' w where
        pf0: "h_perform (pt_http p) (pt_malloc p) c payload (ex_acc s) (fst w2) = Some (e3, acc', w)" and
        acc': "\<exists>got. holds acc' got" "ac_got_response acc' \<or> acc' = ex_acc s" by blast
      let ?w3 = "(w, snd w2 @ [Call_Perform c payload (obs (fst w2) c) e3 acc'])"
      have pf: "h_perform (pt_http (recording obs p)) (pt_malloc p) c payload (ex_acc s) w2 = Some (e3, acc', ?w3)"
        by (simp add: recording_perform pf0)
      have w3: "sent ?w3 = sent (ex_world s) @ [(c, payload, obs (fst w2) c, e3, acc')]" using w2 by simp
      define e4 where "e4 = (if ac_status acc' \<noteq> ESP_OK then ac_status acc' else e3)"
      show ?thesis
      proof (cases "e4 = ESP_OK")
        case True
        then have "ac_status acc' = ESP_OK" "e3 = ESP_OK" by (auto simp: e4_def split: if_splits)
        then show ?thesis using \<open>e2 = ESP_OK\<close> g sh w3 Some pf acc'(1)
          by (auto simp: attempt_once_def Let_def)
      next
        case False
        obtain h2 w4 where cl: "conn_close (recording obs p) h1 ?w3 = (h2, w4)" by (rule prod.exhaust)
        have "attempt_once (recording obs p) host t url m hdrs sig token payload s = Some (e4, r \<and> ac_status acc' = ESP_OK \<and> \<not> ac_got_response acc',
            s\<lparr>ex_ctx := h2, ex_conn := None, ex_acc := acc', ex_world := w4\<rparr>)"
          using False \<open>e2 = ESP_OK\<close> g sh Some pf cl by (simp add: attempt_once_def Let_def e4_def [symmetric])
        moreover have "sent w4 = sent (ex_world s) @ [(c, payload, obs (fst w2) c, e3, acc')]" using conn_close_sent [OF cl] w3 by simp
        ultimately show ?thesis using False g1(2) acc'(2) acc Some
          by (intro exI [of _ e4] exI [of _ "r \<and> ac_status acc' = ESP_OK \<and> \<not> ac_got_response acc'"]
            exI [of _ "s\<lparr>ex_ctx := h2, ex_conn := None, ex_acc := acc', ex_world := w4\<rparr>"] exI [of _ "[(c, payload, obs (fst w2) c, e3, acc')]"]) auto
      qed
    qed
  qed
qed

text \<open>C18.
  A signed request is sent at most twice. It is sent a second time only when the first went out on the connection pooled by an
  earlier request and met no response at all, not even its headers, so a server that answered anything never sees it again. Both carry
  the payload. The loop always returns, and when it reports success the last sending succeeded and left the accumulator that is handed on.\<close>

theorem request_resent_once:
  assumes "replies_ok p" and "limit < 2 ^ 31"
  shows "\<exists>err s new. request_loop (recording obs p) host timeout url m hdrs sig token payload 0
        \<lparr>ex_ctx = h, ex_conn = None, ex_acc = accum_init limit, ex_world = (w, log)\<rparr> = Some (err, s) \<and>
    performs (snd (ex_world s)) = performs log @ new \<and> length new \<le> 2 \<and> (\<forall>(c, body, ob, e, acc) \<in> set new. body = payload) \<and>
    (length new = 2 \<longrightarrow> (case hd new of (c, body, ob, e, acc) \<Rightarrow> cx_conn h = Some c \<and> \<not> ac_got_response acc)) \<and>
    (err = ESP_OK \<longrightarrow> (\<exists>c ob acc got. new \<noteq> [] \<and> last new = (c, payload, ob, ESP_OK, acc) \<and> ac_status acc = ESP_OK \<and> ex_acc s = acc \<and> holds acc got))"
proof -
  let ?s = "\<lparr>ex_ctx = h, ex_conn = None, ex_acc = accum_init limit, ex_world = (w, log)\<rparr>"
  let ?go = "request_loop (recording obs p) host timeout url m hdrs sig token payload"
  have i: "holds (ex_acc ?s) []" "ac_status (ex_acc ?s) = ESP_OK" using holds_init [OF assms(2)] by (simp_all add: accum_init_def)
  from attempt_cases [OF assms(1) i, of obs host timeout url m hdrs sig token payload] obtain err retry s1 new where
    a: "attempt_once (recording obs p) host timeout url m hdrs sig token payload ?s = Some (err, retry, s1)"
    and n: "sent (ex_world s1) = sent (ex_world ?s) @ new" and
    alt: "new = [] \<and> \<not> retry \<and> err \<noteq> ESP_OK \<or>
     (\<exists>c ob e acc. new = [(c, payload, ob, e, acc)] \<and> ex_acc s1 = acc \<and>
       (retry \<longrightarrow> err \<noteq> ESP_OK \<and> cx_conn (ex_ctx ?s) = Some c \<and> \<not> ac_got_response acc \<and> holds acc []) \<and>
       (err = ESP_OK \<longrightarrow> e = ESP_OK \<and> ac_status acc = ESP_OK \<and> (\<exists>got. holds acc got)))" by blast
  show ?thesis
  proof (cases retry)
    case False
    then have "?go 0 ?s = Some (err, s1)" by (subst request_loop.simps) (simp add: a)
    with n alt False show ?thesis by (intro exI [of _ err] exI [of _ s1] exI [of _ new]) auto
  next
    case True
    with alt obtain c ob e acc1 where first: "new = [(c, payload, ob, e, acc1)]" "cx_conn h = Some c" "\<not> ac_got_response acc1" "holds (ex_acc s1) []"
      by auto
    from holds_reset [OF first(4)] obtain acc where r: "accum_reset (ex_acc s1) = Some acc" "holds acc []" "ac_status acc = ESP_OK" by blast
    let ?s2 = "s1\<lparr>ex_acc := acc\<rparr>"
    have i2: "holds (ex_acc ?s2) []" "ac_status (ex_acc ?s2) = ESP_OK" using r by simp_all
    from attempt_cases [OF assms(1) i2, of obs host timeout url m hdrs sig token payload] obtain err2 retry2 s3 new2 where
      a2: "attempt_once (recording obs p) host timeout url m hdrs sig token payload ?s2 = Some (err2, retry2, s3)"
      and n2: "sent (ex_world s3) = sent (ex_world ?s2) @ new2" and
      alt2: "new2 = [] \<and> err2 \<noteq> ESP_OK \<or>
       (\<exists>c ob e acc. new2 = [(c, payload, ob, e, acc)] \<and> ex_acc s3 = acc \<and>
         (err2 = ESP_OK \<longrightarrow> e = ESP_OK \<and> ac_status acc = ESP_OK \<and> (\<exists>got. holds acc got)))" by blast
    have "?go 0 ?s = ?go 1 ?s2" by (subst request_loop.simps) (simp add: a True r(1))
    also have "\<dots> = Some (err2, s3)" by (subst request_loop.simps) (simp add: a2)
    finally show ?thesis
      using n n2 alt2 first by (intro exI [of _ err2] exI [of _ s3] exI [of _ "new @ new2"]) auto
  qed
qed

theorem request_resent_once_witness:
  "\<exists>err s new. request_loop (recording (\<lambda>w c. ()) sample_aws_port) ''h'' 0 ''https://h/'' HTTP_GET []
        \<lparr>so_authorization = [], so_amz_date = [], so_content_sha256 = []\<rparr> None [] 0
        \<lparr>ex_ctx = sample_ctx, ex_conn = None, ex_acc = accum_init 8192, ex_world = (0, [])\<rparr> = Some (err, s) \<and>
    performs (snd (ex_world s)) = new \<and> length new \<le> 2"
  using request_resent_once [OF sample_replies, of 8192 "\<lambda>w c. ()" "''h''" 0 "''https://h/''" HTTP_GET "[]"
      "\<lparr>so_authorization = [], so_amz_date = [], so_content_sha256 = []\<rparr>" None "[]" sample_ctx 0 "[]"] by auto

end
