(* ===== verification/Aws_Locks.thy ===== *)
theory Aws_Locks
  imports Aws_Request State_Machine
begin

section \<open>AWS signing: the locks of the handle\<close>

text \<open>
  The operations of \<open>esp_rmaker_aws_sign_creds.c\<close> and \<open>esp_rmaker_aws_sign_send_request.c\<close> as several tasks call them on one
  handle. A call is a program: locks, unlocks, single reads and writes of the fields that change, and work on the outside
  world, in the order of the code; a task runs any sequence of calls, and the tasks interleave between any two of these actions. Each
  program run alone is the sequential operation of \<open>Aws_Creds\<close> and \<open>Aws_Request\<close>. The port's mutexes are
  given by their contract: \<open>lock\<close> waits until the mutex is free, \<open>unlock\<close> gives it back. Events record what the theorems speak of.
\<close>

subsection \<open>Programs\<close>

datatype aws_mutex = Request_Mutex | Creds_Mutex | Region_Mutex

text \<open>What is announced: a host set with its generation and region, credentials fetched from a host, a signature by credentials
  of a generation with the handle's region.\<close>

datatype aws_event = Host_Set u32 string string | Fetched u32 string | Signed_With u32 string

type_synonym 'h conn_fields = "'h option \<times> string \<times> int \<times> int"

datatype ('w, 'h) prog =
    Return
  | Fault
  | Lock aws_mutex "('w, 'h) prog"
  | Unlock aws_mutex "('w, 'h) prog"
  | Get_Host "string \<Rightarrow> ('w, 'h) prog"
  | Set_Host string "('w, 'h) prog"
  | New_Gen "u32 \<Rightarrow> ('w, 'h) prog"
  | Get_Gen "u32 \<Rightarrow> ('w, 'h) prog"
  | Set_Gen u32 "('w, 'h) prog"
  | Get_Region "string \<Rightarrow> ('w, 'h) prog"
  | Set_Region string "('w, 'h) prog"
  | Get_Conn "'h conn_fields \<Rightarrow> ('w, 'h) prog"
  | Set_Conn "'h conn_fields" "('w, 'h) prog"
  | Outside "'w \<Rightarrow> 'w" "'w \<Rightarrow> ('w, 'h) prog"
  | Announce aws_event "('w, 'h) prog"

text \<open>\<open>s_last_host_gen\<close> is shared by every handle; \<open>sh_owner\<close> names the task that holds each mutex.\<close>

record ('w, 'h) shared =
  sh_ctx :: "'h aws_ctx"
  sh_last_gen :: u32
  sh_owner :: "aws_mutex \<Rightarrow> nat option"
  sh_world :: 'w
  sh_events :: "aws_event list"

definition conn_fields :: "'h aws_ctx \<Rightarrow> 'h conn_fields" where
  "conn_fields h = (cx_conn h, cx_conn_host h, cx_conn_last_use h, cx_conn_timeout_ms h)"

definition with_conn :: "'h conn_fields \<Rightarrow> 'h aws_ctx \<Rightarrow> 'h aws_ctx" where
  "with_conn f h = (case f of (c, host, last_use, timeout) \<Rightarrow>
     h\<lparr>cx_conn := c, cx_conn_host := host, cx_conn_last_use := last_use, cx_conn_timeout_ms := timeout\<rparr>)"

text \<open>One action of task \<open>i\<close>; \<open>None\<close> when it waits for a mutex or has no action left.\<close>

fun prog_step :: "nat \<Rightarrow> ('w, 'h) prog \<Rightarrow> ('w, 'h) shared \<Rightarrow> (('w, 'h) prog \<times> ('w, 'h) shared) option" where
  "prog_step i Return s = None"
| "prog_step i Fault s = None"
| "prog_step i (Lock m k) s = (if sh_owner s m = None then Some (k, s\<lparr>sh_owner := (sh_owner s)(m := Some i)\<rparr>) else None)"
| "prog_step i (Unlock m k) s = Some (k, s\<lparr>sh_owner := (sh_owner s)(m := None)\<rparr>)"
| "prog_step i (Get_Host k) s = Some (k (cx_cred_host (sh_ctx s)), s)"
| "prog_step i (Set_Host host k) s = Some (k, s\<lparr>sh_ctx := (sh_ctx s)\<lparr>cx_cred_host := host\<rparr>\<rparr>)"
| "prog_step i (New_Gen k) s = (case next_host_gen (sh_last_gen s) of (l, g) \<Rightarrow> Some (k g, s\<lparr>sh_last_gen := l\<rparr>))"
| "prog_step i (Get_Gen k) s = Some (k (cx_cred_host_gen (sh_ctx s)), s)"
| "prog_step i (Set_Gen g k) s = Some (k, s\<lparr>sh_ctx := (sh_ctx s)\<lparr>cx_cred_host_gen := g\<rparr>\<rparr>)"
| "prog_step i (Get_Region k) s = Some (k (cx_region (sh_ctx s)), s)"
| "prog_step i (Set_Region r k) s = Some (k, s\<lparr>sh_ctx := (sh_ctx s)\<lparr>cx_region := r\<rparr>\<rparr>)"
| "prog_step i (Get_Conn k) s = Some (k (conn_fields (sh_ctx s)), s)"
| "prog_step i (Set_Conn f k) s = Some (k, s\<lparr>sh_ctx := with_conn f (sh_ctx s)\<rparr>)"
| "prog_step i (Outside f k) s = Some (k (sh_world s), s\<lparr>sh_world := f (sh_world s)\<rparr>)"
| "prog_step i (Announce e k) s = Some (k, s\<lparr>sh_events := sh_events s @ [e]\<rparr>)"

subsection \<open>The calls\<close>

text \<open>Each call takes what follows it as a function of its result. \<open>c\<close> holds the fields of the handle that never change.\<close>

definition set_cred_host_call ::
  "(nat \<Rightarrow> bool) \<Rightarrow> string option \<Rightarrow> string option \<Rightarrow> (esp_err \<Rightarrow> ('w, 'h) prog) \<Rightarrow> ('w, 'h) prog" where
  "set_cred_host_call malloc_ok cred_host region k =
     (case cred_host of
        None \<Rightarrow> k ESP_ERR_INVALID_ARG
      | Some host \<Rightarrow>
          (case region_resolve malloc_ok host region of
             (err, new_region) \<Rightarrow>
               if err \<noteq> ESP_OK then k err
               else if \<not> malloc_ok (length host + 1) then k ESP_ERR_NO_MEM
               else Lock Request_Mutex (Lock Creds_Mutex (Set_Host host (New_Gen (\<lambda>gen. Set_Gen gen
                 (Lock Region_Mutex (Set_Region new_region (Announce (Host_Set gen host new_region)
                 (Unlock Region_Mutex (Unlock Creds_Mutex (Unlock Request_Mutex (k ESP_OK)))))))))))))"

definition get_region_call :: "nat \<Rightarrow> (esp_err \<times> string option \<Rightarrow> ('w, 'h) prog) \<Rightarrow> ('w, 'h) prog" where
  "get_region_call buf_len k =
     (if buf_len = 0 then k (ESP_ERR_INVALID_ARG, None)
      else Lock Region_Mutex (Get_Region (\<lambda>region. Unlock Region_Mutex
        (k (if length region < buf_len then (ESP_OK, Some region) else (ESP_ERR_INVALID_SIZE, None))))))"

text \<open>The fetch is one action outside: it holds the credentials mutex, which keeps the host.\<close>

definition fetch_call ::
  "('w, 'h) aws_port \<Rightarrow> 'h aws_ctx \<Rightarrow> string \<Rightarrow> string \<Rightarrow> (esp_err \<times> aws_creds \<Rightarrow> ('w, 'h) prog) \<Rightarrow> ('w, 'h) prog" where
  "fetch_call p c host role_alias k =
     Outside (\<lambda>w. case creds_fetch p (c\<lparr>cx_cred_host := host\<rparr>) role_alias w of None \<Rightarrow> w | Some (err, fresh, w') \<Rightarrow> w')
       (\<lambda>w. case creds_fetch p (c\<lparr>cx_cred_host := host\<rparr>) role_alias w of None \<Rightarrow> Fault | Some (err, fresh, w') \<Rightarrow> k (err, fresh))"

definition creds_refresh_call ::
  "('w, 'h) aws_port \<Rightarrow> 'h aws_ctx \<Rightarrow> string \<Rightarrow> aws_creds \<Rightarrow> (esp_err \<times> aws_creds \<Rightarrow> ('w, 'h) prog) \<Rightarrow> ('w, 'h) prog" where
  "creds_refresh_call p c role_alias creds k =
     (if cr_keys creds \<noteq> None \<and> cr_alias_hash creds \<noteq> alias_hash role_alias then k (ESP_ERR_INVALID_ARG, creds)
      else Outside (\<lambda>w. w) (\<lambda>w0. if \<not> clock_is_trustworthy p w0 then k (ESP_ERR_INVALID_STATE, creds)
      else Lock Creds_Mutex (Outside (\<lambda>w. w) (\<lambda>w. Get_Gen (\<lambda>gen.
        if creds_stale (c\<lparr>cx_cred_host_gen := gen\<rparr>) (pt_get_time p w) creds
        then Get_Host (\<lambda>host. fetch_call p c host role_alias (\<lambda>(err, fresh).
          if err = ESP_OK
          then Get_Gen (\<lambda>gen2. Announce (Fetched gen2 host) (Unlock Creds_Mutex
            (k (ESP_OK, date_creds (pt_get_time p w) gen2 (alias_hash role_alias) fresh))))
          else Unlock Creds_Mutex (k (err, creds))))
        else Unlock Creds_Mutex (k (ESP_OK, creds)))))))"

definition read_region :: "aws_request \<Rightarrow> u32 \<Rightarrow> (string \<Rightarrow> ('w, 'h) prog) \<Rightarrow> ('w, 'h) prog" where
  "read_region req gen k =
     (if ar_region req \<noteq> None then k [] else Get_Region (\<lambda>region. Announce (Signed_With gen region) (k region)))"

definition exchange_call ::
  "('w, 'h) aws_port \<Rightarrow> 'h aws_ctx \<Rightarrow> aws_request \<Rightarrow> raw_header list \<Rightarrow> string option \<Rightarrow> sign_output \<Rightarrow> aws_creds \<Rightarrow>
     (esp_err \<times> aws_response option \<Rightarrow> ('w, 'h) prog) \<Rightarrow> ('w, 'h) prog" where
  "exchange_call p c req hdrs query sig creds k =
     Get_Conn (\<lambda>f.
       Outside (\<lambda>w. case send_exchange p req hdrs query sig creds (with_conn f c) w of None \<Rightarrow> w | Some (err, resp, h, w') \<Rightarrow> w')
         (\<lambda>w. case send_exchange p req hdrs query sig creds (with_conn f c) w of
            None \<Rightarrow> Fault
          | Some (err, resp, h, w') \<Rightarrow> Set_Conn (conn_fields h) (k (err, resp))))"

text \<open>The result is the error, the response and the credentials struct.\<close>

definition send_request_call ::
  "('w, 'h) aws_port \<Rightarrow> 'x crypto_ops \<Rightarrow> (nat \<Rightarrow> bool) \<Rightarrow> (nat \<Rightarrow> bool) \<Rightarrow> bool \<Rightarrow> 'h aws_ctx \<Rightarrow> aws_request \<Rightarrow>
     (esp_err \<times> aws_response option \<times> aws_creds option \<Rightarrow> ('w, 'h) prog) \<Rightarrow> ('w, 'h) prog" where
  "send_request_call p cr qalloc calloc halloc c req k =
     (if \<not> request_valid req then k (ESP_ERR_INVALID_ARG, None, ar_creds req)
      else case build_query qalloc (ar_params req) of (e0, query) \<Rightarrow>
        if e0 \<noteq> ESP_OK then k (e0, None, ar_creds req)
        else Lock Request_Mutex (creds_refresh_call p c (the (ar_role_alias req)) (the (ar_creds req)) (\<lambda>(e1, creds).
          if e1 \<noteq> ESP_OK then Unlock Request_Mutex (k (e1, None, Some creds))
          else case caller_headers halloc req of
            None \<Rightarrow> Unlock Request_Mutex (k (ESP_ERR_NO_MEM, None, Some creds))
          | Some hdrs \<Rightarrow> read_region req (cr_host_gen creds) (\<lambda>region. Outside (\<lambda>w. w) (\<lambda>w.
              case sign_request cr calloc req region hdrs (the (ar_payload req)) creds (pt_get_time p w) query of
                (e2, None) \<Rightarrow> Unlock Request_Mutex (k (e2, None, Some creds))
              | (e2, Some sig) \<Rightarrow> exchange_call p c req hdrs query sig creds
                  (\<lambda>(err, resp). Unlock Request_Mutex (k (err, resp, Some creds))))))))"

text \<open>What a task may run: any calls, each chosen by the results of those before.\<close>

inductive client :: "('w, 'h) aws_port \<Rightarrow> 'x crypto_ops \<Rightarrow> 'h aws_ctx \<Rightarrow> ('w, 'h) prog \<Rightarrow> bool" for p cr c where
  finished: "client p cr c Return"
| set_cred_host: "\<forall>r. client p cr c (k r) \<Longrightarrow> client p cr c (set_cred_host_call malloc_ok cred_host region k)"
| get_region: "\<forall>r. client p cr c (k r) \<Longrightarrow> client p cr c (get_region_call buf_len k)"
| refresh: "\<forall>r. client p cr c (k r) \<Longrightarrow> client p cr c (creds_refresh_call p c role_alias creds k)"
| send: "\<forall>r. client p cr c (k r) \<Longrightarrow> client p cr c (send_request_call p cr qalloc calloc halloc c req k)"


subsection \<open>A program run alone\<close>

text \<open>The actions of one task with no other; \<open>None\<close> when it would wait forever or meets undefined behaviour.\<close>

primrec run_alone :: "nat \<Rightarrow> ('w, 'h) prog \<Rightarrow> ('w, 'h) shared \<Rightarrow> ('w, 'h) shared option" where
  "run_alone i Return = (\<lambda>s. Some s)"
| "run_alone i Fault = (\<lambda>s. None)"
| "run_alone i (Lock m k) = (\<lambda>s. if sh_owner s m = None then run_alone i k (s\<lparr>sh_owner := (sh_owner s)(m := Some i)\<rparr>) else None)"
| "run_alone i (Unlock m k) = (\<lambda>s. run_alone i k (s\<lparr>sh_owner := (sh_owner s)(m := None)\<rparr>))"
| "run_alone i (Get_Host k) = (\<lambda>s. run_alone i (k (cx_cred_host (sh_ctx s))) s)"
| "run_alone i (Set_Host host k) = (\<lambda>s. run_alone i k (s\<lparr>sh_ctx := (sh_ctx s)\<lparr>cx_cred_host := host\<rparr>\<rparr>))"
| "run_alone i (New_Gen k) = (\<lambda>s. run_alone i (k (snd (next_host_gen (sh_last_gen s)))) (s\<lparr>sh_last_gen := fst (next_host_gen (sh_last_gen s))\<rparr>))"
| "run_alone i (Get_Gen k) = (\<lambda>s. run_alone i (k (cx_cred_host_gen (sh_ctx s))) s)"
| "run_alone i (Set_Gen g k) = (\<lambda>s. run_alone i k (s\<lparr>sh_ctx := (sh_ctx s)\<lparr>cx_cred_host_gen := g\<rparr>\<rparr>))"
| "run_alone i (Get_Region k) = (\<lambda>s. run_alone i (k (cx_region (sh_ctx s))) s)"
| "run_alone i (Set_Region r k) = (\<lambda>s. run_alone i k (s\<lparr>sh_ctx := (sh_ctx s)\<lparr>cx_region := r\<rparr>\<rparr>))"
| "run_alone i (Get_Conn k) = (\<lambda>s. run_alone i (k (conn_fields (sh_ctx s))) s)"
| "run_alone i (Set_Conn f k) = (\<lambda>s. run_alone i k (s\<lparr>sh_ctx := with_conn f (sh_ctx s)\<rparr>))"
| "run_alone i (Outside f k) = (\<lambda>s. run_alone i (k (sh_world s)) (s\<lparr>sh_world := f (sh_world s)\<rparr>))"
| "run_alone i (Announce e k) = (\<lambda>s. run_alone i k (s\<lparr>sh_events := sh_events s @ [e]\<rparr>))"

text \<open>It takes exactly the steps of the task.\<close>

lemma run_alone_step: "prog_step i q s = Some (q', s') \<Longrightarrow> run_alone i q s = run_alone i q' s'"
  by (cases q) (auto split: if_splits prod.splits)


subsection \<open>Each call run alone is the sequential operation\<close>

text \<open>A request changes only the connection fields of the handle.\<close>

lemma with_conn_with_conn [simp]: "with_conn f (with_conn g h) = with_conn f h"
  by (simp add: with_conn_def split: prod.splits)

lemma with_conn_same [simp]: "with_conn (conn_fields h) h = h"
  by (simp add: with_conn_def conn_fields_def)

lemma conn_fields_with [simp]: "conn_fields (with_conn f h) = f"
  by (simp add: with_conn_def conn_fields_def split: prod.splits)

lemma with_conn_frame [simp]:
  "cx_cred_host (with_conn f h) = cx_cred_host h" "cx_cred_host_gen (with_conn f h) = cx_cred_host_gen h"
  "cx_region (with_conn f h) = cx_region h"
  by (simp_all add: with_conn_def split: prod.splits)

definition conn_only :: "'h aws_ctx \<Rightarrow> 'h aws_ctx \<Rightarrow> bool" where
  "conn_only h h' \<longleftrightarrow> with_conn (conn_fields h') h = h'"

lemma conn_only_refl [simp]: "conn_only h h"
  by (simp add: conn_only_def)

lemma conn_only_trans [trans]: "conn_only h h1 \<Longrightarrow> conn_only h1 h2 \<Longrightarrow> conn_only h h2"
  unfolding conn_only_def by (metis with_conn_with_conn)

lemma conn_only_upd [simp]:
  "conn_only h (h'\<lparr>cx_conn := c\<rparr>) = conn_only h h'" "conn_only h (h'\<lparr>cx_conn_host := a\<rparr>) = conn_only h h'"
  "conn_only h (h'\<lparr>cx_conn_last_use := l\<rparr>) = conn_only h h'" "conn_only h (h'\<lparr>cx_conn_timeout_ms := t\<rparr>) = conn_only h h'"
  by (cases h; cases h'; simp add: conn_only_def with_conn_def conn_fields_def)+

lemma conn_only_close: "conn_close p h w = (h', w') \<Longrightarrow> conn_only h h'"
  by (auto simp: conn_close_def)

lemma conn_only_open: "conn_open p host url m t h w = (e, h', c, r, w') \<Longrightarrow> conn_only h h'"
  by (auto simp: conn_open_def split: prod.splits if_splits)

lemma conn_only_get:
  assumes "conn_get p host t url m h w = (e, h', c, r, w')"
  shows "conn_only h h'"
proof -
  define tm where "tm = (if t \<noteq> 0 then t else REQUEST_HTTP_TIMEOUT_MS)"
  obtain h1 w1 where s1: "(if cx_conn h \<noteq> None \<and> (cx_conn_host h \<noteq> host \<or> cx_conn_timeout_ms h \<noteq> tm)
      then conn_close p h w else (h, w)) = (h1, w1)" by (rule prod.exhaust)
  obtain h2 w2 where s2: "(if cx_conn h1 \<noteq> None \<and> conn_idle_expired p h1 w1 then conn_close p h1 w1 else (h1, w1)) = (h2, w2)"
    by (rule prod.exhaust)
  note eq = assms [unfolded conn_get_def Let_def tm_def [symmetric] s1 s2 prod.case]
  have "conn_only h h1" "conn_only h1 h2" using s1 s2 by (auto split: if_splits dest: conn_only_close)
  moreover have "conn_only h2 h'" using eq
    by (auto split: option.splits prod.splits if_splits dest!: conn_only_open conn_only_close intro: conn_only_trans)
  ultimately show ?thesis by (metis conn_only_trans)
qed

lemma conn_only_attempt:
  assumes "attempt_once p host t url m hdrs sig token payload s = Some (e, r, s')"
  shows "conn_only (ex_ctx s) (ex_ctx s')"
proof -
  obtain e1 h1 oc r1 w1 where g: "conn_get p host t url m (ex_ctx s) (ex_world s) = (e1, h1, oc, r1, w1)"
    by (metis prod.exhaust)
  note g1 = conn_only_get [OF this]
  from assms show ?thesis
    by (auto simp: attempt_once_def g g1 Let_def split: option.splits prod.splits if_splits dest!: conn_only_close
      intro: conn_only_trans [OF g1])
qed

lemma conn_only_loop:
  "request_loop p host t url m hdrs sig token payload n s = Some (e, s') \<Longrightarrow> conn_only (ex_ctx s) (ex_ctx s')"
proof (induction p host t url m hdrs sig token payload n s rule: request_loop.induct)
  case (1 p host t url m hdrs sig token payload n s)
  obtain e1 r1 s1 where a: "attempt_once p host t url m hdrs sig token payload s = Some (e1, r1, s1)"
    using 1(2) by (subst (asm) request_loop.simps) (auto split: option.splits)
  note o1 = conn_only_attempt [OF this]
  show ?case
  proof (cases "n = 0 \<and> r1")
    case True
    then obtain acc where r: "accum_reset (ex_acc s1) = Some acc"
      and l: "request_loop p host t url m hdrs sig token payload (n + 1) (s1\<lparr>ex_acc := acc\<rparr>) = Some (e, s')"
      using 1(2) a by (subst (asm) request_loop.simps) (auto split: option.splits)
    from 1(1) [OF a refl refl _ r l] True o1 show ?thesis by (auto intro: conn_only_trans)
  next
    case False
    with 1(2) a o1 show ?thesis by (subst (asm) request_loop.simps) auto
  qed
qed

lemma conn_only_exchange:
  "send_exchange p req hdrs query sig creds h w = Some (err, resp, h', w') \<Longrightarrow> conn_only h h'"
  by (auto simp: send_exchange_def Let_def split: option.splits prod.splits dest!: conn_only_loop)

definition idle :: "('w, 'h) shared \<Rightarrow> bool" where
  "idle s \<longleftrightarrow> sh_owner s = (\<lambda>_. None)"


text \<open>A mutex taken and given back.\<close>

lemma given_back: "f m = None \<Longrightarrow> f(m := x, m := None) = f"
  by (auto simp: fun_eq_iff)

lemma given_back2: "f m = None \<Longrightarrow> f m' = None \<Longrightarrow> m \<noteq> m' \<Longrightarrow> f(m := x, m' := y, m' := None, m := None) = f"
  by (auto simp: fun_eq_iff)

lemma given_back3:
  "f(Request_Mutex := x, Creds_Mutex := y, Region_Mutex := z, Region_Mutex := None, Creds_Mutex := None, Request_Mutex := None) = (\<lambda>_. None)"
  using aws_mutex.exhaust by (auto simp: fun_eq_iff)

lemma set_cred_host_alone:
  assumes "idle s" and r: "esp_rmaker_aws_sign_set_cred_host malloc_ok host region (sh_last_gen s) (sh_ctx s) = (err, h', l')"
  shows "\<exists>ev. run_alone i (set_cred_host_call malloc_ok host region k) s =
    run_alone i (k err) (s\<lparr>sh_ctx := h', sh_last_gen := l', sh_events := sh_events s @ ev\<rparr>)"
proof (cases "err = ESP_OK")
  case True
  have ow: "sh_owner s = (\<lambda>_. None)" using assms(1) by (simp add: idle_def)
  from True r obtain h reg gen where h: "host = Some h" "region_resolve malloc_ok h region = (ESP_OK, reg)" "malloc_ok (Suc (length h))"
    "next_host_gen (sh_last_gen s) = (l', gen)" "h' = (sh_ctx s)\<lparr>cx_cred_host := h, cx_cred_host_gen := gen, cx_region := reg\<rparr>"
    by (auto simp: esp_rmaker_aws_sign_set_cred_host_def split: option.splits prod.splits if_splits)
  show ?thesis
    by (rule exI [of _ "[Host_Set gen h reg]"], cases s)
      (use True h ow in \<open>simp add: set_cred_host_call_def given_back3 del: fun_upd_apply fun_upd_upd\<close>, simp)
next
  case False
  then show ?thesis using r
    by (intro exI [of _ "[]"]) (auto simp: set_cred_host_call_def esp_rmaker_aws_sign_set_cred_host_def
      split: option.splits prod.splits if_splits)
qed

lemma get_region_alone:
  "idle s \<Longrightarrow> run_alone i (get_region_call buf_len k) s = run_alone i (k (esp_rmaker_aws_sign_get_region buf_len (sh_ctx s))) s"
  by (cases s) (auto simp: get_region_call_def esp_rmaker_aws_sign_get_region_def idle_def given_back simp del: fun_upd_upd)


lemma shared_same:
  "s\<lparr>sh_world := sh_world s, sh_events := sh_events s\<rparr> = (s :: ('w, 'h) shared)"
  "s\<lparr>sh_world := sh_world s\<rparr> = s"
  by simp_all

lemma creds_refresh_alone:
  assumes free: "sh_owner s Creds_Mutex = None" and c: "c = sh_ctx s"
    and r: "esp_rmaker_aws_sign_creds_refresh p c role_alias creds (sh_world s) = Some (err, creds', w')"
  shows "\<exists>ev. run_alone i (creds_refresh_call p c role_alias creds k) s =
    run_alone i (k (err, creds')) (s\<lparr>sh_world := w', sh_events := sh_events s @ ev\<rparr>)"
proof -
  define wrong where "wrong \<longleftrightarrow> cr_keys creds \<noteq> None \<and> cr_alias_hash creds \<noteq> alias_hash role_alias"
  define stale where "stale \<longleftrightarrow> creds_stale c (pt_get_time p (sh_world s)) creds"
  define trust where "trust \<longleftrightarrow> clock_is_trustworthy p (sh_world s)"
  note eqs = wrong_def stale_def trust_def
  have "creds_fetch p c role_alias (sh_world s) \<noteq> None" if "\<not> wrong" trust stale
    using r that by (auto simp: esp_rmaker_aws_sign_creds_refresh_def Let_def eqs)
  then consider "wrong \<or> \<not> trust" | "\<not> wrong" trust "\<not> stale"
    | err2 fresh w2 where "\<not> wrong" trust stale "creds_fetch p c role_alias (sh_world s) = Some (err2, fresh, w2)" by fastforce
  then show ?thesis
  proof cases
    case 1
    then show ?thesis using r
      by (intro exI [of _ "[]"]) (auto simp: eqs creds_refresh_call_def esp_rmaker_aws_sign_creds_refresh_def)
  next
    case 2
    then show ?thesis using r free c
      by (intro exI [of _ "[]"]) (cases s, auto simp: eqs creds_refresh_call_def esp_rmaker_aws_sign_creds_refresh_def given_back simp del: fun_upd_upd)
  next
    case 3
    then show ?thesis using r free c
      by (intro exI [of _ "if err2 = ESP_OK then [Fetched (cx_cred_host_gen c) (cx_cred_host c)] else []"])
        (cases s, auto simp: creds_refresh_call_def fetch_call_def eqs esp_rmaker_aws_sign_creds_refresh_def given_back Let_def
          split: if_splits simp del: fun_upd_upd)
  qed
qed

lemma send_request_alone:
  assumes "idle s" and c: "c = sh_ctx s"
    and r: "esp_rmaker_aws_sign_send_request p cr qalloc calloc halloc req c (sh_world s) = Some (err, resp, creds, h', w')"
  shows "\<exists>ev. run_alone i (send_request_call p cr qalloc calloc halloc c req k) s =
    run_alone i (k (err, resp, creds)) (s\<lparr>sh_ctx := h', sh_world := w', sh_events := sh_events s @ ev\<rparr>)"
proof -
  have ow: "sh_owner s = (\<lambda>_. None)" using assms(1) by (simp add: idle_def)
  obtain e0 query where q: "build_query qalloc (ar_params req) = (e0, query)" by (rule prod.exhaust)
  show ?thesis
  proof (cases "\<not> request_valid req \<or> e0 \<noteq> ESP_OK")
    case True
    then show ?thesis using r q c
      by (intro exI [of _ "[]"]) (auto simp: send_request_call_def esp_rmaker_aws_sign_send_request_def split: if_splits)
  next
    case False
    let ?s1 = "s\<lparr>sh_owner := (sh_owner s)(Request_Mutex := Some i)\<rparr>"
    obtain e1 cr1 w1 where rf: "esp_rmaker_aws_sign_creds_refresh p c (the (ar_role_alias req)) (the (ar_creds req)) (sh_world s) = Some (e1, cr1, w1)"
      using r False q by (auto simp: esp_rmaker_aws_sign_send_request_def split: option.splits)
    let ?k = "\<lambda>(e1, creds). if e1 \<noteq> ESP_OK then Unlock Request_Mutex (k (e1, None, Some creds))
          else case caller_headers halloc req of
            None \<Rightarrow> Unlock Request_Mutex (k (ESP_ERR_NO_MEM, None, Some creds))
          | Some hdrs \<Rightarrow> read_region req (cr_host_gen creds) (\<lambda>region. Outside (\<lambda>w. w) (\<lambda>w.
              case sign_request cr calloc req region hdrs (the (ar_payload req)) creds (pt_get_time p w) query of
                (e2, None) \<Rightarrow> Unlock Request_Mutex (k (e2, None, Some creds))
              | (e2, Some sig) \<Rightarrow> exchange_call p c req hdrs query sig creds
                  (\<lambda>(err, resp). Unlock Request_Mutex (k (err, resp, Some creds)))))"
    from creds_refresh_alone [of ?s1 c p "the (ar_role_alias req)" "the (ar_creds req)" e1 cr1 w1 i ?k] rf c ow obtain ev1 where
      a: "run_alone i (send_request_call p cr qalloc calloc halloc c req k) s =
        run_alone i (?k (e1, cr1)) (?s1\<lparr>sh_world := w1, sh_events := sh_events s @ ev1\<rparr>)"
      using False q by (auto simp: send_request_call_def)
    let ?s2 = "s\<lparr>sh_world := w1, sh_events := sh_events s @ ev1\<rparr>"
    have give: "run_alone i (Unlock Request_Mutex q) (?s1\<lparr>sh_ctx := h, sh_world := w, sh_events := ev\<rparr>) =
        run_alone i q (s\<lparr>sh_ctx := h, sh_world := w, sh_events := ev\<rparr>)" for q h w ev
      using ow by (cases s) (simp add: given_back del: fun_upd_upd)
    have give': "run_alone i (Unlock Request_Mutex q) (?s1\<lparr>sh_world := w, sh_events := ev\<rparr>) =
        run_alone i q (s\<lparr>sh_world := w, sh_events := ev\<rparr>)" for q w ev
      using give [where h = "sh_ctx s"] by simp
    note r' = r [unfolded esp_rmaker_aws_sign_send_request_def]
    show ?thesis
    proof (cases "e1 = ESP_OK \<and> caller_headers halloc req \<noteq> None")
      case False': False
      then show ?thesis using r' False q rf c a give' [where w = w1]
        by (intro exI [of _ ev1]) (auto split: if_splits simp del: run_alone.simps)
    next
      case True
      then obtain hdrs where ok: "e1 = ESP_OK" "caller_headers halloc req = Some hdrs" by auto
      define ev2 where "ev2 = ev1 @ (if ar_region req = None then [Signed_With (cr_host_gen cr1) (cx_region c)] else [])"
      define region where "region = (if ar_region req = None then cx_region c else [])"
      obtain e2 osig where sg: "sign_request cr calloc req region hdrs (the (ar_payload req)) cr1 (pt_get_time p w1) query = (e2, osig)"
        by (rule prod.exhaust)
      then have sg': "sign_request cr calloc req (cx_region c) hdrs (the (ar_payload req)) cr1 (pt_get_time p w1) query = (e2, osig)"
        by (auto simp: region_def sign_request_def split: if_splits option.splits)
      let ?k2 = "case osig of None \<Rightarrow> Unlock Request_Mutex (k (e2, None, Some cr1))
            | Some sig \<Rightarrow> exchange_call p c req hdrs query sig cr1 (\<lambda>(err, resp). Unlock Request_Mutex (k (err, resp, Some cr1)))"
      have a2: "run_alone i (send_request_call p cr qalloc calloc halloc c req k) s =
        run_alone i ?k2 (?s1\<lparr>sh_world := w1, sh_events := sh_events s @ ev2\<rparr>)"
        unfolding a using ok sg c by (auto simp: read_region_def region_def ev2_def split: option.splits)
      show ?thesis
      proof (cases osig)
        case None
        then show ?thesis using a2 r' False q rf c ok sg' give' [where w = w1]
          by (intro exI [of _ ev2]) (auto simp del: run_alone.simps)
      next
        case (Some sig)
        from r' False q rf ok sg' Some have x: "send_exchange p req hdrs query sig cr1 c w1 = Some (err, resp, h', w')" "creds = Some cr1"
          by auto
        have h': "with_conn (conn_fields h') c = h'" using conn_only_exchange [OF x(1)] by (simp add: conn_only_def)
        have "run_alone i ?k2 (?s1\<lparr>sh_world := w1, sh_events := sh_events s @ ev2\<rparr>) =
          run_alone i (Unlock Request_Mutex (k (err, resp, Some cr1))) (?s1\<lparr>sh_ctx := h', sh_world := w', sh_events := sh_events s @ ev2\<rparr>)"
          using c x h' by (cases s) (simp add: Some exchange_call_def)
        then show ?thesis using a2 x(2) give
          by (intro exI [of _ ev2]) (simp del: run_alone.simps)
      qed
    qed
  qed
qed

end
