(* ===== verification/Aws_Tasks.thy ===== *)
theory Aws_Tasks
  imports Aws_Locks
begin

section \<open>AWS signing: tasks that share a handle\<close>

text \<open>
  Tasks running the calls of \<open>Aws_Locks\<close> on one handle, interleaved between any two actions: the locking discipline that the
  comments of \<open>esp_rmaker_aws_sign_internal.h\<close> state, proved of every call, and what follows from it: no data race, no
  deadlock, and credentials and region that always belong together.
\<close>


subsection \<open>Tasks that interleave\<close>

type_synonym ('w, 'h) sys = "('w, 'h) shared \<times> ('w, 'h) prog list"

inductive sys_step :: "('w, 'h) sys \<Rightarrow> ('w, 'h) sys \<Rightarrow> bool" where
  "i < length ts \<Longrightarrow> prog_step i (ts ! i) s = Some (q, s') \<Longrightarrow> sys_step (s, ts) (s', ts[i := q])"

inductive_cases sys_stepE: "sys_step x y"

text \<open>A handle just made, with its generation, and the tasks that are going to use it.\<close>

definition sys_start :: "('w, 'h) aws_port \<Rightarrow> 'x crypto_ops \<Rightarrow> 'h aws_ctx \<Rightarrow> ('w, 'h) sys \<Rightarrow> bool" where
  "sys_start p cr c x \<longleftrightarrow> idle (fst x) \<and>
     sh_events (fst x) = [Host_Set (cx_cred_host_gen (sh_ctx (fst x))) (cx_cred_host (sh_ctx (fst x))) (cx_region (sh_ctx (fst x)))] \<and>
     (\<forall>q \<in> set (snd x). client p cr c q)"

subsection \<open>The discipline\<close>

text \<open>What a task knows of the guarded fields while it holds a mutex that keeps them: their values, and whether they are
  announced together.\<close>

record view =
  v_host :: string
  v_gen :: u32
  v_region :: string
  v_set :: bool

definition lock_rank :: "aws_mutex \<Rightarrow> nat" where
  "lock_rank m = (case m of Request_Mutex \<Rightarrow> 0 | Creds_Mutex \<Rightarrow> 1 | Region_Mutex \<Rightarrow> 2)"

definition keeps_host :: "aws_mutex set \<Rightarrow> bool" where
  "keeps_host H \<longleftrightarrow> Request_Mutex \<in> H \<or> Creds_Mutex \<in> H"

primrec disciplined :: "('w, 'h) prog \<Rightarrow> aws_mutex set \<Rightarrow> view \<Rightarrow> bool" where
  "disciplined Return = (\<lambda>H v. H = {})"
| "disciplined Fault = (\<lambda>H v. False)"
| "disciplined (Lock m k) = (\<lambda>H v. (\<forall>m' \<in> H. lock_rank m' < lock_rank m) \<and>
     (\<forall>v'. (keeps_host H \<longrightarrow> v' = v) \<and> (H = {} \<and> m \<noteq> Region_Mutex \<longrightarrow> v_set v') \<longrightarrow> disciplined k (insert m H) v'))"
| "disciplined (Unlock m k) = (\<lambda>H v. m \<in> H \<and> (m \<noteq> Region_Mutex \<longrightarrow> v_set v) \<and> disciplined k (H - {m}) v)"
| "disciplined (Get_Host k) = (\<lambda>H v. Creds_Mutex \<in> H \<and> disciplined (k (v_host v)) H v)"
| "disciplined (Set_Host host k) = (\<lambda>H v. Creds_Mutex \<in> H \<and> Request_Mutex \<in> H \<and> disciplined k H (v\<lparr>v_host := host, v_set := False\<rparr>))"
| "disciplined (New_Gen k) = (\<lambda>H v. \<forall>g. disciplined (k g) H v)"
| "disciplined (Get_Gen k) = (\<lambda>H v. Creds_Mutex \<in> H \<and> disciplined (k (v_gen v)) H v)"
| "disciplined (Set_Gen g k) = (\<lambda>H v. Creds_Mutex \<in> H \<and> Request_Mutex \<in> H \<and> disciplined k H (v\<lparr>v_gen := g, v_set := False\<rparr>))"
| "disciplined (Get_Region k) = (\<lambda>H v. (Request_Mutex \<in> H \<or> Region_Mutex \<in> H) \<and> disciplined (k (v_region v)) H v)"
| "disciplined (Set_Region r k) = (\<lambda>H v. H = UNIV \<and> disciplined k H (v\<lparr>v_region := r, v_set := False\<rparr>))"
| "disciplined (Get_Conn k) = (\<lambda>H v. Request_Mutex \<in> H \<and> (\<forall>f. disciplined (k f) H v))"
| "disciplined (Set_Conn f k) = (\<lambda>H v. Request_Mutex \<in> H \<and> disciplined k H v)"
| "disciplined (Outside f k) = (\<lambda>H v. Region_Mutex \<notin> H \<and> (\<forall>w. disciplined (k w) H v))"
| "disciplined (Announce e k) = (\<lambda>H v. keeps_host H \<and>
     (case e of
        Host_Set g h r \<Rightarrow> Creds_Mutex \<in> H \<and> Request_Mutex \<in> H \<and> g = v_gen v \<and> h = v_host v \<and> r = v_region v \<and> disciplined k H (v\<lparr>v_set := True\<rparr>)
      | Fetched g h \<Rightarrow> v_set v \<and> g = v_gen v \<and> h = v_host v \<and> disciplined k H v
      | Signed_With g r \<Rightarrow> v_set v \<and> g = v_gen v \<and> r = v_region v \<and> disciplined k H v))"

lemma disciplined_set_cred_host:
  assumes "\<And>r v. disciplined (k r) {} v"
  shows "disciplined (set_cred_host_call malloc_ok host region k) {} v"
proof -
  have u: "{Region_Mutex, Creds_Mutex, Request_Mutex} = UNIV" using aws_mutex.exhaust by auto
  show ?thesis using assms
    by (auto simp: set_cred_host_call_def lock_rank_def keeps_host_def u [symmetric] insert_Diff_if split: option.splits prod.splits)
qed

lemma disciplined_get_region:
  "(\<And>r v. disciplined (k r) {} v) \<Longrightarrow> disciplined (get_region_call buf_len k) {} v"
  by (auto simp: get_region_call_def insert_Diff_if)

definition fetches_return :: "('w, 'h) aws_port \<Rightarrow> bool" where
  "fetches_return p \<longleftrightarrow> (\<forall>h role_alias w. creds_fetch p h role_alias w \<noteq> None) \<and>
    (\<forall>req hdrs query sig creds h w. send_exchange p req hdrs query sig creds h w \<noteq> None)"

lemma date_creds_gen [simp]: "cr_host_gen (date_creds now g hash c) = g"
  by (simp add: date_creds_def Let_def)


lemma disciplined_if:
  "(b \<Longrightarrow> disciplined q H v) \<Longrightarrow> (\<not> b \<Longrightarrow> disciplined r H v) \<Longrightarrow> disciplined (if b then q else r) H v"
  by simp

lemma disciplined_refresh:
  assumes total: "fetches_return p" and H: "H = {} \<or> H = {Request_Mutex} \<and> v_set v"
    and k: "\<And>err creds' v'. (H = {Request_Mutex} \<longrightarrow> v' = v \<and> (err = ESP_OK \<longrightarrow> cr_host_gen creds' = v_gen v)) \<Longrightarrow>
      disciplined (k (err, creds')) H v'"
  shows "disciplined (creds_refresh_call p c role_alias creds k) H v"
proof -
  have nc: "Creds_Mutex \<notin> H" "Region_Mutex \<notin> H" "insert Creds_Mutex H - {Creds_Mutex} = H" using H by auto
  have locked: "disciplined (Unlock Creds_Mutex q) (insert Creds_Mutex H) v'" if "v_set v'" "disciplined q H v'" for q v'
    using that nc by simp
  have fetched: "disciplined (fetch_call p c (v_host v') role_alias (\<lambda>(err, fresh).
          if err = ESP_OK
          then Get_Gen (\<lambda>gen2. Announce (Fetched gen2 (v_host v')) (Unlock Creds_Mutex
            (k (ESP_OK, date_creds now gen2 (alias_hash role_alias) fresh))))
          else Unlock Creds_Mutex (k (err, creds)))) (insert Creds_Mutex H) v'"
    if "v_set v'" "H = {Request_Mutex} \<longrightarrow> v' = v" for v' now
  proof -
    have "creds_fetch p (c\<lparr>cx_cred_host := v_host v'\<rparr>) role_alias w \<noteq> None" for w
      using total by (simp add: fetches_return_def)
    then show ?thesis using that nc
      by (auto simp: fetch_call_def keeps_host_def split: option.splits intro!: k)
  qed
  have in_lock: "disciplined (Outside (\<lambda>w. w) (\<lambda>w. Get_Gen (\<lambda>gen.
        if creds_stale (c\<lparr>cx_cred_host_gen := gen\<rparr>) (pt_get_time p w) creds
        then Get_Host (\<lambda>host. fetch_call p c host role_alias (\<lambda>(err, fresh).
          if err = ESP_OK
          then Get_Gen (\<lambda>gen2. Announce (Fetched gen2 host) (Unlock Creds_Mutex
            (k (ESP_OK, date_creds (pt_get_time p w) gen2 (alias_hash role_alias) fresh))))
          else Unlock Creds_Mutex (k (err, creds))))
        else Unlock Creds_Mutex (k (ESP_OK, creds))))) (insert Creds_Mutex H) v'"
    if "v_set v'" "H = {Request_Mutex} \<longrightarrow> v' = v" for v'
    using that nc fetched [OF that] by (auto simp del: disciplined.simps(4) simp: creds_stale_def intro!: locked k)
  have order: "lock_rank m' < lock_rank Creds_Mutex" if "m' \<in> H" for m' using that H by (auto simp: lock_rank_def)
  have lock: "disciplined (Lock Creds_Mutex q) H v"
    if "\<And>v'. v_set v' \<Longrightarrow> (H = {Request_Mutex} \<longrightarrow> v' = v) \<Longrightarrow> disciplined q (insert Creds_Mutex H) v'" for q
    using that H order by (auto simp: keeps_host_def)
  have outside: "disciplined (Outside f q) H v" if "\<And>w. disciplined (q w) H v" for f q using that nc by simp
  show ?thesis unfolding creds_refresh_call_def
    by (intro disciplined_if outside lock in_lock k) simp_all
qed

lemma disciplined_request:
  assumes total: "fetches_return p" and k: "\<And>r v. disciplined (k r) {} v"
  shows "disciplined (send_request_call p cr qalloc calloc halloc c req k) {} v"
proof -
  have unlock: "disciplined (Unlock Request_Mutex (k r)) {Request_Mutex} v" if "v_set v" for r v
    using that k by simp
  have exchange: "disciplined (exchange_call p c req hdrs query sig creds (\<lambda>(err, resp). Unlock Request_Mutex (k (err, resp, Some creds))))
      {Request_Mutex} v" if "v_set v" for hdrs query sig creds v
  proof -
    have "send_exchange p req hdrs query sig creds (with_conn f c) w \<noteq> None" for f w
      using total by (simp add: fetches_return_def)
    then show ?thesis using that k by (auto simp: exchange_call_def split: option.splits)
  qed
  have region: "disciplined (read_region req (v_gen v) q) {Request_Mutex} v"
    if "v_set v" "\<And>r. disciplined (q r) {Request_Mutex} v" for q v
    using that by (auto simp: read_region_def keeps_host_def)
  have rest: "disciplined (Outside (\<lambda>w. w) (\<lambda>w.
              case sign_request cr calloc req region hdrs (the (ar_payload req)) creds (pt_get_time p w) query of
                (e2, None) \<Rightarrow> Unlock Request_Mutex (k (e2, None, Some creds))
              | (e2, Some sig) \<Rightarrow> exchange_call p c req hdrs query sig creds
                  (\<lambda>(err, resp). Unlock Request_Mutex (k (err, resp, Some creds))))) {Request_Mutex} v"
    if "v_set v" for query hdrs creds region v
    using that by (auto simp del: disciplined.simps(4) split: prod.splits option.splits intro!: unlock exchange)
  have after: "disciplined (if e1 \<noteq> ESP_OK then Unlock Request_Mutex (k (e1, None, Some creds))
          else case caller_headers halloc req of
            None \<Rightarrow> Unlock Request_Mutex (k (ESP_ERR_NO_MEM, None, Some creds))
          | Some hdrs \<Rightarrow> read_region req (cr_host_gen creds) (\<lambda>region. Outside (\<lambda>w. w) (\<lambda>w.
              case sign_request cr calloc req region hdrs (the (ar_payload req)) creds (pt_get_time p w) query of
                (e2, None) \<Rightarrow> Unlock Request_Mutex (k (e2, None, Some creds))
              | (e2, Some sig) \<Rightarrow> exchange_call p c req hdrs query sig creds
                  (\<lambda>(err, resp). Unlock Request_Mutex (k (err, resp, Some creds)))))) {Request_Mutex} v"
    if "v_set v" "e1 = ESP_OK \<longrightarrow> cr_host_gen creds = v_gen v" for v e1 creds query
    using that by (auto simp del: disciplined.simps split: option.splits intro!: unlock region rest)
  obtain e0 query where q: "build_query qalloc (ar_params req) = (e0, query)" by (rule prod.exhaust)
  have "disciplined (creds_refresh_call p c (the (ar_role_alias req)) (the (ar_creds req)) (\<lambda>(e1, creds).
          if e1 \<noteq> ESP_OK then Unlock Request_Mutex (k (e1, None, Some creds))
          else case caller_headers halloc req of
            None \<Rightarrow> Unlock Request_Mutex (k (ESP_ERR_NO_MEM, None, Some creds))
          | Some hdrs \<Rightarrow> read_region req (cr_host_gen creds) (\<lambda>region. Outside (\<lambda>w. w) (\<lambda>w.
              case sign_request cr calloc req region hdrs (the (ar_payload req)) creds (pt_get_time p w) query of
                (e2, None) \<Rightarrow> Unlock Request_Mutex (k (e2, None, Some creds))
              | (e2, Some sig) \<Rightarrow> exchange_call p c req hdrs query sig creds
                  (\<lambda>(err, resp). Unlock Request_Mutex (k (err, resp, Some creds))))))) {Request_Mutex} v'" if "v_set v'" for v'
    by (rule disciplined_refresh [OF total]) (use that after in auto)
  then show ?thesis using k by (auto simp: send_request_call_def q keeps_host_def)
qed


lemma client_disciplined:
  assumes "fetches_return p" and "client p cr c q"
  shows "disciplined q {} v"
  using assms(2)
  by (induction arbitrary: v rule: client.induct)
    (simp, (blast intro: disciplined_set_cred_host disciplined_get_region disciplined_request [OF assms(1)]
      disciplined_refresh [OF assms(1)])+)

subsection \<open>What holds in every state\<close>

definition held :: "('w, 'h) shared \<Rightarrow> nat \<Rightarrow> aws_mutex set" where
  "held s i = {m. sh_owner s m = Some i}"

text \<open>The host set last, with its generation and region, and whether an event fits it.\<close>

definition set_last :: "aws_event list \<Rightarrow> (u32 \<times> string \<times> string) option" where
  "set_last es = foldl (\<lambda>c e. case e of Host_Set g h r \<Rightarrow> Some (g, h, r) | _ \<Rightarrow> c) None es"

definition event_fits :: "(u32 \<times> string \<times> string) option \<Rightarrow> aws_event \<Rightarrow> bool" where
  "event_fits c e =
     (case e of
        Host_Set g h r \<Rightarrow> True
      | Fetched g h \<Rightarrow> \<exists>r. c = Some (g, h, r)
      | Signed_With g r \<Rightarrow> \<exists>h. c = Some (g, h, r))"

definition events_sound :: "aws_event list \<Rightarrow> bool" where
  "events_sound es \<longleftrightarrow> (\<forall>before e after. es = before @ e # after \<longrightarrow> event_fits (set_last before) e)"

lemma set_last_snoc: "set_last (es @ [e]) = (case e of Host_Set g h r \<Rightarrow> Some (g, h, r) | _ \<Rightarrow> set_last es)"
  by (cases e) (simp_all add: set_last_def)

lemma events_sound_snoc: "events_sound es \<Longrightarrow> event_fits (set_last es) e \<Longrightarrow> events_sound (es @ [e])"
  unfolding events_sound_def
proof (intro allI impI)
  fix before e' after
  assume es: "\<forall>before e after. es = before @ e # after \<longrightarrow> event_fits (set_last before) e" and e: "event_fits (set_last es) e"
    and eq: "es @ [e] = before @ e' # after"
  show "event_fits (set_last before) e'"
  proof (cases after rule: rev_cases)
    case Nil
    then show ?thesis using eq e by simp
  next
    case (snoc rest x)
    with eq have "es = before @ e' # rest" by simp
    then show ?thesis using es by blast
  qed
qed

definition announced :: "('w, 'h) shared \<Rightarrow> bool" where
  "announced s \<longleftrightarrow> set_last (sh_events s) = Some (cx_cred_host_gen (sh_ctx s), cx_cred_host (sh_ctx s), cx_region (sh_ctx s))"

definition knows :: "('w, 'h) shared \<Rightarrow> nat \<Rightarrow> view \<Rightarrow> bool" where
  "knows s i v \<longleftrightarrow>
     (keeps_host (held s i) \<longrightarrow> v_host v = cx_cred_host (sh_ctx s) \<and> v_gen v = cx_cred_host_gen (sh_ctx s) \<and> (v_set v \<longrightarrow> announced s)) \<and>
     (held s i \<noteq> {} \<longrightarrow> v_region v = cx_region (sh_ctx s))"

definition settled :: "('w, 'h) shared \<Rightarrow> bool" where
  "settled s \<longleftrightarrow> events_sound (sh_events s) \<and>
     (sh_owner s Request_Mutex = None \<or> sh_owner s Creds_Mutex = None \<longrightarrow> announced s)"

definition task_ok :: "('w, 'h) shared \<Rightarrow> nat \<Rightarrow> ('w, 'h) prog \<Rightarrow> bool" where
  "task_ok s i q \<longleftrightarrow> (\<exists>v. disciplined q (held s i) v \<and> knows s i v)"

definition sys_inv :: "('w, 'h) sys \<Rightarrow> bool" where
  "sys_inv x \<longleftrightarrow> settled (fst x) \<and> (\<forall>m i. sh_owner (fst x) m = Some i \<longrightarrow> i < length (snd x)) \<and>
     (\<forall>i < length (snd x). task_ok (fst x) i (snd x ! i))"

text \<open>What a step of task \<open>i\<close> leaves alone.\<close>

definition leaves :: "nat \<Rightarrow> ('w, 'h) shared \<Rightarrow> ('w, 'h) shared \<Rightarrow> bool" where
  "leaves i s s' \<longleftrightarrow> (\<forall>j. j \<noteq> i \<longrightarrow> held s' j = held s j) \<and>
     (\<not> (Request_Mutex \<in> held s i \<and> Creds_Mutex \<in> held s i) \<longrightarrow>
        cx_cred_host (sh_ctx s') = cx_cred_host (sh_ctx s) \<and> cx_cred_host_gen (sh_ctx s') = cx_cred_host_gen (sh_ctx s) \<and>
        (announced s \<longrightarrow> announced s')) \<and>
     (held s i \<noteq> UNIV \<longrightarrow> cx_region (sh_ctx s') = cx_region (sh_ctx s))"

lemma held_upd [simp]:
  "held (s\<lparr>sh_ctx := h\<rparr>) i = held s i" "held (s\<lparr>sh_last_gen := l\<rparr>) i = held s i"
  "held (s\<lparr>sh_world := w\<rparr>) i = held s i" "held (s\<lparr>sh_events := es\<rparr>) i = held s i"
  by (simp_all add: held_def)

lemma held_lock: "held (s\<lparr>sh_owner := (sh_owner s)(m := Some i)\<rparr>) i = insert m (held s i)"
  by (auto simp: held_def)

lemma held_unlock: "held (s\<lparr>sh_owner := (sh_owner s)(m := None)\<rparr>) i = held s i - {m}"
  by (auto simp: held_def)

lemma announced_upd [simp]:
  "announced (s\<lparr>sh_owner := f\<rparr>) = announced s" "announced (s\<lparr>sh_last_gen := l\<rparr>) = announced s" "announced (s\<lparr>sh_world := w\<rparr>) = announced s"
  by (simp_all add: announced_def)

lemma lock_ok:
  assumes "prog_step i (Lock m k) s = Some (q', s')" and "settled s" "disciplined (Lock m k) (held s i) v" "knows s i v"
  shows "task_ok s' i q' \<and> settled s' \<and> leaves i s s'"
proof -
  let ?s = "s\<lparr>sh_owner := (sh_owner s)(m := Some i)\<rparr>"
  have free: "sh_owner s m = None" and q: "q' = k" "s' = ?s" using assms(1) by (auto split: if_splits)
  define v' where "v' = (if keeps_host (held s i) then v else
    \<lparr>v_host = cx_cred_host (sh_ctx s), v_gen = cx_cred_host_gen (sh_ctx s), v_region = cx_region (sh_ctx s), v_set = (m \<noteq> Region_Mutex \<and> held s i = {})\<rparr>)"
  have "held s i = {}" if "\<not> keeps_host (held s i)" "m \<noteq> Region_Mutex"
  proof -
    have "Region_Mutex \<notin> held s i" using assms(3) that by (cases m) (auto simp: lock_rank_def)
    then have "x \<notin> held s i" for x using that(1) by (cases x) (auto simp: keeps_host_def)
    then show ?thesis by blast
  qed
  moreover have "disciplined k (insert m (held s i)) v'" using assms(3) by (auto simp: v'_def keeps_host_def)
  moreover have "knows ?s i v'" using assms(2,4) free calculation(1)
    by (cases m) (auto simp: knows_def v'_def held_lock settled_def keeps_host_def)
  moreover have "settled ?s" using assms(2) by (auto simp: settled_def split: if_splits)
  moreover have "leaves i s ?s" using free by (auto simp: leaves_def held_def)
  ultimately show ?thesis unfolding q task_ok_def held_lock by blast
qed

lemma unlock_ok:
  assumes "prog_step i (Unlock m k) s = Some (q', s')" and "settled s" "disciplined (Unlock m k) (held s i) v" "knows s i v"
  shows "task_ok s' i q' \<and> settled s' \<and> leaves i s s'"
proof -
  let ?s = "s\<lparr>sh_owner := (sh_owner s)(m := None)\<rparr>"
  have q: "q' = k" "s' = ?s" using assms(1) by auto
  have "disciplined k (held s i - {m}) v" "m \<in> held s i" using assms(3) by auto
  moreover have "knows ?s i v" using assms(4) by (auto simp: knows_def held_unlock keeps_host_def)
  moreover have "settled ?s" using assms(2,3,4) by (cases m) (auto simp: settled_def knows_def keeps_host_def)
  moreover have "leaves i s ?s" using \<open>m \<in> held s i\<close> by (auto simp: leaves_def held_def)
  ultimately show ?thesis unfolding q task_ok_def held_unlock by blast
qed

lemma set_ok:
  assumes "Request_Mutex \<in> held s i" "Creds_Mutex \<in> held s i" and "settled s" "knows s i v"
    and "h = (sh_ctx s)\<lparr>cx_cred_host := a\<rparr> \<and> v' = v\<lparr>v_host := a, v_set := False\<rparr> \<or>
         h = (sh_ctx s)\<lparr>cx_cred_host_gen := g\<rparr> \<and> v' = v\<lparr>v_gen := g, v_set := False\<rparr> \<or>
         h = (sh_ctx s)\<lparr>cx_region := r\<rparr> \<and> v' = v\<lparr>v_region := r, v_set := False\<rparr> \<and> held s i = UNIV"
  shows "knows (s\<lparr>sh_ctx := h\<rparr>) i v' \<and> settled (s\<lparr>sh_ctx := h\<rparr>) \<and> leaves i s (s\<lparr>sh_ctx := h\<rparr>)"
  using assms by (auto simp: knows_def settled_def leaves_def keeps_host_def held_def)

lemma other_ok:
  assumes "settled s" "knows s i v" and "cx_cred_host (sh_ctx s') = cx_cred_host (sh_ctx s)"
    "cx_cred_host_gen (sh_ctx s') = cx_cred_host_gen (sh_ctx s)" "cx_region (sh_ctx s') = cx_region (sh_ctx s)"
    "sh_owner s' = sh_owner s" "sh_events s' = sh_events s"
  shows "knows s' i v \<and> settled s' \<and> leaves i s s'"
  using assms by (simp add: knows_def settled_def leaves_def announced_def held_def)

lemma announce_ok:
  assumes "settled s" "disciplined (Announce e k) (held s i) v" "knows s i v"
  shows "task_ok (s\<lparr>sh_events := sh_events s @ [e]\<rparr>) i k \<and> settled (s\<lparr>sh_events := sh_events s @ [e]\<rparr>) \<and>
    leaves i s (s\<lparr>sh_events := sh_events s @ [e]\<rparr>)"
proof -
  let ?s = "s\<lparr>sh_events := sh_events s @ [e]\<rparr>"
  have h: "held s i \<noteq> {}" "keeps_host (held s i)" using assms(2) by (auto simp: keeps_host_def)
  with assms have "event_fits (set_last (sh_events s)) e"
    by (cases e) (auto simp: event_fits_def knows_def announced_def)
  then have "events_sound (sh_events ?s)" using assms(1) by (simp add: settled_def events_sound_snoc)
  moreover have "announced s \<longrightarrow> announced ?s"
    using assms(2,3) h by (cases e) (auto simp: announced_def set_last_snoc knows_def)
  moreover have "task_ok ?s i k" using assms h by (cases e) (auto simp: task_ok_def knows_def announced_def set_last_snoc)
  ultimately show ?thesis using assms(1) by (auto simp: settled_def leaves_def)
qed

lemma prog_step_ok:
  assumes "prog_step i q s = Some (q', s')" and "settled s" "disciplined q (held s i) v" "knows s i v"
  shows "task_ok s' i q' \<and> settled s' \<and> leaves i s s'"
proof (cases q)
  case (Lock m k)
  with assms lock_ok show ?thesis by blast
next
  case (Unlock m k)
  with assms unlock_ok show ?thesis by blast
next
  case (Announce e k)
  with assms announce_ok [of s e k i v] show ?thesis by auto
next
  case (Set_Host a k)
  with assms set_ok [of s i v "(sh_ctx s)\<lparr>cx_cred_host := a\<rparr>" a] show ?thesis by (auto simp: task_ok_def)
next
  case (Set_Gen g k)
  with assms set_ok [of s i v "(sh_ctx s)\<lparr>cx_cred_host_gen := g\<rparr>" _ _ g] show ?thesis by (auto simp: task_ok_def)
next
  case (Set_Region r k)
  with assms set_ok [of s i v "(sh_ctx s)\<lparr>cx_region := r\<rparr>" _ _ _ r] show ?thesis by (auto simp: task_ok_def)
next
  case (Get_Region k)
  with assms other_ok [of s i v s] show ?thesis by (auto simp: task_ok_def knows_def)
next
  case (New_Gen k)
  with assms other_ok [of s i v s'] show ?thesis by (auto simp: task_ok_def split: prod.splits intro!: exI [of _ v])
next
  case (Set_Conn f k)
  with assms other_ok [of s i v s'] show ?thesis by (auto simp: task_ok_def)
next
  case (Outside f k)
  with assms other_ok [of s i v s'] show ?thesis by (auto simp: task_ok_def intro!: exI [of _ v])
next
  case (Get_Conn k)
  with assms have "disciplined q' (held s i) v" "s' = s" by (auto simp del: split_paired_All)
  with assms other_ok [of s i v s] show ?thesis by (auto simp: task_ok_def)
next
  case (Get_Host k)
  with assms other_ok [of s i v s] show ?thesis by (auto simp: task_ok_def knows_def keeps_host_def)
next
  case (Get_Gen k)
  with assms other_ok [of s i v s] show ?thesis by (auto simp: task_ok_def knows_def keeps_host_def)
qed (use assms in auto)


lemma leaves_task_ok:
  assumes l: "leaves i s s'" and j: "j \<noteq> i" and ok: "task_ok s j q"
  shows "task_ok s' j q"
proof -
  from ok obtain v where v: "disciplined q (held s j) v" "knows s j v" by (auto simp: task_ok_def)
  have other: "m \<notin> held s i" if "m \<in> held s j" for m using that j by (auto simp: held_def)
  have hj: "held s' j = held s j" using l j by (simp add: leaves_def)
  have host: "cx_cred_host (sh_ctx s') = cx_cred_host (sh_ctx s) \<and> cx_cred_host_gen (sh_ctx s') = cx_cred_host_gen (sh_ctx s) \<and>
    (announced s \<longrightarrow> announced s')" if "keeps_host (held s j)"
  proof -
    have "\<not> (Request_Mutex \<in> held s i \<and> Creds_Mutex \<in> held s i)" using that other by (auto simp: keeps_host_def)
    then show ?thesis using l by (simp add: leaves_def)
  qed
  have region: "cx_region (sh_ctx s') = cx_region (sh_ctx s)" if "held s j \<noteq> {}"
  proof -
    have "held s i \<noteq> UNIV" using that other by auto
    then show ?thesis using l by (simp add: leaves_def)
  qed
  have "held s j \<noteq> {}" if "keeps_host (held s j)" using that by (auto simp: keeps_host_def)
  then have "knows s' j v" using v(2) by (auto simp: knows_def hj host region)
  with v(1) show ?thesis by (auto simp: task_ok_def hj)
qed

lemma sys_step_inv:
  assumes "sys_inv x" and "sys_step x y"
  shows "sys_inv y"
proof -
  from assms(2) obtain i ts s q s' where x: "x = (s, ts)" "y = (s', ts[i := q])" "i < length ts" and
    st: "prog_step i (ts ! i) s = Some (q, s')" by (auto elim: sys_stepE)
  from assms(1) x obtain v where v: "disciplined (ts ! i) (held s i) v" "knows s i v" and ok: "settled s"
    and own: "\<And>m j. sh_owner s m = Some j \<Longrightarrow> j < length ts" and tasks: "\<And>j. j < length ts \<Longrightarrow> task_ok s j (ts ! j)"
    by (auto simp: sys_inv_def task_ok_def)
  from prog_step_ok [OF st ok v] have r: "task_ok s' i q" "settled s'" "leaves i s s'" by auto
  have "j < length ts" if "sh_owner s' m = Some j" for m j
  proof (cases "j = i")
    case False
    then have "m \<in> held s j" using that r(3) unfolding leaves_def held_def by blast
    then show ?thesis using own by (auto simp: held_def)
  qed (use x in simp)
  moreover have "task_ok s' j (ts[i := q] ! j)" if "j < length ts" for j
    using that r(1) leaves_task_ok [OF r(3) _ tasks [OF that]] by (cases "j = i") auto
  ultimately show ?thesis using r(2) by (simp add: sys_inv_def x)
qed

lemma sys_start_inv:
  assumes "fetches_return p" and "sys_start p cr c x"
  shows "sys_inv x"
proof -
  have "held (fst x) i = {}" for i using assms(2) by (simp add: sys_start_def idle_def held_def)
  then have "task_ok (fst x) i (snd x ! i)" if "i < length (snd x)" for i
    using client_disciplined [OF assms(1), of cr c "snd x ! i"] assms(2) that nth_mem [OF that]
    by (fastforce simp: task_ok_def knows_def keeps_host_def sys_start_def)
  moreover have "settled (fst x)" using assms(2) by (auto simp: sys_start_def settled_def events_sound_def event_fits_def announced_def set_last_def Cons_eq_append_conv)
  ultimately show ?thesis using assms(2) by (simp add: sys_inv_def sys_start_def idle_def)
qed

text \<open>No deadlock: of the tasks that wait, the one that waits for the highest mutex waits for a task that can go on.\<close>

definition returned :: "('w, 'h) prog \<Rightarrow> bool" where
  "returned q \<longleftrightarrow> (case q of Return \<Rightarrow> True | _ \<Rightarrow> False)"

lemma task_ok_stuck:
  assumes "task_ok s i q" and "prog_step i q s = None"
  shows "q = Return \<and> held s i = {} \<or> (\<exists>m k. q = Lock m k \<and> sh_owner s m \<noteq> None \<and> (\<forall>m' \<in> held s i. lock_rank m' < lock_rank m))"
  using assms by (cases q) (auto simp: task_ok_def split: if_splits prod.splits)

lemma waits_upwards:
  assumes inv: "sys_inv (s, ts)" and stuck: "\<And>i. i < length ts \<Longrightarrow> prog_step i (ts ! i) s = None"
    and "sh_owner s m \<noteq> None"
  shows "\<exists>m'. sh_owner s m' \<noteq> None \<and> lock_rank m < lock_rank m'"
proof -
  from assms(3) obtain i where i: "sh_owner s m = Some i" by blast
  then have l: "i < length ts" using inv by (simp add: sys_inv_def)
  then have "task_ok s i (ts ! i)" using inv by (simp add: sys_inv_def)
  from task_ok_stuck [OF this stuck [OF l]] i show ?thesis by (auto simp: held_def)
qed

lemma sys_progress:
  assumes inv: "sys_inv (s, ts)" and stuck: "\<And>i. i < length ts \<Longrightarrow> prog_step i (ts ! i) s = None"
  shows "idle s \<and> (\<forall>q \<in> set ts. q = Return)"
proof -
  note up = waits_upwards [OF inv stuck]
  have le: "lock_rank m \<le> 2" for m by (cases m) (simp_all add: lock_rank_def)
  have free: "sh_owner s m = None" for m
  proof (induction "2 - lock_rank m" arbitrary: m rule: less_induct)
    case less
    show ?case
    proof (rule ccontr)
      assume "sh_owner s m \<noteq> None"
      then obtain m' where m': "sh_owner s m' \<noteq> None" "lock_rank m < lock_rank m'" using up by blast
      then have "2 - lock_rank m' < 2 - lock_rank m" using le [of m'] by simp
      with less m'(1) show False by metis
    qed
  qed
  then have "ts ! i = Return" if "i < length ts" for i
    using task_ok_stuck [OF _ stuck [OF that]] that inv by (auto simp: sys_inv_def)
  with free show ?thesis by (auto simp: idle_def in_set_conv_nth)
qed


subsection \<open>Every run ends\<close>

definition prog_succ :: "(('w, 'h) prog \<times> ('w, 'h) prog) set" where
  "prog_succ = {(q', q). \<exists>i s s'. prog_step i q s = Some (q', s')}"

primrec kids :: "('w, 'h) prog \<Rightarrow> ('w, 'h) prog set" where
  "kids Return = {}" | "kids Fault = {}" | "kids (Lock m k) = {k}" | "kids (Unlock m k) = {k}" | "kids (Get_Host k) = range k"
| "kids (Set_Host h k) = {k}" | "kids (New_Gen k) = range k" | "kids (Get_Gen k) = range k" | "kids (Set_Gen g k) = {k}"
| "kids (Get_Region k) = range k" | "kids (Set_Region r k) = {k}" | "kids (Get_Conn k) = range k" | "kids (Set_Conn f k) = {k}"
| "kids (Outside f k) = range k" | "kids (Announce e k) = {k}"

lemma prog_succ_kids: "(q', q) \<in> prog_succ \<Longrightarrow> q' \<in> kids q"
  by (cases q) (auto simp: prog_succ_def split_beta split: if_splits)

lemma kids_acc: "(\<And>q'. q' \<in> kids q \<Longrightarrow> q' \<in> Wellfounded.acc prog_succ) \<Longrightarrow> q \<in> Wellfounded.acc prog_succ"
  by (auto intro: accI dest: prog_succ_kids)

lemma wf_prog_succ: "wf (prog_succ :: (('w, 'h) prog \<times> _) set)"
proof -
  have "q \<in> Wellfounded.acc prog_succ" for q :: "('w, 'h) prog"
    by (induction q) (rule kids_acc; force)+
  then show ?thesis by (simp add: wf_iff_acc)
qed

lemma wf_sys_step: "wf {(y, x). sys_step x (y :: ('w, 'h) sys)}"
proof (rule wf_subset)
  show "wf (inv_image (listrel1 prog_succ) (snd :: ('w, 'h) sys \<Rightarrow> _))" by (simp add: wf_prog_succ)
  have "(ts[i := q], ts) \<in> listrel1 prog_succ" if "i < length ts" "prog_step i (ts ! i) s = Some (q, s')"
    for i s s' q and ts :: "('w, 'h) prog list"
    unfolding listrel1_iff_update using that by (intro exI [of _ "ts ! i"] exI [of _ i]) (auto simp: prog_succ_def)
  then show "{(y, x). sys_step x (y :: ('w, 'h) sys)} \<subseteq> inv_image (listrel1 prog_succ) snd"
    by (auto elim!: sys_stepE)
qed

lemma attempt_once_total:
  assumes ok: "replies_ok p" and acc: "holds (ex_acc s) []" "ac_status (ex_acc s) = ESP_OK"
  shows "\<exists>err may_retry s1. attempt_once p host t url m hdrs sig token payload s = Some (err, may_retry, s1) \<and>
    (may_retry \<longrightarrow> holds (ex_acc s1) [])"
proof -
  obtain e h1 oc r w1 where g: "conn_get p host t url m (ex_ctx s) (ex_world s) = (e, h1, oc, r, w1)" by (metis prod.exhaust)
  show ?thesis
  proof (cases oc)
    case None
    then show ?thesis using g by (intro exI [of _ e] exI [of _ False]) (simp add: attempt_once_def)
  next
    case (Some c)
    obtain e2 w2 where sh: "set_request_headers p c hdrs sig token w1 = (e2, w2)" by (rule prod.exhaust)
    from perform_total [OF ok acc] obtain e3 acc' w3 where
      pf: "h_perform (pt_http p) (pt_malloc p) c payload (ex_acc s) w2 = Some (e3, acc', w3)" and
      no: "ac_got_response acc' \<or> acc' = ex_acc s" by blast
    show ?thesis using g sh pf no acc Some
      by (cases "e2 = ESP_OK") (auto simp: attempt_once_def Let_def split: prod.splits)
  qed
qed

lemma request_loop_total:
  assumes ok: "replies_ok p" and acc: "holds (ex_acc s) []" "ac_status (ex_acc s) = ESP_OK"
  shows "request_loop p host t url m hdrs sig token payload n s \<noteq> None"
  using acc
proof (induction "1 - n" arbitrary: n s rule: less_induct)
  case less
  from attempt_once_total [OF ok less(2,3), of host t url m hdrs sig token payload] obtain e r s1 where
    a: "attempt_once p host t url m hdrs sig token payload s = Some (e, r, s1)" "r \<longrightarrow> holds (ex_acc s1) []" by blast
  show ?case
  proof (cases "n = 0 \<and> r")
    case True
    then obtain acc where r: "accum_reset (ex_acc s1) = Some acc" "holds acc []" "ac_status acc = ESP_OK"
      using a(2) holds_reset by blast
    then have "request_loop p host t url m hdrs sig token payload (n + 1) (s1\<lparr>ex_acc := acc\<rparr>) \<noteq> None"
      using True by (intro less(1)) simp_all
    then show ?thesis using True a(1) r(1) by (subst request_loop.simps) simp
  next
    case False
    then show ?thesis using a(1) by (subst request_loop.simps) auto
  qed
qed

lemma replies_fetches_return:
  assumes "replies_ok p"
  shows "fetches_return p"
proof -
  have "holds (accum_init REQUEST_RESPONSE_MAX) []" "ac_status (accum_init REQUEST_RESPONSE_MAX) = ESP_OK"
    using holds_init [of REQUEST_RESPONSE_MAX] by (simp_all add: REQUEST_RESPONSE_MAX_def accum_init_def)
  then have "request_loop p host t url m hdrs sig token payload 0
      \<lparr>ex_ctx = h, ex_conn = None, ex_acc = accum_init REQUEST_RESPONSE_MAX, ex_world = w\<rparr> \<noteq> None" for host t url m hdrs sig token payload h w
    by (intro request_loop_total [OF assms]) simp_all
  then have "send_exchange p req hdrs query sig creds h w \<noteq> None" for req hdrs query sig creds h w
    by (simp add: send_exchange_def Let_def split: option.splits prod.splits) (metis option.distinct(1))
  moreover have "creds_fetch p h role_alias w \<noteq> None" for h role_alias w
    using creds_fetch_total [OF assms, of h role_alias w] by auto
  ultimately show ?thesis by (simp add: fetches_return_def)
qed


lemma fetches_start: "replies_ok p \<Longrightarrow> sys_start p cr c x \<Longrightarrow> sys_inv x"
  by (rule sys_start_inv [OF replies_fetches_return])

interpretation tasks: inductive_invariant "\<lambda>x. replies_ok p \<and> sys_start p cr c x" sys_step sys_inv for p cr c
  by unfold_locales (blast intro: fetches_start sys_step_inv)+

lemma tasks_inv: "replies_ok p \<Longrightarrow> reach (sys_start p cr c) sys_step x \<Longrightarrow> sys_inv x"
  using tasks.reachable [of p cr c x] by simp

lemma tasks_step: "sys_inv (s, ts) \<Longrightarrow> \<not> (\<exists>y. sys_step (s, ts) y) \<Longrightarrow> idle s \<and> (\<forall>q \<in> set ts. q = Return)"
  by (rule sys_progress) (auto intro!: sys_step.intros simp: option.case_eq_if not_Some_eq [symmetric] simp del: not_Some_eq)


subsection \<open>Properties\<close>


text \<open>Which guarded field an action reads or writes.\<close>

datatype guarded = Host_Field | Gen_Field | Region_Field | Conn_Fields

fun access :: "('w, 'h) prog \<Rightarrow> (guarded \<times> bool) option" where
  "access (Get_Host k) = Some (Host_Field, False)"
| "access (Set_Host h k) = Some (Host_Field, True)"
| "access (Get_Gen k) = Some (Gen_Field, False)"
| "access (Set_Gen g k) = Some (Gen_Field, True)"
| "access (Get_Region k) = Some (Region_Field, False)"
| "access (Set_Region r k) = Some (Region_Field, True)"
| "access (Get_Conn k) = Some (Conn_Fields, False)"
| "access (Set_Conn f k) = Some (Conn_Fields, True)"
| "access q = None"

text \<open>C21.
  The guards that the handle's comments promise hold under every interleaving: no two tasks are ever about to access the same
  field when one of them writes it. Only its holder gives a mutex back, and nobody does work outside, such as a network
  exchange, while holding the region mutex.\<close>

theorem handle_race_free:
  assumes "replies_ok p" and "reach (sys_start p cr c) sys_step x" and "i < length (snd x)"
  shows "(\<forall>j f w w'. j < length (snd x) \<and> j \<noteq> i \<and> access (snd x ! i) = Some (f, w) \<and> access (snd x ! j) = Some (f, w') \<longrightarrow> \<not> w \<and> \<not> w') \<and>
    (\<forall>m k. snd x ! i = Unlock m k \<longrightarrow> sh_owner (fst x) m = Some i) \<and>
    (\<forall>f k. snd x ! i = Outside f k \<longrightarrow> sh_owner (fst x) Region_Mutex \<noteq> Some i)"
proof -
  note inv = tasks_inv [OF assms(1,2)]
  have guard: "(f = Host_Field \<or> f = Gen_Field \<longrightarrow> Creds_Mutex \<in> held (fst x) j) \<and> (f = Conn_Fields \<longrightarrow> Request_Mutex \<in> held (fst x) j) \<and>
      (f = Region_Field \<longrightarrow> (if w then held (fst x) j = UNIV else Request_Mutex \<in> held (fst x) j \<or> Region_Mutex \<in> held (fst x) j))"
    if "j < length (snd x)" "access (snd x ! j) = Some (f, w)" for j f w
  proof -
    from inv that(1) obtain v where "disciplined (snd x ! j) (held (fst x) j) v" by (auto simp: sys_inv_def task_ok_def)
    with that(2) show ?thesis by (cases "snd x ! j") auto
  qed
  have one: "\<not> (m \<in> held (fst x) i \<and> m \<in> held (fst x) j)" if "j \<noteq> i" for m j using that by (auto simp: held_def)
  have "\<not> w \<and> \<not> w'" if "j < length (snd x)" "j \<noteq> i" "access (snd x ! i) = Some (f, w)" "access (snd x ! j) = Some (f, w')" for j f w w'
    using guard [OF assms(3) that(3)] guard [OF that(1,4)] one [OF that(2)] by (cases f; cases w; cases w'; simp; blast)
  moreover from inv assms(3) obtain v where "disciplined (snd x ! i) (held (fst x) i) v" by (auto simp: sys_inv_def task_ok_def)
  ultimately show ?thesis by (auto simp: held_def)
qed



subsection \<open>A run\<close>

text \<open>The tasks in a given order of steps.\<close>

fun run_schedule :: "nat list \<Rightarrow> ('w, 'h) sys \<Rightarrow> ('w, 'h) sys option" where
  "run_schedule [] x = Some x"
| "run_schedule (i # is) (s, ts) =
     (if i < length ts
      then (case prog_step i (ts ! i) s of None \<Rightarrow> None | Some (q, s') \<Rightarrow> run_schedule is (s', ts[i := q])) else None)"

lemma run_schedule_reach: "run_schedule is x = Some y \<Longrightarrow> reach start sys_step x \<Longrightarrow> reach start sys_step y"
proof (induction "is" x rule: run_schedule.induct)
  case (2 i "is" s ts)
  then obtain q s' where st: "i < length ts" "prog_step i (ts ! i) s = Some (q, s')" "run_schedule is (s', ts[i := q]) = Some y"
    by (auto split: if_splits option.splits)
  then have "reach start sys_step (s', ts[i := q])" using 2(3) by (blast intro: reach.step sys_step.intros)
  with 2(1) [OF st(1,2) refl st(3)] show ?case .
qed simp

definition sample_creds :: aws_creds where
  "sample_creds = \<lparr>cr_keys = Some (''AK'', ''SK'', ''TOKEN''), cr_expiration = 1780000900, cr_refresh = 1780000600, cr_host_gen = 7,
     cr_alias_hash = alias_hash ''role''\<rparr>"

definition sample_request :: aws_request where
  "sample_request = \<lparr>ar_method = Some ''GET'', ar_host = Some ''h'', ar_path = Some ''/'', ar_params = [], ar_service = Some ''s3'',
     ar_region = None, ar_role_alias = Some ''role'', ar_creds = Some sample_creds, ar_extra_headers = Some [], ar_payload = Some [],
     ar_timeout_ms = 0\<rparr>"

definition sample_shared :: "(int, nat) shared" where
  "sample_shared = \<lparr>sh_ctx = sample_ctx, sh_last_gen = 7, sh_owner = (\<lambda>_. None), sh_world = 1780000000,
     sh_events = [Host_Set 7 (cx_cred_host sample_ctx) ''us-east-1'']\<rparr>"

text \<open>One task sends a request while another changes the host.\<close>

definition sample_tasks :: "(int, nat) prog list" where
  "sample_tasks =
     [send_request_call sample_aws_port (esp_crypto_ops sample_psa) (\<lambda>_. True) (\<lambda>_. True) True sample_ctx sample_request (\<lambda>_. Return),
      set_cred_host_call (\<lambda>_. True) (Some ''b'') (Some ''eu'') (\<lambda>_. Return)]"

lemma sample_sys_start: "sys_start sample_aws_port (esp_crypto_ops sample_psa) sample_ctx (sample_shared, sample_tasks)"
  by (auto simp: sys_start_def sample_shared_def sample_tasks_def idle_def sample_ctx_def intro!: client.intros)

text \<open>The task that sends has signed; the other waits for the request mutex.\<close>

lemma sample_signed:
  "\<exists>q. run_schedule [0, 0, 0, 0, 0, 0, 0, 0] (sample_shared, sample_tasks) =
    Some (sample_shared\<lparr>sh_owner := (\<lambda>_. None)(Request_Mutex := Some 0),
        sh_events := [Host_Set 7 (cx_cred_host sample_ctx) ''us-east-1'', Signed_With 7 ''us-east-1'']\<rparr>, [q, sample_tasks ! 1])"
proof -
  have v: "request_valid sample_request" "build_query (\<lambda>_. True) (ar_params sample_request) = (ESP_OK, None)"
    "caller_headers True sample_request = Some []"
    by (simp_all add: request_valid_def sample_request_def absolute_path_def method_to_enum_def build_query_def caller_headers_def needs_content_type_def)
  have r: "cr_alias_hash sample_creds = alias_hash ''role''" "clock_is_trustworthy sample_aws_port 1780000000"
    "\<not> creds_stale (sample_ctx\<lparr>cx_cred_host_gen := 7\<rparr>) (pt_get_time sample_aws_port 1780000000) sample_creds"
    "cr_host_gen sample_creds = 7" "ar_region sample_request = None" "the (ar_role_alias sample_request) = ''role''"
    "the (ar_creds sample_request) = sample_creds" "cx_cred_host_gen sample_ctx = 7" "cx_region sample_ctx = ''us-east-1''"
    by (simp_all add: sample_creds_def clock_is_trustworthy_def sample_aws_port_def MIN_VALID_EPOCH_def creds_stale_def sample_ctx_def sample_request_def)
  show ?thesis
    by (simp add: sample_tasks_def send_request_call_def v creds_refresh_call_def r read_region_def sample_shared_def given_back)
qed


lemma sample_setting:
  "\<exists>q k. run_schedule [1, 1] (sample_shared, sample_tasks) =
    Some (sample_shared\<lparr>sh_owner := (\<lambda>_. None)(Request_Mutex := Some 1, Creds_Mutex := Some 1)\<rparr>, [sample_tasks ! 0, Set_Host q k])"
  by (simp add: sample_tasks_def set_cred_host_call_def region_resolve_def ESP_RMAKER_AWS_SIGN_REGION_LEN_def sample_shared_def)

lemma schedule_reach:
  "run_schedule is (sample_shared, sample_tasks) = Some y \<Longrightarrow> reach (sys_start sample_aws_port (esp_crypto_ops sample_psa) sample_ctx) sys_step y"
  using run_schedule_reach sample_sys_start by (blast intro: reach.start)


theorem handle_race_free_witness:
  "\<exists>q k. run_schedule [1, 1] (sample_shared, sample_tasks) =
      Some (sample_shared\<lparr>sh_owner := (\<lambda>_. None)(Request_Mutex := Some 1, Creds_Mutex := Some 1)\<rparr>, [sample_tasks ! 0, Set_Host q k]) \<and>
    access (sample_tasks ! 0) \<noteq> Some (Host_Field, False)"
proof -
  from sample_setting obtain q k where r: "run_schedule [1, 1] (sample_shared, sample_tasks) =
      Some (sample_shared\<lparr>sh_owner := (\<lambda>_. None)(Request_Mutex := Some 1, Creds_Mutex := Some 1)\<rparr>, [sample_tasks ! 0, Set_Host q k])"
    by blast
  from handle_race_free [OF sample_replies schedule_reach [OF r], of 1] show ?thesis using r by fastforce
qed


end
