(* ===== verification/Aws_Wire.thy ===== *)
theory Aws_Wire
  imports Aws_Request
begin

section \<open>AWS signing: what goes on the wire\<close>

text \<open>
  The headers of a request in \<open>esp_rmaker_aws_sign_send_request.c\<close>: the pooled connection keeps the headers set on it, so a request must
  neither send a header of an earlier one nor leave one behind. The HTTP client is known by the table of headers that each connection holds.
\<close>

subsection \<open>The headers of a connection\<close>

type_synonym header_table = "string \<rightharpoonup> string"

definition header_key :: "string option \<Rightarrow> string" where
  "header_key n = map lower_char (case n of Some t \<Rightarrow> t | None \<Rightarrow> [])"

fun put_headers :: "raw_header list \<Rightarrow> header_table \<Rightarrow> header_table" where
  "put_headers [] t = t"
| "put_headers ((n, v) # hs) t = put_headers hs (t(header_key n := v))"

text \<open>The documented behaviour of the client: names do not depend on case; setting a header replaces it, setting it to NULL removes it, a
  failure touches no other; no other operation changes them, and a new connection has none. \<open>tbl\<close> reads the table from the world.\<close>

definition keeps_headers :: "('w, 'h) aws_port \<Rightarrow> ('w \<Rightarrow> 'h \<Rightarrow> header_table) \<Rightarrow> bool" where
  "keeps_headers p tbl \<longleftrightarrow>
     (\<forall>cfg w c w'. h_open (pt_http p) cfg w = (ESP_OK, c, w') \<longrightarrow> tbl w' c = Map.empty) \<and>
     (\<forall>c n v w w'. h_set_header (pt_http p) c n v w = (ESP_OK, w') \<longrightarrow> tbl w' c = (tbl w c)(map lower_char n := v)) \<and>
     (\<forall>c n v w e w' k. h_set_header (pt_http p) c n v w = (e, w') \<and> k \<noteq> map lower_char n \<longrightarrow> tbl w' c k = tbl w c k) \<and>
     (\<forall>c n w e w'. h_set_header (pt_http p) c n None w = (e, w') \<longrightarrow> tbl w' c (map lower_char n) = None) \<and>
     (\<forall>c u w e w'. h_set_url (pt_http p) c u w = (e, w') \<longrightarrow> tbl w' c = tbl w c) \<and>
     (\<forall>c m w e w'. h_set_method (pt_http p) c m w = (e, w') \<longrightarrow> tbl w' c = tbl w c) \<and>
     (\<forall>m c b acc w e a w'. h_perform (pt_http p) m c b acc w = Some (e, a, w') \<longrightarrow> tbl w' c = tbl w c)"

definition signing_names :: "string set" where
  "signing_names = {''authorization'', ''x-amz-date'', ''x-amz-content-sha256'', ''x-amz-security-token''}"

text \<open>A handle whose pooled connection has no header but the signer's own.\<close>

definition pooled_clean :: "('w \<Rightarrow> 'h \<Rightarrow> header_table) \<Rightarrow> 'h aws_ctx \<Rightarrow> 'w \<Rightarrow> bool" where
  "pooled_clean tbl h w \<longleftrightarrow> (\<forall>c. cx_conn h = Some c \<longrightarrow> dom (tbl w c) \<subseteq> signing_names)"

text \<open>What was on the connection, each time something was sent.\<close>

abbreviation on_wire :: "'w \<times> ('h, header_table) call list \<Rightarrow> header_table list" where
  "on_wire w \<equiv> map (\<lambda>(c, body, t, e, acc). t) (sent w)"

subsection \<open>Setting and clearing\<close>

lemma keeps_headersD:
  assumes "keeps_headers p tbl"
  shows "h_open (pt_http p) cfg w = (ESP_OK, c, w') \<Longrightarrow> tbl w' c = Map.empty"
    "h_set_header (pt_http p) c n v w = (ESP_OK, w') \<Longrightarrow> tbl w' c = (tbl w c)(map lower_char n := v)"
    "h_set_header (pt_http p) c n v w = (e, w') \<Longrightarrow> k \<noteq> map lower_char n \<Longrightarrow> tbl w' c k = tbl w c k"
    "h_set_header (pt_http p) c n None w = (e, w') \<Longrightarrow> tbl w' c (map lower_char n) = None"
    "h_set_url (pt_http p) c u w = (e, w') \<Longrightarrow> tbl w' c = tbl w c"
    "h_set_method (pt_http p) c mt w = (e, w') \<Longrightarrow> tbl w' c = tbl w c"
    "h_perform (pt_http p) m c b acc w = Some (e, a, w') \<Longrightarrow> tbl w' c = tbl w c"
proof -
  note k = assms [unfolded keeps_headers_def]
  show "h_open (pt_http p) cfg w = (ESP_OK, c, w') \<Longrightarrow> tbl w' c = Map.empty"
    and "h_set_header (pt_http p) c n v w = (ESP_OK, w') \<Longrightarrow> tbl w' c = (tbl w c)(map lower_char n := v)"
    and "h_set_header (pt_http p) c n v w = (e, w') \<Longrightarrow> k \<noteq> map lower_char n \<Longrightarrow> tbl w' c k = tbl w c k"
    and "h_set_header (pt_http p) c n None w = (e, w') \<Longrightarrow> tbl w' c (map lower_char n) = None"
    and "h_set_url (pt_http p) c u w = (e, w') \<Longrightarrow> tbl w' c = tbl w c"
    and "h_set_method (pt_http p) c mt w = (e, w') \<Longrightarrow> tbl w' c = tbl w c"
    and "h_perform (pt_http p) m c b acc w = Some (e, a, w') \<Longrightarrow> tbl w' c = tbl w c"
    using k by (simp, simp, meson, meson, meson, meson, meson)
qed

lemma recording_keeps:
  "keeps_headers p tbl \<Longrightarrow> keeps_headers (recording obs p) (\<lambda>w. tbl (fst w))"
  unfolding keeps_headers_def recording_def
  by (intro conjI allI impI; clarsimp split: prod.splits; blast)

lemma put_headers_outside: "k \<notin> header_key ` fst ` set hs \<Longrightarrow> put_headers hs t k = t k"
  by (induction hs t rule: put_headers.induct) auto

lemma put_headers_cong: "(\<And>k. k \<notin> header_key ` fst ` set hs \<Longrightarrow> t k = t' k) \<Longrightarrow> put_headers hs t = put_headers hs t'"
proof (induction hs t arbitrary: t' rule: put_headers.induct)
  case (1 t)
  then show ?case by auto
next
  case (2 n v hs t)
  have "put_headers hs (t(header_key n := v)) = put_headers hs (t'(header_key n := v))" by (rule 2(1)) (use 2(2) in auto)
  then show ?case by simp
qed

lemma set_headers_put:
  assumes k: "keeps_headers p tbl"
  shows "set_headers p c hs w = (e, w') \<Longrightarrow>
    (e = ESP_OK \<longrightarrow> tbl w' c = put_headers hs (tbl w c)) \<and> (\<forall>k. k \<notin> header_key ` fst ` set hs \<longrightarrow> tbl w' c k = tbl w c k)"
proof (induction hs arbitrary: w)
  case (Cons nv hs)
  obtain n v where nv: "nv = (n, v)" by (rule prod.exhaust)
  obtain e1 w1 where s: "h_set_header (pt_http p) c (case n of Some t \<Rightarrow> t | None \<Rightarrow> []) v w = (e1, w1)" by (rule prod.exhaust)
  have one: "e1 = ESP_OK \<longrightarrow> tbl w1 c = (tbl w c)(header_key n := v)" "\<And>k. k \<noteq> header_key n \<Longrightarrow> tbl w1 c k = tbl w c k"
    using keeps_headersD(2) [OF k] keeps_headersD(3) [OF k s] s by (simp_all add: header_key_def)
  show ?case
  proof (cases "e1 = ESP_OK")
    case True
    with Cons.prems have "set_headers p c hs w1 = (e, w')" by (simp add: nv s)
    from Cons.IH [OF this] have "(e = ESP_OK \<longrightarrow> tbl w' c = put_headers hs (tbl w1 c)) \<and>
      (\<forall>k. k \<notin> header_key ` fst ` set hs \<longrightarrow> tbl w' c k = tbl w1 c k)" .
    moreover from one(1) True have "tbl w1 c = (tbl w c)(header_key n := v)" by blast
    ultimately show ?thesis using one(2) by (simp add: nv)
  next
    case False
    with Cons.prems have "e = e1" "w' = w1" by (simp_all add: nv s)
    with one False show ?thesis by (auto simp: nv)
  qed
qed simp

lemma clear_headers_gone:
  assumes k: "keeps_headers p tbl"
  shows "dom (tbl (clear_caller_headers p c hs w) c) \<subseteq> dom (tbl w c) - header_key ` fst ` set hs"
proof (induction hs arbitrary: w)
  case (Cons nv hs)
  obtain n v where nv: "nv = (n, v)" by (rule prod.exhaust)
  obtain e1 w1 where s: "h_set_header (pt_http p) c (case n of Some t \<Rightarrow> t | None \<Rightarrow> []) None w = (e1, w1)" by (rule prod.exhaust)
  have "tbl w1 c (header_key n) = None" "\<And>k. k \<noteq> header_key n \<Longrightarrow> tbl w1 c k = tbl w c k"
    using keeps_headersD(3,4) [OF k s] by (simp_all add: header_key_def)
  then have "dom (tbl w1 c) \<subseteq> dom (tbl w c) - {header_key n}" by (auto simp: dom_def) (metis option.distinct(1))
  with Cons.IH [of w1] show ?case by (simp add: nv s) blast
qed simp

text \<open>A request's headers on a clean connection: exactly its own, whatever was there.\<close>

lemma signing_keys [simp]:
  "header_key (Some ''Authorization'') = ''authorization''" "header_key (Some ''x-amz-date'') = ''x-amz-date''"
  "header_key (Some ''x-amz-content-sha256'') = ''x-amz-content-sha256''"
  "header_key (Some ''x-amz-security-token'') = ''x-amz-security-token''"
  by code_simp+

lemma request_headers_keys:
  "header_key ` fst ` set (request_headers sig (Some t) hdrs) = signing_names \<union> header_key ` fst ` set hdrs"
  by (auto simp: signing_names_def request_headers_def)

lemma set_request_headers_put:
  assumes k: "keeps_headers p tbl" and d: "dom (tbl w c) \<subseteq> signing_names"
    and s: "set_request_headers p c hdrs sig (Some t) w = (e, w')"
  shows "(e = ESP_OK \<longrightarrow> tbl w' c = put_headers (request_headers sig (Some t) hdrs) Map.empty) \<and>
    dom (tbl w' c) \<subseteq> signing_names \<union> header_key ` fst ` set hdrs"
proof -
  from set_headers_put [OF k s [unfolded set_request_headers_def]]
  have r: "e = ESP_OK \<longrightarrow> tbl w' c = put_headers (request_headers sig (Some t) hdrs) (tbl w c)"
    "\<And>k. k \<notin> signing_names \<union> header_key ` fst ` set hdrs \<Longrightarrow> tbl w' c k = tbl w c k"
    unfolding request_headers_keys by blast+
  have "put_headers (request_headers sig (Some t) hdrs) (tbl w c) = put_headers (request_headers sig (Some t) hdrs) Map.empty"
    by (rule put_headers_cong) (use d in \<open>unfold request_headers_keys, blast\<close>)
  moreover have "dom (tbl w' c) \<subseteq> signing_names \<union> header_key ` fst ` set hdrs"
  proof
    fix k assume k: "k \<in> dom (tbl w' c)"
    show "k \<in> signing_names \<union> header_key ` fst ` set hdrs"
    proof (rule ccontr)
      assume "k \<notin> signing_names \<union> header_key ` fst ` set hdrs"
      with r(2) [OF this] k d show False by (metis UnI1 domIff subsetD)
    qed
  qed
  ultimately show ?thesis using r(1) by simp
qed

subsection \<open>The connection of a request\<close>

lemma conn_open_wire:
  assumes "keeps_headers p tbl" and "conn_open p host url m t h w = (e, h', c, r, w')"
  shows "(c = None \<longrightarrow> cx_conn h' = None) \<and> (\<forall>d. c = Some d \<longrightarrow> cx_conn h' = Some d \<and> dom (tbl w' d) \<subseteq> signing_names)"
proof -
  obtain e1 c1 w1 where o: "h_open (pt_http p) (open_config h url m t) w = (e1, c1, w1)" by (rule prod_cases3)
  then have "e1 = ESP_OK \<longrightarrow> tbl w1 c1 = Map.empty" using keeps_headersD(1) [OF assms(1)] by metis
  with assms(2) o show ?thesis by (auto simp: conn_open_def split: if_splits)
qed

lemma conn_close_wire: "conn_close p h w = (h', w') \<Longrightarrow> cx_conn h' = None"
  by (auto simp: conn_close_def)

lemma conn_get_wire:
  assumes k: "keeps_headers p tbl" and cl: "pooled_clean tbl h w" and g: "conn_get p host t url m h w = (e, h', c, r, w')"
  shows "(c = None \<longrightarrow> cx_conn h' = None) \<and> (\<forall>d. c = Some d \<longrightarrow> cx_conn h' = Some d \<and> dom (tbl w' d) \<subseteq> signing_names)"
proof -
  define tm where "tm = (if t \<noteq> 0 then t else REQUEST_HTTP_TIMEOUT_MS)"
  obtain h1 w1 where s1: "(if cx_conn h \<noteq> None \<and> (cx_conn_host h \<noteq> host \<or> cx_conn_timeout_ms h \<noteq> tm)
      then conn_close p h w else (h, w)) = (h1, w1)" by (rule prod.exhaust)
  obtain h2 w2 where s2: "(if cx_conn h1 \<noteq> None \<and> conn_idle_expired p h1 w1 then conn_close p h1 w1 else (h1, w1)) = (h2, w2)"
    by (rule prod.exhaust)
  have "pooled_clean tbl h1 w1" using s1 cl conn_close_wire [of p h w h1 w1] by (auto simp: pooled_clean_def split: if_splits)
  then have cl2: "pooled_clean tbl h2 w2" using s2 conn_close_wire [of p h1 w1 h2 w2] by (auto simp: pooled_clean_def split: if_splits)
  note eq = g [unfolded conn_get_def Let_def tm_def [symmetric] s1 s2 prod.case]
  show ?thesis
  proof (cases "cx_conn h2")
    case None
    with eq have "conn_open p host url m tm h2 w2 = (e, h', c, r, w')" by simp
    then show ?thesis by (rule conn_open_wire [OF k])
  next
    case (Some d)
    obtain e1 wa where u: "h_set_url (pt_http p) d url w2 = (e1, wa)" by (rule prod.exhaust)
    obtain e2 wb where mt: "h_set_method (pt_http p) d m wa = (e2, wb)" by (rule prod.exhaust)
    have same: "tbl wb d = tbl w2 d" using keeps_headersD(5) [OF k u] keeps_headersD(6) [OF k mt] by simp
    obtain e3 w3 where r: "conn_retarget p d url m w2 = (e3, w3)" by (rule prod.exhaust)
    obtain h4 w4 where c4: "conn_close p h2 w3 = (h4, w4)" by (rule prod.exhaust)
    show ?thesis
    proof (cases "e3 = ESP_OK")
      case True
      then have "w3 = wb" using r u mt by (auto simp: conn_retarget_def split: if_splits)
      then have "dom (tbl w3 d) \<subseteq> signing_names" using cl2 Some same by (auto simp: pooled_clean_def)
      with eq Some r True show ?thesis by auto
    next
      case False
      with eq Some r c4 have "conn_open p host url m tm h4 w4 = (e, h', c, r, w')" by auto
      then show ?thesis by (rule conn_open_wire [OF k])
    qed
  qed
qed


subsection \<open>The exchange\<close>

text \<open>How an attempt leaves the connection: dropped, or pooled with at most the signer's and the caller's headers.\<close>

definition settled :: "('w \<Rightarrow> 'h \<Rightarrow> header_table) \<Rightarrow> raw_header list \<Rightarrow> ('w, 'h) exchange \<Rightarrow> bool" where
  "settled tbl hdrs s \<longleftrightarrow> (case ex_conn s of None \<Rightarrow> cx_conn (ex_ctx s) = None
     | Some c \<Rightarrow> cx_conn (ex_ctx s) = Some c \<and> dom (tbl (ex_world s) c) \<subseteq> signing_names \<union> header_key ` fst ` set hdrs)"

lemma attempt_wire:
  assumes k: "keeps_headers p tbl" and cl: "pooled_clean (\<lambda>w. tbl (fst w)) (ex_ctx s) (ex_world s)" and n: "ex_conn s = None"
    and a: "attempt_once (recording tbl p) host t url m hdrs sig (Some tok) payload s = Some (err, retry, s1)"
  shows "(\<exists>new. on_wire (ex_world s1) = on_wire (ex_world s) @ new \<and> set new \<subseteq> {put_headers (request_headers sig (Some tok) hdrs) Map.empty}) \<and>
    settled (\<lambda>w. tbl (fst w)) hdrs s1 \<and> (retry \<longrightarrow> ex_conn s1 = None)"
proof -
  let ?q = "recording tbl p" and ?t = "\<lambda>w. tbl (fst w)" and ?H = "put_headers (request_headers sig (Some tok) hdrs) Map.empty"
  note kq = recording_keeps [OF k, of tbl]
  obtain e h1 oc r w1 where g: "conn_get ?q host t url m (ex_ctx s) (ex_world s) = (e, h1, oc, r, w1)" by (metis prod.exhaust)
  from conn_get_sent [OF g] have s1: "sent w1 = sent (ex_world s)" by simp
  note g1 = conn_get_wire [OF kq cl g]
  show ?thesis
  proof (cases oc)
    case None
    with a g g1 s1 n show ?thesis by (auto simp: attempt_once_def settled_def)
  next
    case (Some c)
    obtain e2 w2 where sh: "set_request_headers ?q c hdrs sig (Some tok) w1 = (e2, w2)" by (rule prod.exhaust)
    have s2: "sent w2 = sent (ex_world s)" using set_headers_sent sh s1 by (metis set_request_headers_def)
    from g1 Some have h1: "cx_conn h1 = Some c" "dom (?t w1 c) \<subseteq> signing_names" by auto
    note t2 = set_request_headers_put [OF kq h1(2) sh]
    show ?thesis
    proof (cases "e2 = ESP_OK")
      case False
      with a g sh Some have "s1 = s\<lparr>ex_ctx := h1, ex_conn := Some c, ex_world := w2\<rparr>" "\<not> retry" by (simp_all add: attempt_once_def)
      with s2 t2 h1 show ?thesis by (simp add: settled_def)
    next
      case True
      then have t2': "?t w2 c = ?H" using t2 by simp
      show ?thesis
      proof (cases "h_perform (pt_http p) (pt_malloc p) c payload (ex_acc s) (fst w2)")
        case None
        with a g sh Some True show ?thesis by (simp add: attempt_once_def recording_perform)
      next
        case (Some res)
        obtain e3 acc w where res: "res = (e3, acc, w)" by (rule prod_cases3)
        let ?w3 = "(w, snd w2 @ [Call_Perform c payload (tbl (fst w2) c) e3 acc])"
        have pf: "h_perform (pt_http ?q) (pt_malloc p) c payload (ex_acc s) w2 = Some (e3, acc, ?w3)"
          by (simp add: recording_perform Some res)
        have w3: "on_wire ?w3 = on_wire (ex_world s) @ [?H]" using s2 t2' by simp
        have t3: "?t ?w3 c = ?H" using keeps_headersD(7) [OF k Some [unfolded res]] t2' by simp
        define e4 where "e4 = (if ac_status acc \<noteq> ESP_OK then ac_status acc else e3)"
        show ?thesis
        proof (cases "e4 = ESP_OK")
          case True
          with a g sh \<open>oc = Some c\<close> \<open>e2 = ESP_OK\<close> pf
          have "s1 = s\<lparr>ex_ctx := h1\<lparr>cx_conn_last_use := pt_get_time ?q ?w3\<rparr>, ex_conn := Some c, ex_acc := acc, ex_world := ?w3\<rparr>" "\<not> retry"
            by (simp_all add: attempt_once_def e4_def [symmetric])
          with w3 t2 t3 t2' h1 show ?thesis by (simp add: settled_def)
        next
          case False
          obtain h2 w4 where cc: "conn_close ?q h1 ?w3 = (h2, w4)" by (rule prod.exhaust)
          with a g sh \<open>oc = Some c\<close> \<open>e2 = ESP_OK\<close> pf False
          have "s1 = s\<lparr>ex_ctx := h2, ex_conn := None, ex_acc := acc, ex_world := w4\<rparr>"
            by (simp add: attempt_once_def Let_def e4_def [symmetric])
          with conn_close_sent [OF cc] w3 show ?thesis by (simp add: settled_def)
        qed
      qed
    qed
  qed
qed

lemma request_loop_wire:
  assumes ok: "replies_ok p" and k: "keeps_headers p tbl"
    and cl: "pooled_clean (\<lambda>w. tbl (fst w)) (ex_ctx s) (ex_world s)" and n: "ex_conn s = None"
    and acc: "holds (ex_acc s) []" "ac_status (ex_acc s) = ESP_OK"
  shows "\<exists>err s' new. request_loop (recording tbl p) host t url m hdrs sig (Some tok) payload a s = Some (err, s') \<and>
    on_wire (ex_world s') = on_wire (ex_world s) @ new \<and> set new \<subseteq> {put_headers (request_headers sig (Some tok) hdrs) Map.empty} \<and>
    (err = ESP_OK \<longrightarrow> new \<noteq> []) \<and> settled (\<lambda>w. tbl (fst w)) hdrs s'"
proof -
  let ?q = "recording tbl p" and ?t = "\<lambda>w. tbl (fst w)" and ?H = "put_headers (request_headers sig (Some tok) hdrs) Map.empty"
  let ?ends = "\<lambda>a s. \<exists>err s' new. request_loop ?q host t url m hdrs sig (Some tok) payload a s = Some (err, s') \<and>
    on_wire (ex_world s') = on_wire (ex_world s) @ new \<and> set new \<subseteq> {?H} \<and> (err = ESP_OK \<longrightarrow> new \<noteq> []) \<and> settled ?t hdrs s'"
  have step: "?ends a s" if s: "pooled_clean ?t (ex_ctx s) (ex_world s)" "ex_conn s = None" "holds (ex_acc s) []" "ac_status (ex_acc s) = ESP_OK"
    and next_round: "\<And>s1. a = 0 \<Longrightarrow> pooled_clean ?t (ex_ctx s1) (ex_world s1) \<Longrightarrow> ex_conn s1 = None \<Longrightarrow> holds (ex_acc s1) [] \<Longrightarrow>
      ac_status (ex_acc s1) = ESP_OK \<Longrightarrow> ?ends 1 s1" for a s
  proof -
    from attempt_cases [OF ok s(3,4), of tbl host t url m hdrs sig "Some tok" payload] obtain err retry s1 where
      a1: "attempt_once ?q host t url m hdrs sig (Some tok) payload s = Some (err, retry, s1)" and
      len: "err = ESP_OK \<longrightarrow> length (on_wire (ex_world s1)) > length (on_wire (ex_world s))" and
      again: "retry \<longrightarrow> holds (ex_acc s1) []" by fastforce
    from attempt_wire [OF k s(1,2) a1] obtain new where w: "on_wire (ex_world s1) = on_wire (ex_world s) @ new" "set new \<subseteq> {?H}"
      "settled ?t hdrs s1" "retry \<longrightarrow> ex_conn s1 = None" by blast
    show ?thesis
    proof (cases "a = 0 \<and> retry")
      case False
      then have "request_loop ?q host t url m hdrs sig (Some tok) payload a s = Some (err, s1)" by (subst request_loop.simps) (auto simp: a1)
      moreover have "err = ESP_OK \<longrightarrow> new \<noteq> []" using len unfolding w(1) by auto
      ultimately show ?thesis using w by blast
    next
      case True
      with again obtain acc where r: "accum_reset (ex_acc s1) = Some acc" "holds acc []" "ac_status acc = ESP_OK" by (metis holds_reset)
      let ?s2 = "s1\<lparr>ex_acc := acc\<rparr>"
      have "pooled_clean ?t (ex_ctx ?s2) (ex_world ?s2)" "ex_conn ?s2 = None" using w(3,4) True by (auto simp: settled_def pooled_clean_def)
      then have "?ends 1 ?s2" using next_round [of ?s2] True r(2,3) by simp
      then obtain err2 s3 new2 where n2: "request_loop ?q host t url m hdrs sig (Some tok) payload 1 ?s2 = Some (err2, s3)"
        "on_wire (ex_world s3) = on_wire (ex_world ?s2) @ new2" "set new2 \<subseteq> {?H}" "err2 = ESP_OK \<longrightarrow> new2 \<noteq> []" "settled ?t hdrs s3" by blast
      have "request_loop ?q host t url m hdrs sig (Some tok) payload a s = Some (err2, s3)"
        by (subst request_loop.simps) (simp add: a1 True r(1) n2(1) [unfolded One_nat_def])
      moreover have "on_wire (ex_world s3) = on_wire (ex_world s) @ new @ new2" using n2(2) w(1) by simp
      moreover have "set (new @ new2) \<subseteq> {?H}" "err2 = ESP_OK \<longrightarrow> new @ new2 \<noteq> []" using n2(3,4) w(2) by auto
      ultimately show ?thesis using n2(5) by blast
    qed
  qed
  have second: "?ends 1 s" if "pooled_clean ?t (ex_ctx s) (ex_world s)" "ex_conn s = None" "holds (ex_acc s) []" "ac_status (ex_acc s) = ESP_OK" for s
    by (rule step [OF that]) (erule zero_neq_one [symmetric, THEN notE])
  show ?thesis by (rule step [OF cl n acc]) (rule second)
qed

lemma clear_headers_sent: "sent (clear_caller_headers (recording obs p) c hs w) = sent w"
proof (induction hs arbitrary: w)
  case (Cons nv hs)
  obtain n v where nv: "nv = (n, v)" by (rule prod.exhaust)
  show ?case using recording_ops(4) [of obs p c "case n of Some t \<Rightarrow> t | None \<Rightarrow> []" None w] by (simp add: nv Cons.IH)
qed simp

text \<open>C20.
  What goes out with a signed request is exactly its own headers. On a handle whose pooled connection carries at most the
  signer's four headers (a new handle, or one left by an earlier exchange), every sending, the retry included, has on the
  connection the request's headers and nothing else: no header of an earlier request reaches the server unsigned. Afterwards the pooled connection again
  carries at most the signer's four, whatever failed on the way, and the exchange returns.\<close>

theorem request_headers_exact:
  assumes "replies_ok p" and "keeps_headers p tbl" and "pooled_clean tbl h w" and "cr_keys creds = Some (ak, sk, tok)"
  shows "\<exists>err resp h' w' log' new. send_exchange (recording tbl p) req hdrs query sig creds h (w, log) = Some (err, resp, h', (w', log')) \<and>
    map (\<lambda>(c, body, headers, e, acc). headers) (performs log') =
      map (\<lambda>(c, body, headers, e, acc). headers) (performs log) @ new \<and>
    set new \<subseteq> {put_headers (request_headers sig (Some tok) hdrs) Map.empty} \<and> (err = ESP_OK \<longrightarrow> new \<noteq> []) \<and> pooled_clean tbl h' w'"
proof (cases "build_url (pt_malloc p) (the (ar_host req)) (the (ar_path req)) query")
  case None
  with assms(3) show ?thesis by (simp add: send_exchange_def)
next
  case (Some url)
  let ?q = "recording tbl p" and ?t = "\<lambda>w. tbl (fst w)"
  let ?s = "\<lparr>ex_ctx = h, ex_conn = None, ex_acc = accum_init REQUEST_RESPONSE_MAX, ex_world = (w, log)\<rparr>"
  have i: "holds (ex_acc ?s) []" "ac_status (ex_acc ?s) = ESP_OK" "ex_conn ?s = None" "pooled_clean ?t (ex_ctx ?s) (ex_world ?s)"
    using holds_init [of REQUEST_RESPONSE_MAX] assms(3) by (simp_all add: REQUEST_RESPONSE_MAX_def accum_init_def pooled_clean_def)
  let ?loop = "request_loop ?q (the (ar_host req)) (ar_timeout_ms req) url (the (method_to_enum (the (ar_method req)))) hdrs sig (Some tok)
      (the (ar_payload req)) 0 ?s"
  from request_loop_wire [OF assms(1,2) i(4,3,1,2), of "the (ar_host req)" "ar_timeout_ms req" url
      "the (method_to_enum (the (ar_method req)))" hdrs sig tok "the (ar_payload req)" 0] obtain err s' new where l: "?loop = Some (err, s')" and
    n: "on_wire (ex_world s') = on_wire (w, log) @ new" "set new \<subseteq> {put_headers (request_headers sig (Some tok) hdrs) Map.empty}"
      "err = ESP_OK \<longrightarrow> new \<noteq> []" and st: "settled ?t hdrs s'"
    unfolding exchange.select_convs by blast
  define w2 where "w2 = (case ex_conn s' of None \<Rightarrow> ex_world s'
    | Some c \<Rightarrow> if cx_conn (ex_ctx s') = Some c then clear_caller_headers ?q c hdrs (ex_world s') else ex_world s')"
  have "\<exists>resp. send_exchange ?q req hdrs query sig creds h (w, log) = Some (err, resp, ex_ctx s', w2)"
    by (simp add: send_exchange_def Some assms(4) l w2_def Let_def)
  moreover have "on_wire w2 = on_wire (ex_world s')" by (simp add: w2_def clear_headers_sent split: option.split)
  moreover have "pooled_clean tbl (ex_ctx s') (fst w2)"
  proof (cases "ex_conn s'")
    case None
    with st show ?thesis by (simp add: settled_def pooled_clean_def)
  next
    case (Some c)
    with st have c: "cx_conn (ex_ctx s') = Some c" "dom (?t (ex_world s') c) \<subseteq> signing_names \<union> header_key ` fst ` set hdrs"
      by (simp_all add: settled_def)
    have "dom (?t w2 c) \<subseteq> dom (?t (ex_world s') c) - header_key ` fst ` set hdrs"
      using clear_headers_gone [OF recording_keeps [OF assms(2), of tbl], of c hdrs "ex_world s'"] Some c(1) by (simp add: w2_def)
    with c show ?thesis by (simp add: pooled_clean_def) blast
  qed
  ultimately show ?thesis using n by (metis prod.collapse snd_conv)
qed

text \<open>A client with one connection, whose world is its table, and a server that answers.\<close>

definition sample_table_port :: "(header_table, nat) aws_port" where
  "sample_table_port = \<lparr>pt_http = \<lparr>h_open = (\<lambda>cfg w. (ESP_OK, 0, Map.empty)), h_set_url = (\<lambda>c u w. (ESP_OK, w)), h_set_method = (\<lambda>c m w. (ESP_OK, w)),
     h_set_header = (\<lambda>c n v w. (ESP_OK, w(map lower_char n := v))),
     h_perform = answering (\<lambda>c b w. (\<lparr>rp_hint = Some 2, rp_chunks = [''{}''], rp_err = ESP_OK, rp_refused = ESP_ERR_INVALID_SIZE\<rparr>, w)),
     h_status_code = (\<lambda>c w. 200), h_close = (\<lambda>c w. w)\<rparr>,
     pt_get_time = (\<lambda>w. 1780000000), pt_is_synced = None, pt_json = (\<lambda>j obj fs. None), pt_malloc = (\<lambda>_. True)\<rparr>"

lemma sample_table_port_laws: "replies_ok sample_table_port" "keeps_headers sample_table_port (\<lambda>w c. w)"
proof -
  show "replies_ok sample_table_port" by (rule answering_ok) (simp_all add: sample_table_port_def, simp add: reply_ok_def)
  show "keeps_headers sample_table_port (\<lambda>w c. w)"
    by (auto simp: keeps_headers_def sample_table_port_def answering_def)
qed

definition sample_request :: aws_request where
  "sample_request = \<lparr>ar_method = Some ''GET'', ar_host = Some ''h'', ar_path = Some ''/'', ar_params = [], ar_service = Some ''s3'',
     ar_region = None, ar_role_alias = Some ''role'', ar_creds = None, ar_extra_headers = Some [], ar_payload = Some [], ar_timeout_ms = 0\<rparr>"

text \<open>Two exchanges on a new handle, the first with a header of the caller: the second does not send it.\<close>

theorem request_headers_exact_witness:
  "\<exists>e1 r1 h1 w1 l1 e2 r2 h2 w2 l2 new.
    send_exchange (recording (\<lambda>w c. w) sample_table_port) sample_request [(Some ''X-Mine'', Some ''1'')] None
        \<lparr>so_authorization = ''a'', so_amz_date = ''d'', so_content_sha256 = ''c''\<rparr> (no_creds\<lparr>cr_keys := Some (''AK'', ''SK'', ''T'')\<rparr>)
        sample_ctx (Map.empty, []) = Some (e1, r1, h1, (w1, l1)) \<and>
    send_exchange (recording (\<lambda>w c. w) sample_table_port) sample_request [] None
        \<lparr>so_authorization = ''a'', so_amz_date = ''d'', so_content_sha256 = ''c''\<rparr> (no_creds\<lparr>cr_keys := Some (''AK'', ''SK'', ''T'')\<rparr>)
        h1 (w1, l1) = Some (e2, r2, h2, (w2, l2)) \<and>
    map (\<lambda>(c, body, headers, e, acc). headers) (performs l2) = map (\<lambda>(c, body, headers, e, acc). headers) (performs l1) @ new \<and>
    (\<forall>headers \<in> set new. headers ''x-mine'' = None \<and> headers ''x-amz-security-token'' = Some ''T'')"
proof -
  let ?q = "recording (\<lambda>w c. w) sample_table_port" and ?c = "no_creds\<lparr>cr_keys := Some (''AK'', ''SK'', ''T'')\<rparr>"
  let ?sig = "\<lparr>so_authorization = ''a'', so_amz_date = ''d'', so_content_sha256 = ''c''\<rparr>"
  have clean: "pooled_clean (\<lambda>w c. w) sample_ctx Map.empty" and keys: "cr_keys ?c = Some (''AK'', ''SK'', ''T'')"
    by (simp_all add: pooled_clean_def sample_ctx_def)
  from request_headers_exact [OF sample_table_port_laws clean keys, of sample_request "[(Some ''X-Mine'', Some ''1'')]" None ?sig "[]"]
  obtain e1 r1 h1 w1 l1 where
    one: "send_exchange ?q sample_request [(Some ''X-Mine'', Some ''1'')] None ?sig ?c sample_ctx (Map.empty, []) = Some (e1, r1, h1, (w1, l1))"
      "pooled_clean (\<lambda>w c. w) h1 w1" by blast
  from request_headers_exact [OF sample_table_port_laws one(2) keys, of sample_request "[]" None ?sig l1] obtain e2 r2 h2 w2 l2 new where
    two: "send_exchange ?q sample_request [] None ?sig ?c h1 (w1, l1) = Some (e2, r2, h2, (w2, l2))"
      "map (\<lambda>(c, body, headers, e, acc). headers) (performs l2) = map (\<lambda>(c, body, headers, e, acc). headers) (performs l1) @ new"
      "set new \<subseteq> {put_headers (request_headers ?sig (Some ''T'') []) Map.empty}" by blast
  have "put_headers (request_headers ?sig (Some ''T'') []) Map.empty ''x-mine'' = None"
    "put_headers (request_headers ?sig (Some ''T'') []) Map.empty ''x-amz-security-token'' = Some ''T''"
    by (simp_all add: request_headers_def)
  with two(3) have "\<forall>headers \<in> set new. headers ''x-mine'' = None \<and> headers ''x-amz-security-token'' = Some ''T''" by blast
  with one(1) two(1,2) show ?thesis by blast
qed

end
