(* ===== verification/Aws_Memory.thy ===== *)
theory Aws_Memory
  imports Rmk_Prelude "HOL-Library.Multiset"
begin

section \<open>AWS signing: who owns what\<close>

text \<open>
  The same functions as in \<open>Aws_Creds\<close>, \<open>Aws_Sigv4\<close> and \<open>Aws_Request\<close>, cut down to what they do to resources: which blocks they
  allocate, use and free, which mutexes they create and destroy, which connections they open and close, on every path. Every value that is not
  a resource is left open: an oracle says whether an allocation succeeds and how each test turns out, so a theorem for all oracles covers all inputs
  and all failures. \<open>None\<close> is the fault that C leaves undefined: a use or release of something that is not live, or of \<open>NULL\<close>.
\<close>

subsection \<open>Resources\<close>

datatype resource = Mem nat | Mutex nat | Conn nat

text \<open>\<open>hp_next\<close> counts the events so far; it names the next resource and indexes the oracle.\<close>

record heap =
  hp_live :: "resource multiset"
  hp_next :: nat
  hp_oracle :: "nat \<Rightarrow> nat"

type_synonym 'a act = "heap \<Rightarrow> ('a \<times> heap) option"

definition ret :: "'a \<Rightarrow> 'a act" where
  "ret x hp = Some (x, hp)"

definition andthen :: "'a act \<Rightarrow> ('a \<Rightarrow> 'b act) \<Rightarrow> 'b act" where
  "andthen m k hp = (case m hp of None \<Rightarrow> None | Some (x, hp') \<Rightarrow> k x hp')"

fun in_order :: "unit act list \<Rightarrow> unit act" where
  "in_order [] = ret ()"
| "in_order (m # ms) = andthen m (\<lambda>_. in_order ms)"

definition ask_nat :: "nat act" where
  "ask_nat hp = Some (hp_oracle hp (hp_next hp), hp\<lparr>hp_next := hp_next hp + 1\<rparr>)"

definition ask :: "bool act" where
  "ask = andthen ask_nat (\<lambda>n. ret (n \<noteq> 0))"

definition acquire :: "(nat \<Rightarrow> resource) \<Rightarrow> nat option act" where
  "acquire K hp =
     (let n = hp_next hp; hp' = hp\<lparr>hp_next := n + 1\<rparr>
      in Some (if hp_oracle hp n \<noteq> 0 then (Some n, hp'\<lparr>hp_live := add_mset (K n) (hp_live hp)\<rparr>) else (None, hp')))"

definition release :: "(nat \<Rightarrow> resource) \<Rightarrow> nat option \<Rightarrow> unit act" where
  "release K p hp =
     (case p of
        None \<Rightarrow> None
      | Some n \<Rightarrow> if K n \<in># hp_live hp then Some ((), hp\<lparr>hp_live := hp_live hp - {#K n#}\<rparr>) else None)"

definition access :: "(nat \<Rightarrow> resource) \<Rightarrow> nat option \<Rightarrow> unit act" where
  "access K p hp = (case p of None \<Rightarrow> None | Some n \<Rightarrow> if K n \<in># hp_live hp then Some ((), hp) else None)"

abbreviation unless_null :: "nat option \<Rightarrow> (nat option \<Rightarrow> unit act) \<Rightarrow> unit act" where
  "unless_null p f \<equiv> (if p = None then ret () else f p)"

abbreviation AWS_CALLOC :: "nat option act" where "AWS_CALLOC \<equiv> acquire Mem"

definition aws_free :: "nat option \<Rightarrow> unit act" where
  "aws_free p = unless_null p (release Mem)"

definition mutex_destroy :: "nat option \<Rightarrow> unit act" where
  "mutex_destroy p = unless_null p (release Mutex)"

subsection \<open>Reasoning\<close>

primrec resource_id :: "resource \<Rightarrow> nat" where
  "resource_id (Mem n) = n"
| "resource_id (Mutex n) = n"
| "resource_id (Conn n) = n"

text \<open>In a heap that satisfies \<open>heap_ok\<close> a resource is live once and never named again.\<close>

definition heap_ok :: "heap \<Rightarrow> bool" where
  "heap_ok hp \<longleftrightarrow> (\<forall>r. count (hp_live hp) r \<le> (if resource_id r < hp_next hp then 1 else 0))"

definition owned :: "(nat \<Rightarrow> resource) \<Rightarrow> nat option \<Rightarrow> resource multiset" where
  "owned K p = (case p of None \<Rightarrow> {#} | Some n \<Rightarrow> {#K n#})"

lemma owned_simps [simp]: "owned K None = {#}" "owned K (Some n) = {#K n#}"
  by (simp_all add: owned_def)

text \<open>From live resources \<open>L\<close> the action does not fault, and its result and the resources left satisfy \<open>Q\<close>.\<close>

definition runs :: "'a act \<Rightarrow> resource multiset \<Rightarrow> ('a \<Rightarrow> resource multiset \<Rightarrow> bool) \<Rightarrow> bool" where
  "runs m L Q \<longleftrightarrow> (\<forall>hp. heap_ok hp \<and> hp_live hp = L \<longrightarrow> (\<exists>x hp'. m hp = Some (x, hp') \<and> heap_ok hp' \<and> Q x (hp_live hp')))"

named_theorems run_rules "what an action needs and leaves"

lemma runs_ret [run_rules]: "Q x L \<Longrightarrow> runs (ret x) L Q"
  by (simp add: runs_def ret_def)

lemma runs_andthen [run_rules]: "runs m L (\<lambda>x L'. runs (k x) L' Q) \<Longrightarrow> runs (andthen m k) L Q"
  unfolding runs_def andthen_def by (metis (no_types, lifting) case_prod_conv option.simps(5))

lemma runs_ask_nat [run_rules]: "(\<And>n. Q n L) \<Longrightarrow> runs ask_nat L Q"
  by (auto simp: runs_def ask_nat_def heap_ok_def less_Suc_eq split: if_splits)

lemma runs_ask [run_rules]: "(\<And>c. Q c L) \<Longrightarrow> runs ask L Q"
  unfolding ask_def by (intro run_rules)

lemma runs_acquire:
  assumes "\<And>n. resource_id (K n) = n" and q: "\<And>p. Q p (L + owned K p)"
  shows "runs (acquire K) L Q"
  unfolding runs_def
proof (intro allI impI)
  fix hp assume "heap_ok hp \<and> hp_live hp = L"
  then have h: "count L r \<le> (if resource_id r < hp_next hp then 1 else 0)" "hp_live hp = L" for r unfolding heap_ok_def by blast+
  let ?n = "hp_next hp"
  have "count L (K ?n) = 0" using h(1) [of "K ?n"] assms(1) by simp
  then have "count (add_mset (K ?n) L) r \<le> (if resource_id r < ?n + 1 then 1 else 0)" for r
    using h(1) [of r] assms(1) by (cases "r = K ?n") (auto split: if_splits)
  moreover have "count L r \<le> (if resource_id r < ?n + 1 then 1 else 0)" for r
    using h(1) [of r] by (auto split: if_splits)
  ultimately show "\<exists>x hp'. acquire K hp = Some (x, hp') \<and> heap_ok hp' \<and> Q x (hp_live hp')"
    using q [of None] q [of "Some ?n"] h(2) by (auto simp: acquire_def Let_def heap_ok_def)
qed

lemma runs_release:
  assumes "p \<noteq> None" and "owned K p \<subseteq># L" and q: "Q () (L - owned K p)"
  shows "runs (release K p) L Q"
proof -
  from assms(1,2) obtain n where n: "p = Some n" "K n \<in># L" by auto
  have "heap_ok (hp\<lparr>hp_live := hp_live hp - {#K n#}\<rparr>)" if "heap_ok hp" for hp
    unfolding heap_ok_def
  proof
    fix r
    have "count (hp_live hp - {#K n#}) r \<le> count (hp_live hp) r" by simp
    also have "\<dots> \<le> (if resource_id r < hp_next hp then 1 else 0)" using that unfolding heap_ok_def by blast
    finally show "count (hp_live (hp\<lparr>hp_live := hp_live hp - {#K n#}\<rparr>)) r \<le>
      (if resource_id r < hp_next (hp\<lparr>hp_live := hp_live hp - {#K n#}\<rparr>) then 1 else 0)" by simp
  qed
  with n q show ?thesis by (auto simp: runs_def release_def)
qed

lemma runs_access:
  assumes "p \<noteq> None" and "owned K p \<subseteq># L" and "Q () L"
  shows "runs (access K p) L Q"
  using assms by (auto simp: runs_def access_def)

lemma runs_calloc [run_rules]: "(\<And>p. Q p (L + owned Mem p)) \<Longrightarrow> runs AWS_CALLOC L Q"
  by (rule runs_acquire) simp_all

lemma runs_free [run_rules]: "owned Mem p \<subseteq># L \<Longrightarrow> Q () (L - owned Mem p) \<Longrightarrow> runs (aws_free p) L Q"
  by (cases p) (simp_all add: aws_free_def runs_ret runs_release)

lemma runs_mutex_destroy [run_rules]: "owned Mutex p \<subseteq># L \<Longrightarrow> Q () (L - owned Mutex p) \<Longrightarrow> runs (mutex_destroy p) L Q"
  by (cases p) (simp_all add: mutex_destroy_def runs_ret runs_release)

lemma runs_in_order [run_rules]:
  "Q () L \<Longrightarrow> runs (in_order []) L Q"
  "runs m L (\<lambda>_ L'. runs (in_order ms) L' Q) \<Longrightarrow> runs (in_order (m # ms)) L Q"
  by (auto intro: run_rules)

lemma runs_cases [run_rules]:
  "(c \<Longrightarrow> runs a L Q) \<Longrightarrow> (\<not> c \<Longrightarrow> runs b L Q) \<Longrightarrow> runs (if c then a else b) L Q"
  "(p = None \<Longrightarrow> runs a' L Q) \<Longrightarrow> (\<And>x. p = Some x \<Longrightarrow> runs (f x) L Q) \<Longrightarrow> runs (case p of None \<Rightarrow> a' | Some x \<Rightarrow> f x) L Q"
  by (cases c; simp) (cases p; simp)

lemma runs_pair [run_rules]: "runs (f a b) L Q \<Longrightarrow> runs (case (a, b) of (x, y) \<Rightarrow> f x y) L Q"
  by simp

lemma runs_unless_null:
  "(p = None \<Longrightarrow> Q () L) \<Longrightarrow> (p \<noteq> None \<Longrightarrow> runs (f p) L Q) \<Longrightarrow> runs (unless_null p f) L Q"
  by (cases p) (simp_all add: runs_ret)

lemmas [run_rules] = runs_access runs_release runs_unless_null [where f = "access K" for K]

subsection \<open>The handle\<close>

record handle_mem =
  hm_self :: "nat option"
  hm_cred_host :: "nat option"
  hm_thing_name :: "nat option"
  hm_client_cert :: "nat option"
  hm_client_key :: "nat option"
  hm_creds_mutex :: "nat option"
  hm_request_mutex :: "nat option"
  hm_region_mutex :: "nat option"
  hm_conn :: "nat option"

text \<open>A handle as \<open>calloc\<close> leaves it.\<close>

definition blank_handle :: "nat option \<Rightarrow> handle_mem" where
  "blank_handle self = \<lparr>hm_self = self, hm_cred_host = None, hm_thing_name = None, hm_client_cert = None, hm_client_key = None,
     hm_creds_mutex = None, hm_request_mutex = None, hm_region_mutex = None, hm_conn = None\<rparr>"

definition handle_valid :: "handle_mem \<Rightarrow> unit act" where
  "handle_valid h = access Mem (hm_self h)"

definition ctx_free :: "handle_mem \<Rightarrow> unit act" where
  "ctx_free h = in_order
     [access Mem (hm_self h), aws_free (hm_cred_host h), aws_free (hm_thing_name h), aws_free (hm_client_cert h),
      unless_null (hm_client_key h) (access Mem), aws_free (hm_client_key h), mutex_destroy (hm_creds_mutex h),
      mutex_destroy (hm_request_mutex h), mutex_destroy (hm_region_mutex h), aws_free (hm_self h)]"

definition parse_region_block :: "nat option act" where
  "parse_region_block = andthen ask (\<lambda>found. if found then AWS_CALLOC else ret None)"

text \<open>The region is an array of the handle: only the parsed copy is a block.\<close>

definition region_resolve_act :: "bool \<Rightarrow> bool act" where
  "region_resolve_act given =
     andthen (if given then ret None else parse_region_block) (\<lambda>parsed.
     andthen (if given \<or> parsed \<noteq> None then ask else ret False) (\<lambda>fits.
     andthen (aws_free parsed) (\<lambda>_. ret fits)))"

definition complete :: "handle_mem \<Rightarrow> bool" where
  "complete h \<longleftrightarrow> hm_self h \<noteq> None \<and> hm_cred_host h \<noteq> None \<and> hm_thing_name h \<noteq> None \<and> hm_client_cert h \<noteq> None \<and>
     hm_client_key h \<noteq> None \<and> hm_creds_mutex h \<noteq> None \<and> hm_request_mutex h \<noteq> None \<and> hm_region_mutex h \<noteq> None"

definition create_finish :: "handle_mem \<Rightarrow> handle_mem option act" where
  "create_finish h = (if \<not> complete h then andthen (ctx_free h) (\<lambda>_. ret None) else ret (Some h))"

definition create_act :: "handle_mem option act" where
  "create_act =
     andthen ask (\<lambda>accepted. if \<not> accepted then ret None else
     andthen AWS_CALLOC (\<lambda>self. if self = None then ret None else
     andthen ask (\<lambda>given. andthen (region_resolve_act given) (\<lambda>resolved.
       if \<not> resolved then andthen (ctx_free (blank_handle self)) (\<lambda>_. ret None) else
     andthen AWS_CALLOC (\<lambda>host. andthen AWS_CALLOC (\<lambda>thing. andthen AWS_CALLOC (\<lambda>cert. andthen AWS_CALLOC (\<lambda>key.
     andthen (acquire Mutex) (\<lambda>m1. andthen (acquire Mutex) (\<lambda>m2. andthen (acquire Mutex) (\<lambda>m3.
       let h = \<lparr>hm_self = self, hm_cred_host = host, hm_thing_name = thing, hm_client_cert = cert, hm_client_key = key,
         hm_creds_mutex = m1, hm_request_mutex = m2, hm_region_mutex = m3, hm_conn = None\<rparr>
       in create_finish h)))))))))))"

definition conn_close_act :: "handle_mem \<Rightarrow> handle_mem act" where
  "conn_close_act h =
     andthen (access Mem (hm_self h)) (\<lambda>_. andthen (unless_null (hm_conn h) (release Conn)) (\<lambda>_. ret (h\<lparr>hm_conn := None\<rparr>)))"

definition destroy_act :: "handle_mem \<Rightarrow> unit act" where
  "destroy_act h = andthen (handle_valid h) (\<lambda>_. andthen (conn_close_act h) ctx_free)"

definition set_cred_host_act :: "handle_mem \<Rightarrow> handle_mem act" where
  "set_cred_host_act h =
     andthen (handle_valid h) (\<lambda>_. andthen ask (\<lambda>accepted. if \<not> accepted then ret h else
     andthen ask (\<lambda>given. andthen (region_resolve_act given) (\<lambda>resolved. if \<not> resolved then ret h else
     andthen AWS_CALLOC (\<lambda>host. if host = None then ret h else
     andthen (aws_free (hm_cred_host h)) (\<lambda>_. ret (h\<lparr>hm_cred_host := host\<rparr>)))))))"

text \<open>What a handle owns.\<close>

definition handle_owned :: "handle_mem \<Rightarrow> resource multiset" where
  "handle_owned h = owned Mem (hm_self h) + owned Mem (hm_cred_host h) + owned Mem (hm_thing_name h) + owned Mem (hm_client_cert h) +
     owned Mem (hm_client_key h) + owned Mutex (hm_creds_mutex h) + owned Mutex (hm_request_mutex h) + owned Mutex (hm_region_mutex h) +
     owned Conn (hm_conn h)"

lemma runs_mutex_create [run_rules]: "(\<And>p. Q p (L + owned Mutex p)) \<Longrightarrow> runs (acquire Mutex) L Q"
  by (rule runs_acquire) simp_all

lemma runs_open [run_rules]: "(\<And>p. Q p (L + owned Conn p)) \<Longrightarrow> runs (acquire Conn) L Q"
  by (rule runs_acquire) simp_all

lemma runs_region_resolve [run_rules]: "(\<And>fits. Q fits L) \<Longrightarrow> runs (region_resolve_act given) L Q"
  unfolding region_resolve_act_def parse_region_block_def by (intro run_rules) simp_all

lemma runs_ctx_free [run_rules]:
  assumes "hm_self h \<noteq> None" and "hm_conn h = None" and "handle_owned h \<subseteq># L" and q: "Q () (L - handle_owned h)"
  shows "runs (ctx_free h) L Q"
proof -
  from assms(3) obtain M where "L = M + handle_owned h" by (metis subset_mset.le_iff_add add.commute)
  with q assms(1,2) show ?thesis
    unfolding ctx_free_def by (intro run_rules) (simp_all add: handle_owned_def ac_simps)
qed

lemma runs_create_finish:
  assumes "L = M + handle_owned h" and "hm_self h \<noteq> None" and "hm_conn h = None" and "Q None M"
    and "complete h \<Longrightarrow> Q (Some h) (M + handle_owned h)"
  shows "runs (create_finish h) L Q"
  using assms unfolding create_finish_def by (intro run_rules) simp_all

lemma runs_create [run_rules]:
  assumes q: "Q None L" "\<And>h. complete h \<Longrightarrow> hm_conn h = None \<Longrightarrow> Q (Some h) (L + handle_owned h)"
  shows "runs create_act L Q"
  unfolding create_act_def Let_def
  by (intro run_rules runs_create_finish [where M = L])
    (rule q | assumption | (simp add: handle_owned_def blank_handle_def ac_simps q; fail))+

lemma runs_conn_close [run_rules]:
  assumes "hm_self h \<noteq> None" and "handle_owned h \<subseteq># L" and "Q (h\<lparr>hm_conn := None\<rparr>) (L - owned Conn (hm_conn h))"
  shows "runs (conn_close_act h) L Q"
proof -
  from assms(2) obtain M where "L = M + handle_owned h" by (metis subset_mset.le_iff_add add.commute)
  with assms(1,3) show ?thesis
    unfolding conn_close_act_def by (intro run_rules) (auto simp: handle_owned_def)
qed

lemma runs_destroy [run_rules]:
  assumes "hm_self h \<noteq> None" and "handle_owned h \<subseteq># L" and "Q () (L - handle_owned h)"
  shows "runs (destroy_act h) L Q"
proof -
  from assms(2) obtain M where "L = M + handle_owned h" by (metis subset_mset.le_iff_add add.commute)
  with assms(1,3) show ?thesis
    unfolding destroy_act_def handle_valid_def by (intro run_rules) (auto simp: handle_owned_def)
qed

lemma runs_set_cred_host [run_rules]:
  assumes "complete h" and "handle_owned h \<subseteq># L" and q: "\<And>h'. complete h' \<Longrightarrow> hm_conn h' = hm_conn h \<Longrightarrow> Q h' (L - handle_owned h + handle_owned h')"
  shows "runs (set_cred_host_act h) L Q"
proof -
  from assms(2) obtain M where "L = M + handle_owned h" by (metis subset_mset.le_iff_add add.commute)
  with assms(1) q [of h] q [of "h\<lparr>hm_cred_host := p\<rparr>" for p] show ?thesis
    unfolding set_cred_host_act_def handle_valid_def by (intro run_rules) (auto simp: handle_owned_def complete_def ac_simps)
qed

subsection \<open>The response buffer and the credentials\<close>

text \<open>\<open>accum_reserve\<close> on the buffer: whether there is room, and the buffer.\<close>

definition accum_reserve_act :: "nat option \<Rightarrow> (bool \<times> nat option) act" where
  "accum_reserve_act buf =
     andthen ask (\<lambda>too_large. if too_large then ret (False, buf) else
     andthen (if buf = None then ret False else ask) (\<lambda>fits. if fits then ret (True, buf) else
     andthen AWS_CALLOC (\<lambda>new. if new = None then ret (False, buf) else
     andthen (in_order [unless_null buf (access Mem), aws_free buf]) (\<lambda>_. ret (True, new)))))"

definition accum_hint_act :: "nat option \<Rightarrow> (bool \<times> nat option) act" where
  "accum_hint_act buf = andthen ask (\<lambda>declared. if declared then accum_reserve_act buf else ret (True, buf))"

definition accum_sink_act :: "nat option \<Rightarrow> (bool \<times> nat option) act" where
  "accum_sink_act buf =
     andthen (accum_reserve_act buf) (\<lambda>(ok, buf'). if ok then andthen (access Mem buf') (\<lambda>_. ret (True, buf')) else ret (False, buf'))"

definition accum_free_act :: "nat option \<Rightarrow> unit act" where
  "accum_free_act buf = in_order [unless_null buf (access Mem), aws_free buf]"

text \<open>What a transfer does to the buffer: nothing before the response headers; then the hint and any number of chunks, until one is refused.\<close>

fun chunks_act :: "nat \<Rightarrow> nat option \<Rightarrow> nat option act" where
  "chunks_act 0 buf = ret buf"
| "chunks_act (Suc n) buf = andthen (accum_sink_act buf) (\<lambda>(ok, buf'). if ok then chunks_act n buf' else ret buf')"

definition perform_act :: "nat option \<Rightarrow> nat option \<Rightarrow> nat option act" where
  "perform_act conn buf =
     andthen (access Conn conn) (\<lambda>_. andthen ask (\<lambda>responded. if \<not> responded then ret buf else
     andthen (accum_hint_act buf) (\<lambda>(ok, buf'). if \<not> ok then ret buf' else andthen ask_nat (\<lambda>n. chunks_act n buf'))))"

text \<open>The three strings of a credentials struct are one block.\<close>

definition creds_free_act :: "nat option \<Rightarrow> nat option act" where
  "creds_free_act creds = andthen (in_order [unless_null creds (access Mem), aws_free creds]) (\<lambda>_. ret None)"

definition parse_creds_act :: "nat option act" where
  "parse_creds_act =
     andthen ask (\<lambda>accepted. if \<not> accepted then ret None else
     andthen AWS_CALLOC (\<lambda>tok. if tok = None then ret None else
     andthen ask (\<lambda>parsed.
     andthen (if parsed then AWS_CALLOC else ret None) (\<lambda>block.
     andthen (in_order [access Mem tok, aws_free tok]) (\<lambda>_. ret block)))))"

text \<open>The open connection: what was parsed, and the buffer.\<close>

definition fetch_exchange_act :: "handle_mem \<Rightarrow> nat option \<Rightarrow> (nat option \<times> nat option) act" where
  "fetch_exchange_act h conn =
     andthen (in_order [access Conn conn, access Mem (hm_thing_name h)]) (\<lambda>_.
     andthen ask (\<lambda>headers. if \<not> headers then ret (None, None) else
     andthen (perform_act conn None) (\<lambda>buf.
     andthen (if buf = None then ret False else ask) (\<lambda>filled. if \<not> filled then ret (None, buf) else
     andthen (access Mem buf) (\<lambda>_. andthen parse_creds_act (\<lambda>block. ret (block, buf)))))))"

definition creds_fetch_act :: "handle_mem \<Rightarrow> nat option act" where
  "creds_fetch_act h =
     andthen (access Mem (hm_cred_host h)) (\<lambda>_.
     andthen AWS_CALLOC (\<lambda>url.
     andthen (if url = None then ret None
              else andthen (in_order [access Mem url, access Mem (hm_client_cert h), access Mem (hm_client_key h)]) (\<lambda>_. acquire Conn)) (\<lambda>conn.
     andthen (if conn = None then ret (None, None)
              else andthen (fetch_exchange_act h conn) (\<lambda>r. andthen (release Conn conn) (\<lambda>_. ret r))) (\<lambda>(block, buf).
     andthen (in_order [aws_free url, accum_free_act buf]) (\<lambda>_. ret block)))))"

text \<open>Success, and the credentials struct.\<close>

definition creds_refresh_act :: "handle_mem \<Rightarrow> nat option \<Rightarrow> (bool \<times> nat option) act" where
  "creds_refresh_act h creds =
     andthen (handle_valid h) (\<lambda>_.
     andthen ask (\<lambda>accepted. if \<not> accepted then ret (False, creds) else
     andthen (if creds = None then ret True else ask) (\<lambda>stale. if \<not> stale then ret (True, creds) else
     andthen (creds_fetch_act h) (\<lambda>fresh. if fresh = None then ret (False, creds) else
     andthen (creds_free_act creds) (\<lambda>_. ret (True, fresh))))))"

lemma runs_accum_reserve [run_rules]:
  assumes "owned Mem buf \<subseteq># L" and q: "\<And>ok buf'. (ok \<Longrightarrow> buf' \<noteq> None) \<Longrightarrow> Q (ok, buf') (L - owned Mem buf + owned Mem buf')"
  shows "runs (accum_reserve_act buf) L Q"
proof -
  from assms(1) obtain M where "L = M + owned Mem buf" by (metis subset_mset.le_iff_add add.commute)
  then show ?thesis using q [of False buf] q [of True buf] q [of True]
    unfolding accum_reserve_act_def by (intro run_rules) (auto simp: ac_simps)
qed

text \<open>Resources with what is used separated out.\<close>

lemma subset_split: "(A :: 'a multiset) \<subseteq># L \<Longrightarrow> (\<And>M. L = M + A \<Longrightarrow> P) \<Longrightarrow> P"
  by (metis subset_mset.le_iff_add add.commute)

lemma runs_accum_hint [run_rules]:
  assumes "owned Mem buf \<subseteq># L" and q: "\<And>ok buf'. Q (ok, buf') (L - owned Mem buf + owned Mem buf')"
  shows "runs (accum_hint_act buf) L Q"
  using assms(1)
proof (rule subset_split)
  fix M assume "L = M + owned Mem buf"
  then show ?thesis using q [of True buf] q unfolding accum_hint_act_def by (intro run_rules) simp_all
qed

lemma runs_accum_sink [run_rules]:
  assumes "owned Mem buf \<subseteq># L" and q: "\<And>ok buf'. Q (ok, buf') (L - owned Mem buf + owned Mem buf')"
  shows "runs (accum_sink_act buf) L Q"
  using assms(1)
proof (rule subset_split)
  fix M assume "L = M + owned Mem buf"
  then show ?thesis using q unfolding accum_sink_act_def by (intro run_rules) simp_all
qed

lemma runs_accum_free [run_rules]:
  "owned Mem buf \<subseteq># L \<Longrightarrow> Q () (L - owned Mem buf) \<Longrightarrow> runs (accum_free_act buf) L Q"
  unfolding accum_free_act_def by (intro run_rules) simp_all

lemma runs_chunks_frame: "(\<And>buf'. Q buf' (M + owned Mem buf')) \<Longrightarrow> runs (chunks_act n buf) (M + owned Mem buf) Q"
proof (induction n arbitrary: buf)
  case 0
  show ?case using 0 [of buf] by (auto intro: run_rules)
next
  case (Suc n)
  show ?case unfolding chunks_act.simps
    by (intro run_rules) (use Suc in \<open>simp_all add: Suc.IH\<close>)
qed

lemma runs_chunks [run_rules]:
  assumes "owned Mem buf \<subseteq># L" and "\<And>buf'. Q buf' (L - owned Mem buf + owned Mem buf')"
  shows "runs (chunks_act n buf) L Q"
  using assms(1) by (rule subset_split) (use assms(2) in \<open>simp add: runs_chunks_frame\<close>)

lemma runs_perform [run_rules]:
  assumes "conn \<noteq> None" and "owned Mem buf + owned Conn conn \<subseteq># L" and q: "\<And>buf'. Q buf' (L - owned Mem buf + owned Mem buf')"
  shows "runs (perform_act conn buf) L Q"
  using assms(2)
proof (rule subset_split)
  fix M assume "L = M + (owned Mem buf + owned Conn conn)"
  then show ?thesis using assms(1) q [of buf] q unfolding perform_act_def by (intro run_rules) (simp_all add: ac_simps)
qed

lemma runs_creds_free [run_rules]:
  "owned Mem creds \<subseteq># L \<Longrightarrow> Q None (L - owned Mem creds) \<Longrightarrow> runs (creds_free_act creds) L Q"
  unfolding creds_free_act_def by (intro run_rules) simp_all

lemma runs_parse_creds [run_rules]:
  assumes q: "\<And>block. Q block (L + owned Mem block)"
  shows "runs parse_creds_act L Q"
  using q [of None] q unfolding parse_creds_act_def by (intro run_rules) simp_all

lemma runs_fetch_exchange [run_rules]:
  assumes "complete h" and "conn \<noteq> None" and "handle_owned h + owned Conn conn \<subseteq># L"
    and q: "\<And>block buf. Q (block, buf) (L + owned Mem block + owned Mem buf)"
  shows "runs (fetch_exchange_act h conn) L Q"
  using assms(3)
proof (rule subset_split)
  fix M assume L: "L = M + (handle_owned h + owned Conn conn)"
  from q have q': "Q (block, buf) L'" if "L' = L + owned Mem block + owned Mem buf" for block buf L' using that by simp
  show ?thesis unfolding fetch_exchange_act_def
    by (intro run_rules) ((rule q', simp add: ac_simps) | (use assms(1,2) L in \<open>simp add: handle_owned_def complete_def ac_simps\<close>))+
qed

lemma runs_creds_fetch [run_rules]:
  assumes "complete h" and "handle_owned h \<subseteq># L" and q: "\<And>block. Q block (L + owned Mem block)"
  shows "runs (creds_fetch_act h) L Q"
  using assms(2)
proof (rule subset_split)
  fix M assume L: "L = M + handle_owned h"
  from q have q': "Q block L'" if "L' = L + owned Mem block" for block L' using that by simp
  show ?thesis unfolding creds_fetch_act_def
    by (intro run_rules) ((rule q', simp add: ac_simps) | assumption | rule assms(1) | (use assms(1) L in \<open>simp add: handle_owned_def complete_def ac_simps\<close>))+
qed

lemma runs_creds_refresh [run_rules]:
  assumes "complete h" and "handle_owned h + owned Mem creds \<subseteq># L"
    and q: "\<And>ok creds'. Q (ok, creds') (L - owned Mem creds + owned Mem creds')"
  shows "runs (creds_refresh_act h creds) L Q"
  using assms(2)
proof (rule subset_split)
  fix M assume L: "L = M + (handle_owned h + owned Mem creds)"
  have q': "Q (ok, creds') L'" if "L' = M + handle_owned h + owned Mem creds'" for ok creds' L'
    using q [of ok creds'] by (simp add: L that)
  show ?thesis unfolding creds_refresh_act_def handle_valid_def L
    by (intro run_rules) ((rule q', simp add: ac_simps; fail) | rule assms(1) | (use assms(1) in \<open>simp add: complete_def; fail\<close>) |
      (simp add: handle_owned_def ac_simps; fail))+
qed

subsection \<open>The query and the signature\<close>

text \<open>The parameters encoded in turn, until an allocation fails; the array keeps what was allocated.\<close>

fun encode_params_act :: "nat \<Rightarrow> (bool \<times> (nat option \<times> nat option) list) act" where
  "encode_params_act 0 = ret (True, [])"
| "encode_params_act (Suc n) =
     andthen AWS_CALLOC (\<lambda>name. andthen AWS_CALLOC (\<lambda>value.
       if name = None \<or> value = None then ret (False, [(name, value)])
       else andthen (encode_params_act n) (\<lambda>(ok, enc). ret (ok, (name, value) # enc))))"

definition free_params_act :: "(nat option \<times> nat option) list \<Rightarrow> unit act" where
  "free_params_act enc = in_order (concat (map (\<lambda>(name, value). [aws_free name, aws_free value]) enc))"

text \<open>Success, and the joined query: \<open>NULL\<close> when there are no parameters.\<close>

definition build_query_act :: "nat \<Rightarrow> (bool \<times> nat option) act" where
  "build_query_act n =
     andthen ask (\<lambda>accepted. if \<not> accepted then ret (False, None) else
     if n = 0 then ret (True, None) else
     andthen AWS_CALLOC (\<lambda>array. if array = None then ret (False, None) else
     andthen (encode_params_act n) (\<lambda>(encoded, enc).
     andthen (if encoded then AWS_CALLOC else ret None) (\<lambda>joined.
     andthen (in_order [free_params_act enc, aws_free array]) (\<lambda>_. ret (joined \<noteq> None, joined))))))"

text \<open>The three strings of a signature.\<close>

type_synonym sign_mem = "nat option \<times> nat option \<times> nat option"

definition output_free_act :: "sign_mem \<Rightarrow> unit act" where
  "output_free_act sig = (case sig of (authorization, date, sha) \<Rightarrow> in_order [aws_free authorization, aws_free date, aws_free sha])"

definition no_signature :: sign_mem where "no_signature = (None, None, None)"

definition sigv4_with_query_act :: "nat option \<Rightarrow> (bool \<times> sign_mem) act" where
  "sigv4_with_query_act query =
     andthen ask (\<lambda>accepted. if \<not> accepted then ret (False, no_signature) else
     andthen AWS_CALLOC (\<lambda>signed_headers. if signed_headers = None then ret (False, no_signature) else
     andthen (in_order [unless_null query (access Mem), access Mem signed_headers]) (\<lambda>_.
     andthen ask (\<lambda>canonical. if \<not> canonical then andthen (aws_free signed_headers) (\<lambda>_. ret (False, no_signature)) else
     andthen AWS_CALLOC (\<lambda>authorization. andthen AWS_CALLOC (\<lambda>date. andthen AWS_CALLOC (\<lambda>sha.
     andthen (aws_free signed_headers) (\<lambda>_.
       if authorization = None \<or> date = None \<or> sha = None
       then andthen (output_free_act (authorization, date, sha)) (\<lambda>_. ret (False, no_signature))
       else ret (True, (authorization, date, sha))))))))))"

definition sigv4_act :: "nat \<Rightarrow> (bool \<times> sign_mem) act" where
  "sigv4_act n =
     andthen ask (\<lambda>accepted. if \<not> accepted then ret (False, no_signature) else
     andthen (build_query_act n) (\<lambda>(built, query).
     andthen (if built then sigv4_with_query_act query else ret (False, no_signature)) (\<lambda>r.
     andthen (aws_free query) (\<lambda>_. ret r))))"

definition PRESIGN_OWN_PARAMS :: nat where "PRESIGN_OWN_PARAMS = 6"

text \<open>The URL. \<open>n\<close> parameters of the caller, and five or six of the signer.\<close>

definition presign_act :: "nat \<Rightarrow> nat option act" where
  "presign_act n =
     andthen ask (\<lambda>accepted. if \<not> accepted then ret None else
     andthen AWS_CALLOC (\<lambda>signed_headers. if signed_headers = None then ret None else
     andthen AWS_CALLOC (\<lambda>credential. andthen AWS_CALLOC (\<lambda>params.
     andthen (if credential = None \<or> params = None then ret (False, None)
              else andthen (in_order [access Mem credential, access Mem params]) (\<lambda>_.
                andthen ask (\<lambda>token. build_query_act (n + (if token then PRESIGN_OWN_PARAMS else PRESIGN_OWN_PARAMS - 1))))) (\<lambda>(built, query).
     andthen (if built then ask else ret False) (\<lambda>canonical.
     andthen (if canonical then andthen (unless_null query (access Mem)) (\<lambda>_. AWS_CALLOC) else ret None) (\<lambda>url.
     andthen (in_order [aws_free signed_headers, aws_free credential, aws_free params, aws_free query]) (\<lambda>_. ret url))))))))"

fun pairs_owned :: "(nat option \<times> nat option) list \<Rightarrow> resource multiset" where
  "pairs_owned [] = {#}"
| "pairs_owned ((name, value) # enc) = owned Mem name + owned Mem value + pairs_owned enc"

definition sign_owned :: "sign_mem \<Rightarrow> resource multiset" where
  "sign_owned sig = (case sig of (authorization, date, sha) \<Rightarrow> owned Mem authorization + owned Mem date + owned Mem sha)"

lemma sign_owned_simps [simp]:
  "sign_owned no_signature = {#}" "sign_owned (a, b, c) = owned Mem a + owned Mem b + owned Mem c"
  by (simp_all add: sign_owned_def no_signature_def)

lemma runs_encode_params [run_rules]:
  "(\<And>ok enc. Q (ok, enc) (L + pairs_owned enc)) \<Longrightarrow> runs (encode_params_act n) L Q"
proof (induction n arbitrary: L Q)
  case 0
  show ?case using 0 [of True "[]"] by (auto intro: run_rules)
next
  case (Suc n)
  have q': "Q (ok, enc) L'" if "L' = L + pairs_owned enc" for ok enc L' using Suc.prems that by simp
  show ?case unfolding encode_params_act.simps
    by (intro run_rules Suc.IH) (rule q', simp add: ac_simps)+
qed

lemma runs_free_params_frame: "Q () M \<Longrightarrow> runs (free_params_act enc) (M + pairs_owned enc) Q"
proof (induction enc arbitrary: M rule: pairs_owned.induct)
  case 1
  then show ?case by (simp add: free_params_act_def runs_ret)
next
  case (2 name v enc)
  have "free_params_act ((name, v) # enc) = andthen (aws_free name) (\<lambda>_. andthen (aws_free v) (\<lambda>_. free_params_act enc))"
    by (simp add: free_params_act_def)
  then show ?case using 2 by (auto intro!: run_rules simp: ac_simps)
qed

lemma runs_free_params [run_rules]:
  assumes "pairs_owned enc \<subseteq># L" and "Q () (L - pairs_owned enc)"
  shows "runs (free_params_act enc) L Q"
  using assms(1) by (rule subset_split) (use assms(2) in \<open>simp add: runs_free_params_frame\<close>)

lemma runs_build_query [run_rules]:
  assumes q: "\<And>ok query. (\<not> ok \<Longrightarrow> query = None) \<Longrightarrow> Q (ok, query) (L + owned Mem query)"
  shows "runs (build_query_act n) L Q"
proof -
  have q': "Q (ok, query) L'" if "\<not> ok \<Longrightarrow> query = None" "L' = L + owned Mem query" for ok query L' using q [of ok query] that by simp
  show ?thesis unfolding build_query_act_def
    by (intro run_rules) ((rule q', simp, simp add: ac_simps; fail) | (simp add: ac_simps; fail))+
qed

lemma runs_output_free [run_rules]:
  assumes "sign_owned sig \<subseteq># L" and "Q () (L - sign_owned sig)"
  shows "runs (output_free_act sig) L Q"
  using assms(1)
proof (rule subset_split)
  fix M assume "L = M + sign_owned sig"
  then show ?thesis using assms(2) by (cases sig) (auto simp: output_free_act_def ac_simps intro!: run_rules)
qed

lemma runs_sigv4_with_query [run_rules]:
  assumes "owned Mem query \<subseteq># L" and q: "\<And>ok sig. Q (ok, sig) (L + sign_owned sig)"
  shows "runs (sigv4_with_query_act query) L Q"
proof -
  have q': "Q (ok, sig) L'" if "L' = L + sign_owned sig" for ok sig L' using q that by simp
  from assms(1) show ?thesis
  proof (rule subset_split)
    fix M assume L: "L = M + owned Mem query"
    show ?thesis unfolding sigv4_with_query_act_def L
      by (intro run_rules) ((rule q', simp add: L ac_simps; fail) | (simp add: ac_simps; fail))+
  qed
qed

lemma runs_sigv4:
  assumes q: "\<And>ok sig. Q (ok, sig) (L + sign_owned sig)"
  shows "runs (sigv4_act n) L Q"
proof -
  have q': "Q (ok, sig) L'" if "L' = L + sign_owned sig" for ok sig L' using q that by simp
  show ?thesis unfolding sigv4_act_def
    by (intro run_rules) ((rule q', simp add: ac_simps; fail) | (simp add: ac_simps; fail))+
qed

lemma runs_presign:
  assumes q: "\<And>url. Q url (L + owned Mem url)"
  shows "runs (presign_act n) L Q"
proof -
  have q': "Q url L'" if "L' = L + owned Mem url" for url L' using q that by simp
  show ?thesis unfolding presign_act_def
    by (intro run_rules) ((rule q', simp add: ac_simps; fail) | (simp add: ac_simps; fail))+
qed

subsection \<open>The signed request\<close>

definition conn_open_act :: "handle_mem \<Rightarrow> (handle_mem \<times> bool) act" where
  "conn_open_act h =
     andthen (in_order [access Mem (hm_client_cert h), access Mem (hm_client_key h)]) (\<lambda>_.
     andthen (acquire Conn) (\<lambda>c. ret (h\<lparr>hm_conn := c\<rparr>, False)))"

text \<open>The handle, and whether its connection was pooled; without a connection it failed.\<close>

definition conn_get_act :: "handle_mem \<Rightarrow> (handle_mem \<times> bool) act" where
  "conn_get_act h =
     andthen (if hm_conn h = None then ret False else ask) (\<lambda>other.
     andthen (if other then conn_close_act h else ret h) (\<lambda>h1.
     andthen (if hm_conn h1 = None then ret False else ask) (\<lambda>expired.
     andthen (if expired then conn_close_act h1 else ret h1) (\<lambda>h2.
       if hm_conn h2 = None then conn_open_act h2
       else andthen (access Conn (hm_conn h2)) (\<lambda>_. andthen ask (\<lambda>retargeted.
         if retargeted then ret (h2, True) else andthen (conn_close_act h2) conn_open_act))))))"

text \<open>One round of the loop: success, whether to go round again, the local \<open>h\<close>, the handle and the buffer.\<close>

definition attempt_act :: "bool \<Rightarrow> handle_mem \<Rightarrow> nat option \<Rightarrow> (bool \<times> bool \<times> nat option \<times> handle_mem \<times> nat option) act" where
  "attempt_act first h buf =
     andthen (conn_get_act h) (\<lambda>(h1, reused).
       if hm_conn h1 = None then ret (False, False, None, h1, buf) else
     andthen (access Conn (hm_conn h1)) (\<lambda>_. andthen ask (\<lambda>headers.
       if \<not> headers then ret (False, False, hm_conn h1, h1, buf) else
     andthen (perform_act (hm_conn h1) buf) (\<lambda>buf'. andthen ask (\<lambda>performed.
       if performed then ret (True, False, hm_conn h1, h1, buf') else
     andthen (conn_close_act h1) (\<lambda>h2.
     andthen (if first \<and> reused then ask else ret False) (\<lambda>again.
     andthen (if again then unless_null buf' (access Mem) else ret ()) (\<lambda>_. ret (False, again, None, h2, buf')))))))))"

definition loop_act :: "handle_mem \<Rightarrow> (bool \<times> nat option \<times> handle_mem \<times> nat option) act" where
  "loop_act h =
     andthen (attempt_act True h None) (\<lambda>(ok, again, conn, h1, buf).
       if \<not> again then ret (ok, conn, h1, buf)
       else andthen (attempt_act False h1 buf) (\<lambda>(ok, again, conn, h2, buf). ret (ok, conn, h2, buf)))"

text \<open>Up to the URL: success, the credentials struct, and what is to be freed at the end.\<close>

definition prepare_act ::
  "handle_mem \<Rightarrow> nat option \<Rightarrow> nat option \<Rightarrow> (bool \<times> nat option \<times> nat option \<times> sign_mem \<times> nat option) act" where
  "prepare_act h creds query =
     andthen (creds_refresh_act h creds) (\<lambda>(fresh, creds').
       if \<not> fresh then ret (False, creds', None, no_signature, None) else
     andthen ask (\<lambda>needs_type. andthen (if needs_type then AWS_CALLOC else ret None) (\<lambda>hdrs.
       if needs_type \<and> hdrs = None then ret (False, creds', None, no_signature, None) else
     andthen (in_order [unless_null creds' (access Mem)]) (\<lambda>_. andthen (sigv4_with_query_act query) (\<lambda>(made, sig).
       if \<not> made then ret (False, creds', hdrs, sig, None) else
     andthen (unless_null query (access Mem)) (\<lambda>_. andthen AWS_CALLOC (\<lambda>url. ret (url \<noteq> None, creds', hdrs, sig, url))))))))"

text \<open>Success, the body handed to the caller, the handle and the credentials struct.\<close>

definition send_request_act :: "handle_mem \<Rightarrow> nat option \<Rightarrow> nat \<Rightarrow> (bool \<times> nat option \<times> handle_mem \<times> nat option) act" where
  "send_request_act h creds n =
     andthen (handle_valid h) (\<lambda>_. andthen ask (\<lambda>accepted. if \<not> accepted then ret (False, None, h, creds) else
     andthen (build_query_act n) (\<lambda>(built, query). if \<not> built then ret (False, None, h, creds) else
     andthen (prepare_act h creds query) (\<lambda>(ready, creds', hdrs, sig, url).
     andthen (if ready then loop_act h else ret (False, None, h, None)) (\<lambda>(sent, conn, h', buf).
     andthen (in_order
       [if conn \<noteq> None \<and> conn = hm_conn h' then access Conn conn else ret (),
        output_free_act sig, aws_free hdrs, aws_free url, aws_free query, accum_free_act (if sent then None else buf)]) (\<lambda>_.
       ret (sent, if sent then buf else None, h', creds')))))))"

lemma runs_conn_open [run_rules]:
  assumes "complete h" and "hm_conn h = None" and "handle_owned h \<subseteq># L"
    and q: "\<And>h'. complete h' \<Longrightarrow> Q (h', False) (L - handle_owned h + handle_owned h')"
  shows "runs (conn_open_act h) L Q"
  using assms(3)
proof (rule subset_split)
  fix M assume L: "L = M + handle_owned h"
  have q': "Q (h', False) L'" if "complete h'" "L' = M + handle_owned h'" for h' L' using q [of h'] that by (simp add: L)
  show ?thesis unfolding conn_open_act_def L
    by (intro run_rules) ((rule q', use assms(1,2) in \<open>simp_all add: complete_def handle_owned_def ac_simps\<close>) |
      (use assms(1) in \<open>simp add: complete_def handle_owned_def ac_simps\<close>))+
qed

lemma complete_conn [simp]: "complete (h\<lparr>hm_conn := c\<rparr>) = complete h"
  by (simp add: complete_def)

lemma completeD: "complete h \<Longrightarrow> hm_self h \<noteq> None"
  by (simp add: complete_def)

text \<open>Closing, seen from the handle.\<close>

lemma runs_conn_close_handle:
  assumes "complete h" and "handle_owned h \<subseteq># L"
    and "Q (h\<lparr>hm_conn := None\<rparr>) (L - handle_owned h + handle_owned (h\<lparr>hm_conn := None\<rparr>))"
  shows "runs (conn_close_act h) L Q"
  using assms(2)
proof (rule subset_split)
  fix M assume L: "L = M + handle_owned h"
  then have "L - owned Conn (hm_conn h) = L - handle_owned h + handle_owned (h\<lparr>hm_conn := None\<rparr>)" by (simp add: handle_owned_def)
  then show ?thesis using assms completeD by (intro runs_conn_close) auto
qed

declare runs_conn_close [run_rules del] and runs_conn_close_handle [run_rules]

lemma runs_conn_get [run_rules]:
  assumes "complete h" and "handle_owned h \<subseteq># L"
    and q: "\<And>h' reused. complete h' \<Longrightarrow> Q (h', reused) (L - handle_owned h + handle_owned h')"
  shows "runs (conn_get_act h) L Q"
  using assms(2)
proof (rule subset_split)
  fix M assume L: "L = M + handle_owned h"
  have q': "Q (h', reused) L'" if "complete h'" "L' = M + handle_owned h'" for h' reused L' using q [of h' reused] that by (simp add: L)
  have c: "owned Conn (hm_conn h) \<subseteq># M + handle_owned h" for h M by (simp add: handle_owned_def)
  show ?thesis unfolding conn_get_act_def L
    by (intro run_rules) ((rule q', use assms(1) in \<open>simp; fail\<close>, simp; fail) | rule c | (use assms(1) in \<open>simp; fail\<close>))+
qed

lemma conn_of_handle: "owned Conn (hm_conn h) \<subseteq># M + handle_owned h"
  by (simp add: handle_owned_def)

lemma runs_attempt [run_rules]:
  assumes "complete h" and "handle_owned h + owned Mem buf \<subseteq># L"
    and q: "\<And>ok again conn h' buf'. complete h' \<Longrightarrow>
      Q (ok, again, conn, h', buf') (L - (handle_owned h + owned Mem buf) + (handle_owned h' + owned Mem buf'))"
  shows "runs (attempt_act first h buf) L Q"
  using assms(2)
proof (rule subset_split)
  fix M assume L: "L = M + (handle_owned h + owned Mem buf)"
  have q': "Q (ok, again, conn, h', buf') L'" if "complete h'" "L' = M + (handle_owned h' + owned Mem buf')" for ok again conn h' buf' L'
    using q [of h' ok again conn buf'] that by (simp add: L)
  show ?thesis unfolding attempt_act_def L
    by (intro run_rules) ((rule q', use assms(1) in \<open>simp; fail\<close>, simp add: ac_simps; fail) |
      (use assms(1) conn_of_handle in \<open>simp add: ac_simps handle_owned_def; fail\<close>))+
qed

lemma runs_loop [run_rules]:
  assumes "complete h" and "handle_owned h \<subseteq># L"
    and q: "\<And>ok conn h' buf. complete h' \<Longrightarrow> Q (ok, conn, h', buf) (L - handle_owned h + (handle_owned h' + owned Mem buf))"
  shows "runs (loop_act h) L Q"
  using assms(2)
proof (rule subset_split)
  fix M assume L: "L = M + handle_owned h"
  have q': "Q (ok, conn, h', buf) L'" if "complete h'" "L' = M + (handle_owned h' + owned Mem buf)" for ok conn h' buf L'
    using q [of h' ok conn buf] that by (simp add: L)
  show ?thesis unfolding loop_act_def L
    by (intro run_rules) ((rule q', use assms(1) in \<open>simp; fail\<close>, simp add: ac_simps; fail) | (use assms(1) in \<open>simp add: ac_simps; fail\<close>))+
qed

lemma runs_prepare [run_rules]:
  assumes "complete h" and "handle_owned h + owned Mem creds + owned Mem query \<subseteq># L"
    and q: "\<And>ready creds' hdrs sig url. Q (ready, creds', hdrs, sig, url)
      (L - owned Mem creds + owned Mem creds' + owned Mem hdrs + sign_owned sig + owned Mem url)"
  shows "runs (prepare_act h creds query) L Q"
  using assms(2)
proof (rule subset_split)
  fix M assume L: "L = M + (handle_owned h + owned Mem creds + owned Mem query)"
  have q': "Q (ready, creds', hdrs, sig, url) L'" if "L' = M + handle_owned h + owned Mem query + owned Mem creds' + owned Mem hdrs + sign_owned sig + owned Mem url"
    for ready creds' hdrs sig url L' using q [of ready creds' hdrs sig url] that by (simp add: L ac_simps)
  show ?thesis unfolding prepare_act_def L
    by (intro run_rules) ((rule q', simp add: ac_simps; fail) | rule assms(1) | (simp add: ac_simps; fail))+
qed

lemma runs_send_request [run_rules]:
  assumes "complete h" and "handle_owned h + owned Mem creds \<subseteq># L"
    and q: "\<And>sent body h' creds'. complete h' \<Longrightarrow>
      Q (sent, body, h', creds') (L - (handle_owned h + owned Mem creds) + (handle_owned h' + owned Mem creds' + owned Mem body))"
  shows "runs (send_request_act h creds n) L Q"
  using assms(2)
proof (rule subset_split)
  fix M assume L: "L = M + (handle_owned h + owned Mem creds)"
  have q': "Q (sent, body, h', creds') L'" if "complete h'" "L' = M + handle_owned h' + owned Mem creds' + owned Mem body" for sent body h' creds' L'
    using q [of h' sent body creds'] that by (simp add: L ac_simps)
  show ?thesis unfolding send_request_act_def handle_valid_def L
    by (intro run_rules) ((rule q', use assms(1) in \<open>simp; fail\<close>, simp add: ac_simps; fail) | (simp add: assms(1) ac_simps; fail) |
      (simp add: completeD [OF assms(1)] handle_owned_def ac_simps; fail))+
qed

subsection \<open>A client\<close>

text \<open>An application: a handle, a credentials struct for each role, and what it was given and has not freed: bodies, signatures, URLs and regions.\<close>

record client =
  cn_handle :: handle_mem
  cn_creds :: "nat option list"
  cn_bodies :: "nat option list"
  cn_signatures :: "sign_mem list"
  cn_texts :: "nat option list"

datatype client_call =
    Call_Set_Cred_Host
  | Call_Refresh nat
  | Call_Creds_Free nat
  | Call_Send nat nat
  | Call_Response_Free
  | Call_Sigv4 nat
  | Call_Output_Free
  | Call_Presign nat
  | Call_Parse_Region
  | Call_Free

definition free_act :: "nat option \<Rightarrow> unit act" where
  "free_act p = unless_null p aws_free"

fun client_step :: "client_call \<Rightarrow> client \<Rightarrow> client act" where
  "client_step Call_Set_Cred_Host c = andthen (set_cred_host_act (cn_handle c)) (\<lambda>h. ret (c\<lparr>cn_handle := h\<rparr>))"
| "client_step (Call_Refresh i) c =
     (if i \<ge> length (cn_creds c) then ret c
      else andthen (creds_refresh_act (cn_handle c) (cn_creds c ! i)) (\<lambda>(ok, cr). ret (c\<lparr>cn_creds := (cn_creds c)[i := cr]\<rparr>)))"
| "client_step (Call_Creds_Free i) c =
     (if i \<ge> length (cn_creds c) then ret c
      else andthen (creds_free_act (cn_creds c ! i)) (\<lambda>cr. ret (c\<lparr>cn_creds := (cn_creds c)[i := cr]\<rparr>)))"
| "client_step (Call_Send i n) c =
     (if i \<ge> length (cn_creds c) then ret c
      else andthen (send_request_act (cn_handle c) (cn_creds c ! i) n) (\<lambda>(sent, body, h, cr).
        ret (c\<lparr>cn_handle := h, cn_creds := (cn_creds c)[i := cr], cn_bodies := body # cn_bodies c\<rparr>)))"
| "client_step Call_Response_Free c =
     (case cn_bodies c of [] \<Rightarrow> ret c | body # bs \<Rightarrow> andthen (aws_free body) (\<lambda>_. ret (c\<lparr>cn_bodies := bs\<rparr>)))"
| "client_step (Call_Sigv4 n) c = andthen (sigv4_act n) (\<lambda>(ok, sig). ret (c\<lparr>cn_signatures := sig # cn_signatures c\<rparr>))"
| "client_step Call_Output_Free c =
     (case cn_signatures c of [] \<Rightarrow> ret c | sig # ss \<Rightarrow> andthen (output_free_act sig) (\<lambda>_. ret (c\<lparr>cn_signatures := ss\<rparr>)))"
| "client_step (Call_Presign n) c = andthen (presign_act n) (\<lambda>url. ret (c\<lparr>cn_texts := url # cn_texts c\<rparr>))"
| "client_step Call_Parse_Region c = andthen parse_region_block (\<lambda>region. ret (c\<lparr>cn_texts := region # cn_texts c\<rparr>))"
| "client_step Call_Free c =
     (case cn_texts c of [] \<Rightarrow> ret c | t # ts \<Rightarrow> andthen (free_act t) (\<lambda>_. ret (c\<lparr>cn_texts := ts\<rparr>)))"

fun client_run :: "client_call list \<Rightarrow> client \<Rightarrow> client act" where
  "client_run [] c = ret c"
| "client_run (call # calls) c = andthen (client_step call c) (client_run calls)"

text \<open>The application releases what it holds and destroys the handle.\<close>

definition client_close :: "client \<Rightarrow> unit act" where
  "client_close c = in_order
     (map (\<lambda>cr. andthen (creds_free_act cr) (\<lambda>_. ret ())) (cn_creds c) @ map aws_free (cn_bodies c) @ map output_free_act (cn_signatures c) @
      map free_act (cn_texts c) @ [destroy_act (cn_handle c)])"

definition client_owned :: "client \<Rightarrow> resource multiset" where
  "client_owned c = handle_owned (cn_handle c) + sum_list (map (owned Mem) (cn_creds c)) + sum_list (map (owned Mem) (cn_bodies c)) +
     sum_list (map sign_owned (cn_signatures c)) + sum_list (map (owned Mem) (cn_texts c))"

lemma sum_list_pick:
  fixes f :: "'a \<Rightarrow> 'b :: comm_monoid_add"
  assumes "i < length ps"
  shows "sum_list (map f ps) = f (ps ! i) + sum_list (map f (take i ps @ drop (Suc i) ps))"
  by (subst (1) id_take_nth_drop [OF assms]) (simp add: ac_simps)

lemma sum_list_replace:
  fixes f :: "'a \<Rightarrow> 'b :: comm_monoid_add"
  assumes "i < length ps"
  shows "sum_list (map f (ps[i := p])) = f p + sum_list (map f (take i ps @ drop (Suc i) ps))"
  using sum_list_pick [of i "ps[i := p]" f] assms by simp

lemma runs_parse_region [run_rules]: "(\<And>p. Q p (L + owned Mem p)) \<Longrightarrow> runs parse_region_block L Q"
  unfolding parse_region_block_def by (intro run_rules) (metis add.right_neutral owned_simps(1))+

lemma runs_free_act [run_rules]: "owned Mem p \<subseteq># L \<Longrightarrow> Q () (L - owned Mem p) \<Longrightarrow> runs (free_act p) L Q"
  unfolding free_act_def by (cases p) (simp_all add: run_rules)

lemmas [run_rules] = runs_sigv4 runs_presign

text \<open>The credentials struct that a call uses, apart from the rest.\<close>

lemma client_owned_creds:
  assumes "i < length (cn_creds c)"
  obtains R where "client_owned c = R + (handle_owned (cn_handle c) + owned Mem (cn_creds c ! i))"
    "\<And>cr. client_owned (c\<lparr>cn_creds := (cn_creds c)[i := cr]\<rparr>) = R + (handle_owned (cn_handle c) + owned Mem cr)"
    "\<And>h cr body. client_owned (c\<lparr>cn_handle := h, cn_creds := (cn_creds c)[i := cr], cn_bodies := body # cn_bodies c\<rparr>) =
      R + (handle_owned h + owned Mem cr + owned Mem body)"
  using sum_list_pick [OF assms, of "owned Mem"] sum_list_replace [OF assms, of "owned Mem"]
  by (intro that [of "sum_list (map (owned Mem) (take i (cn_creds c) @ drop (Suc i) (cn_creds c))) + sum_list (map (owned Mem) (cn_bodies c)) +
     sum_list (map sign_owned (cn_signatures c)) + sum_list (map (owned Mem) (cn_texts c))"]) (simp_all add: client_owned_def ac_simps)

text \<open>One call keeps the books.\<close>

lemma client_step_books:
  assumes h: "complete (cn_handle c)" and "\<And>c'. complete (cn_handle c') \<Longrightarrow> Q c' (M + client_owned c')"
  shows "runs (client_step call c) (M + client_owned c) Q"
proof -
  have q': "Q c' L'" if "complete (cn_handle c')" "L' = M + client_owned c'" for c' L' using assms(2) that by simp
  consider (with_creds) i n where "call = Call_Refresh i \<or> call = Call_Creds_Free i \<or> call = Call_Send i n" "i < length (cn_creds c)"
    | (no_creds) i n where "call = Call_Refresh i \<or> call = Call_Creds_Free i \<or> call = Call_Send i n" "length (cn_creds c) \<le> i"
    | (other) "\<forall>i n. call \<noteq> Call_Refresh i \<and> call \<noteq> Call_Creds_Free i \<and> call \<noteq> Call_Send i n"
    by (metis not_less)
  then show ?thesis
  proof cases
    case with_creds
    obtain R where R: "client_owned c = R + (handle_owned (cn_handle c) + owned Mem (cn_creds c ! i))"
      "\<And>cr. client_owned (c\<lparr>cn_creds := (cn_creds c)[i := cr]\<rparr>) = R + (handle_owned (cn_handle c) + owned Mem cr)"
      "\<And>h cr body. client_owned (c\<lparr>cn_handle := h, cn_creds := (cn_creds c)[i := cr], cn_bodies := body # cn_bodies c\<rparr>) =
        R + (handle_owned h + owned Mem cr + owned Mem body)" by (rule client_owned_creds [OF with_creds(2)]) (rule that)
    have i: "(length (cn_creds c) \<le> i) = False" using with_creds(2) by simp
    from with_creds(1) show ?thesis
    proof (elim disjE)
      assume "call = Call_Refresh i"
      then show ?thesis unfolding R(1)
        by (simp only: client_step.simps i if_False) (intro run_rules, (rule q' | simp add: h R ac_simps)+)
    next
      assume "call = Call_Creds_Free i"
      then show ?thesis unfolding R(1)
        by (simp only: client_step.simps i if_False) (intro run_rules, (rule q' | simp add: h R ac_simps)+)
    next
      assume "call = Call_Send i n"
      then show ?thesis unfolding R(1)
        by (simp only: client_step.simps i if_False) (intro run_rules, (rule q' | simp add: h R ac_simps)+)
    qed
  next
    case no_creds
    then show ?thesis by (auto intro!: runs_ret q' h)
  next
    case other
    then show ?thesis
      by (cases call) (auto split: list.splits intro!: run_rules q' simp: h client_owned_def ac_simps)
  qed
qed

lemma client_run_books:
  assumes "complete (cn_handle c)" and "\<And>c'. complete (cn_handle c') \<Longrightarrow> Q c' (M + client_owned c')"
  shows "runs (client_run calls c) (M + client_owned c) Q"
  using assms
proof (induction calls arbitrary: c)
  case Nil
  then show ?case by (auto intro: runs_ret)
next
  case (Cons call calls)
  show ?case unfolding client_run.simps
    by (rule runs_andthen, rule client_step_books [OF Cons.prems(1)]) (rule Cons.IH, assumption, rule Cons.prems(2))
qed

text \<open>Releases in a row.\<close>

lemma runs_release_all:
  assumes one: "\<And>x L Q. owned_by x \<subseteq># L \<Longrightarrow> Q () (L - owned_by x) \<Longrightarrow> runs (free_one x) L Q"
    and "runs (in_order ms) L Q"
  shows "runs (in_order (map free_one xs @ ms)) (L + sum_list (map owned_by xs)) Q"
proof (induction xs)
  case Nil
  then show ?case using assms(2) by simp
next
  case (Cons x xs)
  have "runs (free_one x) (L + sum_list (map owned_by (x # xs))) (\<lambda>_ L'. runs (in_order (map free_one xs @ ms)) L' Q)"
    by (rule one) (use Cons in \<open>simp_all add: ac_simps\<close>)
  then show ?case by (simp add: runs_andthen)
qed

lemma client_close_books:
  assumes "complete (cn_handle c)" and q: "Q () M"
  shows "runs (client_close c) (M + client_owned c) Q"
proof -
  let ?h = "cn_handle c"
  have "runs (in_order [destroy_act ?h]) (M + handle_owned ?h) Q"
    by (intro run_rules) (use assms completeD in \<open>simp_all add: runs_ret\<close>)
  from runs_release_all [where free_one = free_act and owned_by = "owned Mem" and xs = "cn_texts c", OF _ this]
  have "runs (in_order (map free_act (cn_texts c) @ [destroy_act ?h])) (M + handle_owned ?h + sum_list (map (owned Mem) (cn_texts c))) Q"
    by (simp add: runs_free_act)
  from runs_release_all [where free_one = output_free_act and owned_by = sign_owned and xs = "cn_signatures c", OF _ this]
  have "runs (in_order (map output_free_act (cn_signatures c) @ map free_act (cn_texts c) @ [destroy_act ?h]))
    (M + handle_owned ?h + sum_list (map (owned Mem) (cn_texts c)) + sum_list (map sign_owned (cn_signatures c))) Q"
    by (simp add: runs_output_free)
  from runs_release_all [where free_one = aws_free and owned_by = "owned Mem" and xs = "cn_bodies c", OF _ this]
  have bodies: "runs (in_order (map aws_free (cn_bodies c) @ map output_free_act (cn_signatures c) @ map free_act (cn_texts c) @ [destroy_act ?h]))
    (M + handle_owned ?h + sum_list (map (owned Mem) (cn_texts c)) + sum_list (map sign_owned (cn_signatures c)) +
     sum_list (map (owned Mem) (cn_bodies c))) Q" by (simp add: runs_free)
  have creds: "runs (andthen (creds_free_act cr) (\<lambda>_. ret ())) L Q" if "owned Mem cr \<subseteq># L" "Q () (L - owned Mem cr)" for cr L Q
    by (intro run_rules) (use that in simp_all)
  from runs_release_all [where free_one = "\<lambda>cr. andthen (creds_free_act cr) (\<lambda>_. ret ())" and owned_by = "owned Mem" and xs = "cn_creds c", OF creds bodies]
  show ?thesis by (simp add: client_close_def client_owned_def ac_simps)
qed

text \<open>An application from its first call to its last: \<open>k\<close> empty credentials structs, and any calls.\<close>

definition client_start :: "nat \<Rightarrow> handle_mem \<Rightarrow> client" where
  "client_start k h = \<lparr>cn_handle = h, cn_creds = replicate k None, cn_bodies = [], cn_signatures = [], cn_texts = []\<rparr>"

definition client_session :: "nat \<Rightarrow> client_call list \<Rightarrow> client option act" where
  "client_session k calls =
     andthen create_act (\<lambda>r. case r of None \<Rightarrow> ret None
     | Some h \<Rightarrow> andthen (client_run calls (client_start k h)) (\<lambda>c. andthen (client_close c) (\<lambda>_. ret (Some c))))"

lemma client_start_handle [simp]: "cn_handle (client_start k h) = h"
  by (simp add: client_start_def)

lemma client_start_owned [simp]: "client_owned (client_start k h) = handle_owned h"
  by (induction k) (simp_all add: client_owned_def client_start_def)

text \<open>C11.
  No leak, no double free and no use after free in the whole interface of the signer: whatever an application calls, in whatever order,
  whichever allocation, mutex or connection fails and however every test inside the calls turns out, no call uses or
  releases something that is not live. While it runs, what is live is exactly what was live before, what the handle owns (its strings, mutexes and at most one
  connection) and what the application was given and has not freed. When it has released that and destroyed the handle, nothing is left; a
  failed \<open>create\<close> leaves nothing either.\<close>

theorem aws_resources_balanced:
  assumes "heap_ok hp"
  shows "(\<exists>r hp'. client_session k calls hp = Some (r, hp') \<and> hp_live hp' = hp_live hp) \<and>
    (\<exists>r hp1. create_act hp = Some (r, hp1) \<and> (case r of None \<Rightarrow> hp_live hp1 = hp_live hp
      | Some h \<Rightarrow> (\<exists>c hp'. client_run calls (client_start k h) hp1 = Some (c, hp') \<and> hp_live hp' = hp_live hp + client_owned c)))"
proof
  let ?L = "hp_live hp"
  have "runs (client_session k calls) ?L (\<lambda>r L'. L' = ?L)"
    unfolding client_session_def
  proof (intro run_rules)
    fix h assume h: "complete h" "hm_conn h = None"
    have books: "runs (client_run calls (client_start k h)) (?L + client_owned (client_start k h))
      (\<lambda>c L'. runs (andthen (client_close c) (\<lambda>_. ret (Some c))) L' (\<lambda>r L'. L' = ?L))"
      by (rule client_run_books) (use h in \<open>auto intro!: runs_andthen client_close_books runs_ret\<close>)
    fix x assume "Some h = Some x"
    with books show "runs (client_run calls (client_start k x)) (?L + handle_owned h)
      (\<lambda>c L'. runs (andthen (client_close c) (\<lambda>_. ret (Some c))) L' (\<lambda>r L'. L' = ?L))" by simp
  qed simp_all
  with assms show "\<exists>r hp'. client_session k calls hp = Some (r, hp') \<and> hp_live hp' = hp_live hp"
    unfolding runs_def by blast
  have run: "runs (client_run calls (client_start k h)) (?L + client_owned (client_start k h)) (\<lambda>c L'. L' = ?L + client_owned c)"
    if "complete h" for h by (rule client_run_books) (simp_all add: that)
  have "runs create_act ?L (\<lambda>r L'. r = None \<and> L' = ?L \<or> (\<exists>h. r = Some h \<and>
    runs (client_run calls (client_start k h)) L' (\<lambda>c L''. L'' = ?L + client_owned c)))"
    by (rule runs_create) (use run in simp_all)
  then obtain r hp1 where c: "create_act hp = Some (r, hp1)" "heap_ok hp1" and
    alt: "r = None \<and> hp_live hp1 = ?L \<or> (\<exists>h. r = Some h \<and>
      runs (client_run calls (client_start k h)) (hp_live hp1) (\<lambda>c L''. L'' = ?L + client_owned c))"
    using assms unfolding runs_def by (metis (no_types, lifting))
  from alt show "\<exists>r hp1. create_act hp = Some (r, hp1) \<and> (case r of None \<Rightarrow> hp_live hp1 = hp_live hp
      | Some h \<Rightarrow> (\<exists>c hp'. client_run calls (client_start k h) hp1 = Some (c, hp') \<and> hp_live hp' = hp_live hp + client_owned c))"
  proof (elim disjE exE conjE)
    assume "r = None" "hp_live hp1 = ?L"
    with c(1) show ?thesis by auto
  next
    fix h assume h: "r = Some h" "runs (client_run calls (client_start k h)) (hp_live hp1) (\<lambda>c L''. L'' = ?L + client_owned c)"
    from h(2) c(2) have "\<exists>c hp'. client_run calls (client_start k h) hp1 = Some (c, hp') \<and> hp_live hp' = ?L + client_owned c"
      unfolding runs_def by blast
    with c(1) h(1) show ?thesis by auto
  qed
qed

text \<open>A device on which every allocation succeeds and every test turns out true: a refresh and a request with two parameters.\<close>

theorem aws_resources_balanced_witness:
  "\<exists>r hp'. client_session 1 [Call_Refresh 0, Call_Send 0 2, Call_Sigv4 1] \<lparr>hp_live = {#Mutex 0#}, hp_next = 1, hp_oracle = (\<lambda>n. 1)\<rparr> = Some (r, hp') \<and>
    hp_live hp' = {#Mutex 0#}"
  using conjunct1 [OF aws_resources_balanced [of "\<lparr>hp_live = {#Mutex 0#}, hp_next = 1, hp_oracle = (\<lambda>n. 1)\<rparr>"
      1 "[Call_Refresh 0, Call_Send 0 2, Call_Sigv4 1]"]]
  by (simp add: heap_ok_def)

end
