(* ===== verification/Esp_Http.thy ===== *)
theory Esp_Http
  imports Aws_Creds
begin

section \<open>AWS signing: the ESP port's HTTP operations\<close>

text \<open>
  \<open>components/rmaker_aws_sign/port/esp/http.c\<close> over \<open>esp_http_client\<close>, which is a parameter acting on a world of type \<open>'w\<close>.
  The receiver of a response is the accumulator, the only receiver the core makes. \<open>None\<close> is undefined behaviour or a transfer that
  does not end.
\<close>

subsection \<open>The client library\<close>

datatype esp_method = HTTP_METHOD_GET | HTTP_METHOD_POST | HTTP_METHOD_PUT | HTTP_METHOD_DELETE | HTTP_METHOD_PATCH

record client_config =
  ec_url :: string
  ec_method :: esp_method
  ec_timeout_ms :: int
  ec_keep_alive :: bool
  ec_cert :: "(string \<times> nat) option"
  ec_key :: "(string \<times> nat) option"

text \<open>\<open>cl_init\<close> gives no handle when it fails; \<open>cl_fetch_headers\<close> is the declared length, 0 when there is none; \<open>cl_read\<close> is
  the result and the bytes put in the buffer.\<close>

record ('w, 'h) http_client =
  cl_init :: "client_config \<Rightarrow> 'w \<Rightarrow> 'h option \<times> 'w"
  cl_set_url :: "'h \<Rightarrow> string \<Rightarrow> 'w \<Rightarrow> esp_err \<times> 'w"
  cl_set_method :: "'h \<Rightarrow> esp_method \<Rightarrow> 'w \<Rightarrow> esp_err \<times> 'w"
  cl_set_header :: "'h \<Rightarrow> string \<Rightarrow> string option \<Rightarrow> 'w \<Rightarrow> esp_err \<times> 'w"
  cl_open :: "'h \<Rightarrow> int \<Rightarrow> 'w \<Rightarrow> esp_err \<times> 'w"
  cl_write :: "'h \<Rightarrow> string \<Rightarrow> 'w \<Rightarrow> int \<times> 'w"
  cl_fetch_headers :: "'h \<Rightarrow> 'w \<Rightarrow> int \<times> 'w"
  cl_read :: "'h \<Rightarrow> nat \<Rightarrow> 'w \<Rightarrow> int \<times> string \<times> 'w"
  cl_get_status_code :: "'h \<Rightarrow> 'w \<Rightarrow> int"
  cl_close :: "'h \<Rightarrow> 'w \<Rightarrow> 'w"
  cl_cleanup :: "'h \<Rightarrow> 'w \<Rightarrow> 'w"

definition READ_CHUNK_LEN :: nat where "READ_CHUNK_LEN = 512"

text \<open>As documented, a non-negative result of a read is the number of bytes it put in the buffer, at most its size.\<close>

definition client_reads :: "('w, 'h) http_client \<Rightarrow> bool" where
  "client_reads cl \<longleftrightarrow> (\<forall>h w len data w'. cl_read cl h READ_CHUNK_LEN w = (len, data, w') \<longrightarrow>
     0 \<le> len \<longrightarrow> length data = nat len \<and> len \<le> int READ_CHUNK_LEN)"

subsection \<open>The operations\<close>

fun to_esp_method :: "http_method \<Rightarrow> esp_method" where
  "to_esp_method HTTP_POST = HTTP_METHOD_POST"
| "to_esp_method HTTP_PUT = HTTP_METHOD_PUT"
| "to_esp_method HTTP_DELETE = HTTP_METHOD_DELETE"
| "to_esp_method HTTP_PATCH = HTTP_METHOD_PATCH"
| "to_esp_method _ = HTTP_METHOD_GET"

definition pem_or_der :: "string option \<Rightarrow> nat \<Rightarrow> (string \<times> nat) option" where
  "pem_or_der blob len = map_option (\<lambda>b. (b, if len \<noteq> 0 then len else length (c_str b) + 1)) blob"

definition esp_http_open :: "('w, 'h) http_client \<Rightarrow> http_config \<Rightarrow> 'w \<Rightarrow> esp_err \<times> 'h option \<times> 'w" where
  "esp_http_open cl cfg w =
     (case cl_init cl
         \<lparr>ec_url = hc_url cfg, ec_method = to_esp_method (hc_method cfg), ec_timeout_ms = hc_timeout_ms cfg, ec_keep_alive = hc_keep_alive cfg,
          ec_cert = pem_or_der (hc_client_cert cfg) (hc_client_cert_len cfg), ec_key = pem_or_der (hc_client_key cfg) (hc_client_key_len cfg)\<rparr> w of
        (None, w1) \<Rightarrow> (ESP_FAIL, None, w1)
      | (Some h, w1) \<Rightarrow> (ESP_OK, Some h, w1))"

definition esp_http_set_url :: "('w, 'h) http_client \<Rightarrow> 'h \<Rightarrow> string \<Rightarrow> 'w \<Rightarrow> esp_err \<times> 'w" where
  "esp_http_set_url cl h url w = cl_set_url cl h url w"

definition esp_http_set_method :: "('w, 'h) http_client \<Rightarrow> 'h \<Rightarrow> http_method \<Rightarrow> 'w \<Rightarrow> esp_err \<times> 'w" where
  "esp_http_set_method cl h m w = cl_set_method cl h (to_esp_method m) w"

definition esp_http_set_header :: "('w, 'h) http_client \<Rightarrow> 'h \<Rightarrow> string \<Rightarrow> string option \<Rightarrow> 'w \<Rightarrow> esp_err \<times> 'w" where
  "esp_http_set_header cl h name v w = cl_set_header cl h name v w"

definition esp_http_status_code :: "('w, 'h) http_client \<Rightarrow> 'h \<Rightarrow> 'w \<Rightarrow> int" where
  "esp_http_status_code cl h w = cl_get_status_code cl h w"

definition esp_http_close :: "('w, 'h) http_client \<Rightarrow> 'h \<Rightarrow> 'w \<Rightarrow> 'w" where
  "esp_http_close cl h w = cl_cleanup cl h (cl_close cl h w)"

text \<open>The read loop.\<close>

partial_function (option) read_loop ::
  "(nat \<Rightarrow> bool) \<Rightarrow> ('w, 'h) http_client \<Rightarrow> 'h \<Rightarrow> accum \<Rightarrow> 'w \<Rightarrow> (esp_err \<times> accum \<times> 'w) option" where
  "read_loop malloc_ok cl h acc w =
     (case cl_read cl h READ_CHUNK_LEN w of (len, data, w1) \<Rightarrow>
        if len < 0 then Some (ESP_FAIL, acc, w1)
        else if len = 0 then Some (ESP_OK, acc, w1)
        else Option.bind (accum_sink malloc_ok data acc)
          (\<lambda>(n, acc1). if n < len then Some (ESP_ERR_INVALID_SIZE, acc1, w1) else read_loop malloc_ok cl h acc1 w1))"

definition esp_http_perform ::
  "(nat \<Rightarrow> bool) \<Rightarrow> ('w, 'h) http_client \<Rightarrow> 'h \<Rightarrow> string \<Rightarrow> accum \<Rightarrow> 'w \<Rightarrow> (esp_err \<times> accum \<times> 'w) option" where
  "esp_http_perform malloc_ok cl h body acc w =
     (case cl_open cl h (c_int (length body)) w of (err, w1) \<Rightarrow>
        if err \<noteq> ESP_OK then Some (err, acc, w1)
        else case (if body \<noteq> [] then cl_write cl h body w1 else (0, w1)) of (written, w2) \<Rightarrow>
          if body \<noteq> [] \<and> (written < 0 \<or> usize (nat written) \<noteq> length body) then Some (ESP_FAIL, acc, w2)
          else case cl_fetch_headers cl h w2 of (content_length, w3) \<Rightarrow>
            if content_length < 0 then Some (ESP_FAIL, acc, w3)
            else case accum_hint malloc_ok (usize (nat content_length)) acc of
              None \<Rightarrow> None
            | Some (n, acc1) \<Rightarrow>
                if n \<noteq> 0 then Some (ESP_ERR_INVALID_SIZE, acc1, w3) else read_loop malloc_ok cl h acc1 w3)"

subsection \<open>A transfer ends\<close>

text \<open>The chunks a client gives before it reports the end.\<close>

inductive reads_to_end :: "('w, 'h) http_client \<Rightarrow> 'h \<Rightarrow> 'w \<Rightarrow> string list \<Rightarrow> 'w \<Rightarrow> bool" for cl h where
  at_end: "cl_read cl h READ_CHUNK_LEN w = (0, data, w') \<Longrightarrow> reads_to_end cl h w [] w'"
| more: "cl_read cl h READ_CHUNK_LEN w = (len, data, w1) \<Longrightarrow> len > 0 \<Longrightarrow> reads_to_end cl h w1 chunks w' \<Longrightarrow>
    reads_to_end cl h w (data # chunks) w'"

lemma read_loop_ends:
  assumes cl: "client_reads cl" and "holds acc body" and "ac_status acc = ESP_OK"
  shows "\<exists>err acc' w' chunks ok e. read_loop m cl h acc w = Some (err, acc', w') \<and>
    (\<forall>c \<in> set chunks. c \<noteq> [] \<and> length c \<le> READ_CHUNK_LEN) \<and> length chunks \<le> ac_limit acc - length body + 1 \<and>
    deliver_chunks m chunks acc = Some (ok, acc') \<and> err = (if ok then e else ESP_ERR_INVALID_SIZE) \<and> (e = ESP_OK \<or> e = ESP_FAIL) \<and>
    (err = ESP_OK \<longrightarrow> reads_to_end cl h w chunks w')"
  using assms(2,3)
proof (induction "ac_limit acc - length body" arbitrary: acc body w rule: less_induct)
  case less
  obtain len data w1 where r: "cl_read cl h READ_CHUNK_LEN w = (len, data, w1)" by (rule prod_cases3)
  consider "len < 0" | "len = 0" | "0 < len" by linarith
  then show ?case
  proof cases
    case 1
    then have "read_loop m cl h acc w = Some (ESP_FAIL, acc, w1)" by (subst read_loop.simps) (simp add: r)
    then show ?thesis by (intro exI [of _ ESP_FAIL] exI [of _ acc] exI [of _ w1] exI [of _ "[]"] exI [of _ True]) simp
  next
    case 2
    then have "read_loop m cl h acc w = Some (ESP_OK, acc, w1)" by (subst read_loop.simps) (simp add: r)
    moreover have "reads_to_end cl h w [] w1" using r 2 by (auto intro: reads_to_end.at_end)
    ultimately show ?thesis by (intro exI [of _ ESP_OK] exI [of _ acc] exI [of _ w1] exI [of _ "[]"] exI [of _ True]) simp
  next
    case 3
    have d: "length data = nat len" "nat len \<le> READ_CHUNK_LEN" using cl [unfolded client_reads_def, rule_format, OF r] 3 by linarith+
    then have data: "data \<noteq> []" "length data < 2 ^ 31" "int (length data) = len" using 3 by (auto simp: READ_CHUNK_LEN_def)
    from sink_cases [OF less.prems(1) data(1,2), of m] obtain n a1 where
      s: "accum_sink m data acc = Some (n, a1)" and lim: "ac_limit a1 = ac_limit acc" and
      alt: "n = len \<and> holds a1 (body @ data) \<and> ac_status a1 = ESP_OK \<and> length (body @ data) \<le> ac_limit acc \<or> n = 0"
      using less.prems(2) data(3) by fastforce
    show ?thesis
    proof (cases "n < len")
      case True
      then have "read_loop m cl h acc w = Some (ESP_ERR_INVALID_SIZE, a1, w1)" by (subst read_loop.simps) (use 3 in \<open>simp add: r s\<close>)
      moreover have "deliver_chunks m [data] acc = Some (False, a1)" using True data(3) by (simp add: s)
      ultimately show ?thesis using data d
        by (intro exI [of _ ESP_ERR_INVALID_SIZE] exI [of _ a1] exI [of _ w1] exI [of _ "[data]"] exI [of _ False] exI [of _ ESP_OK]) simp
    next
      case False
      with alt 3 have a1: "n = len" "holds a1 (body @ data)" "ac_status a1 = ESP_OK" "length body + length data \<le> ac_limit acc" by auto
      have step: "read_loop m cl h acc w = read_loop m cl h a1 w1" by (subst read_loop.simps) (use 3 False in \<open>simp add: r s\<close>)
      have less1: "ac_limit a1 - length (body @ data) < ac_limit acc - length body" using a1(4) data(1) by (cases data) (simp_all add: lim)
      from less.hyps [OF less1 a1(2,3), of w1] obtain err acc' w' chunks ok e where
        ih: "read_loop m cl h a1 w1 = Some (err, acc', w')" "\<forall>c \<in> set chunks. c \<noteq> [] \<and> length c \<le> READ_CHUNK_LEN"
          "length chunks \<le> ac_limit a1 - length (body @ data) + 1" "deliver_chunks m chunks a1 = Some (ok, acc')"
          "err = (if ok then e else ESP_ERR_INVALID_SIZE)" "e = ESP_OK \<or> e = ESP_FAIL" "err = ESP_OK \<longrightarrow> reads_to_end cl h w1 chunks w'"
        by blast
      have "length (data # chunks) \<le> ac_limit acc - length body + 1" using ih(3) less1 by simp
      moreover have "deliver_chunks m (data # chunks) acc = Some (ok, acc')" using s a1(1) data(3) ih(4) by simp
      moreover have "err = ESP_OK \<longrightarrow> reads_to_end cl h w (data # chunks) w'" using ih(7) r 3 by (auto intro: reads_to_end.more)
      moreover have "\<forall>c \<in> set (data # chunks). c \<noteq> [] \<and> length c \<le> READ_CHUNK_LEN" using ih(2) data d by simp
      ultimately show ?thesis using step ih(1,5,6) by metis
    qed
  qed
qed

lemma not_started:
  "Some (err, acc, w1) = Some (err, acc, w1) \<and> reply_ok \<lparr>rp_hint = None, rp_chunks = [], rp_err = err, rp_refused = err\<rparr> \<and>
    perform_into m \<lparr>rp_hint = None, rp_chunks = [], rp_err = err, rp_refused = err\<rparr> acc = Some (err, acc)"
  by (simp add: reply_ok_def perform_into_def)

lemma perform_cases:
  assumes "client_reads cl" and "holds acc []" and "ac_status acc = ESP_OK"
  shows "\<exists>err acc' w' rp. esp_http_perform malloc_ok cl h body acc w = Some (err, acc', w') \<and>
    reply_ok rp \<and> perform_into malloc_ok rp acc = Some (err, acc') \<and> length (rp_chunks rp) \<le> ac_limit acc + 1 \<and>
    ac_len acc' \<le> ac_limit acc \<and>
    (err = ESP_OK \<longrightarrow> holds acc' (concat (rp_chunks rp)) \<and>
      (\<exists>w2 declared w3. cl_fetch_headers cl h w2 = (declared, w3) \<and> 0 \<le> declared \<and> rp_hint rp = Some (usize (nat declared)) \<and>
        reads_to_end cl h w3 (rp_chunks rp) w'))"
proof -
  have early: ?thesis if "esp_http_perform malloc_ok cl h body acc w = Some (e, acc, w1)" "e \<noteq> ESP_OK" for e w1
    using that assms(2) not_started [of e acc w1 malloc_ok]
    by (intro exI [of _ e] exI [of _ acc] exI [of _ w1] exI [of _ "\<lparr>rp_hint = None, rp_chunks = [], rp_err = e, rp_refused = e\<rparr>"])
      (simp add: holds_def)
  obtain e1 w1 where o: "cl_open cl h (c_int (length body)) w = (e1, w1)" by (rule prod.exhaust)
  obtain written w2 where wr: "(if body \<noteq> [] then cl_write cl h body w1 else (0, w1)) = (written, w2)" by (rule prod.exhaust)
  obtain declared w3 where f: "cl_fetch_headers cl h w2 = (declared, w3)" by (rule prod.exhaust)
  note perform = esp_http_perform_def [of malloc_ok cl h body acc w, unfolded o prod.case wr f]
  consider "e1 \<noteq> ESP_OK \<or> body \<noteq> [] \<and> (written < 0 \<or> usize (nat written) \<noteq> length body) \<or> declared < 0"
    | "e1 = ESP_OK" "\<not> (body \<noteq> [] \<and> (written < 0 \<or> usize (nat written) \<noteq> length body))" "\<not> declared < 0" by blast
  then show ?thesis
  proof cases
    case 1
    with perform early show ?thesis by (cases "e1 = ESP_OK") (auto split: if_splits)
  next
    case 2
    let ?cl = "usize (nat declared)"
    from hint_cases [OF assms(2,3) usize_less, of malloc_ok "nat declared"] obtain n a1 where
      hint: "accum_hint malloc_ok ?cl acc = Some (n, a1)" and a1: "holds a1 []" "ac_limit a1 = ac_limit acc" and
      st: "n = 0 \<longrightarrow> ac_status a1 = ESP_OK" by blast
    show ?thesis
    proof (cases "n = 0")
      case False
      let ?rp = "\<lparr>rp_hint = Some ?cl, rp_chunks = [], rp_err = ESP_FAIL, rp_refused = ESP_ERR_INVALID_SIZE\<rparr>"
      have "perform_into malloc_ok ?rp acc = Some (ESP_ERR_INVALID_SIZE, a1)" using hint False by (simp add: perform_into_def deliver_def)
      moreover have "reply_ok ?rp" using usize_less [of "nat declared"] by (simp add: reply_ok_def)
      moreover have "esp_http_perform malloc_ok cl h body acc w = Some (ESP_ERR_INVALID_SIZE, a1, w3)"
        using 2 False hint unfolding perform by simp
      ultimately show ?thesis using a1
        by (intro exI [of _ ESP_ERR_INVALID_SIZE] exI [of _ a1] exI [of _ w3] exI [of _ ?rp]) (simp add: holds_def)
    next
      case True
      from read_loop_ends [OF assms(1) a1(1), of malloc_ok h w3] st True obtain err acc' w' chunks ok e where
        rl: "read_loop malloc_ok cl h a1 w3 = Some (err, acc', w')" "\<forall>c \<in> set chunks. c \<noteq> [] \<and> length c \<le> READ_CHUNK_LEN"
          "length chunks \<le> ac_limit a1 - length ([] :: string) + 1" "deliver_chunks malloc_ok chunks a1 = Some (ok, acc')"
          "err = (if ok then e else ESP_ERR_INVALID_SIZE)" "err = ESP_OK \<longrightarrow> reads_to_end cl h w3 chunks w'" by blast
      let ?rp = "\<lparr>rp_hint = Some ?cl, rp_chunks = chunks, rp_err = e, rp_refused = ESP_ERR_INVALID_SIZE\<rparr>"
      have small: "\<forall>c \<in> set chunks. c \<noteq> [] \<and> length c < 2 ^ 31" using rl(2) by (auto simp: READ_CHUNK_LEN_def)
      from chunks_cases [OF a1(1) small, of malloc_ok] st True rl(4) obtain got where
        got: "holds acc' got" "ac_limit acc' = ac_limit acc" "ok \<longrightarrow> got = concat chunks" by (auto simp: a1(2))
      have "perform_into malloc_ok ?rp acc = Some (err, acc')" using hint True rl(4,5) by (simp add: perform_into_def deliver_def)
      moreover have "reply_ok ?rp" using small usize_less [of "nat declared"] by (simp add: reply_ok_def)
      moreover have "esp_http_perform malloc_ok cl h body acc w = Some (err, acc', w')" using 2(1,3) True hint rl(1) unfolding perform if_not_P [OF 2(2)] by simp
      moreover have "ac_len acc' \<le> ac_limit acc" using got(1,2) by (simp add: holds_def)
      moreover have "err = ESP_OK \<longrightarrow> holds acc' (concat chunks)" using rl(5) got(1,3) by (cases ok) simp_all
      moreover have "err = ESP_OK \<longrightarrow> (\<exists>w2 d w3. cl_fetch_headers cl h w2 = (d, w3) \<and> 0 \<le> d \<and> Some ?cl = Some (usize (nat d)) \<and>
          reads_to_end cl h w3 chunks w')"
        using f 2(3) rl(6) not_less by blast
      moreover have "length chunks \<le> ac_limit acc + 1" using rl(3) a1(2) by simp
      ultimately show ?thesis
        by (intro exI [of _ err] exI [of _ acc'] exI [of _ w'] exI [of _ ?rp] conjI) simp_all
    qed
  qed
qed

text \<open>C26.
  On the ESP port a transfer into an accumulator always ends, even when the server never stops sending: after at most as many reads as the
  limit has bytes, and two more. It is what the core assumes of a port: the result and the accumulator are those of a reply, hint
  first, then chunks that are neither empty nor longer than the read buffer, stopping at the first refusal. Success means that the
  client reported the end of the stream and the accumulator holds everything it gave. Nothing compares that to the declared length: a
  connection that ends early is a success with a shorter body.\<close>

theorem esp_perform_ends:
  assumes "client_reads cl" and "holds acc []" and "ac_status acc = ESP_OK"
  shows "\<exists>err acc' w' rp. esp_http_perform malloc_ok cl h body acc w = Some (err, acc', w') \<and>
    reply_ok rp \<and> perform_into malloc_ok rp acc = Some (err, acc') \<and> length (rp_chunks rp) \<le> ac_limit acc + 1 \<and>
    ac_len acc' \<le> ac_limit acc \<and>
    (err = ESP_OK \<longrightarrow> holds acc' (concat (rp_chunks rp)) \<and>
      (\<exists>w2 declared w3. cl_fetch_headers cl h w2 = (declared, w3) \<and> 0 \<le> declared \<and> rp_hint rp = Some (usize (nat declared)) \<and>
        reads_to_end cl h w3 (rp_chunks rp) w'))"
  by (rule perform_cases [OF assms])

text \<open>A client whose world is the list of results still to come, and a server that declares two bytes and sends one.\<close>

definition sample_client :: "((int \<times> string) list, nat) http_client" where
  "sample_client =
     \<lparr>cl_init = (\<lambda>_ w. (Some 0, w)), cl_set_url = (\<lambda>_ _ w. (ESP_OK, w)), cl_set_method = (\<lambda>_ _ w. (ESP_OK, w)),
      cl_set_header = (\<lambda>_ _ _ w. (ESP_OK, w)), cl_open = (\<lambda>_ _ w. (ESP_OK, w)), cl_write = (\<lambda>_ b w. (int (length b), w)),
      cl_fetch_headers = (\<lambda>_ w. (2, w)),
      cl_read = (\<lambda>_ n w. case w of [] \<Rightarrow> (-1, [], []) | (len, data) # w' \<Rightarrow>
        if len = int (length data) \<and> length data \<le> n then (len, data, w') else (-1, [], w')),
      cl_get_status_code = (\<lambda>_ _. 200), cl_close = (\<lambda>_ w. w), cl_cleanup = (\<lambda>_ w. w)\<rparr>"

lemma sample_client_reads: "client_reads sample_client"
  by (auto simp: client_reads_def sample_client_def split: list.splits if_splits)

lemma sample_short_sink:
  "accum_sink (\<lambda>_. True) ''{'' (sample_acc [None, None, None] 0) = Some (1, sample_acc [Some CHR ''{'', Some CHR 0x00, None] 1)"
proof -
  have u: "usize (Suc 0) = Suc 0" "usize (Suc (Suc 0)) = Suc (Suc 0)" "c_int (Suc 0) = 1"
    by (simp_all add: usize_def c_int_def)
  show ?thesis by (simp add: accum_sink_def accum_reserve_def sample_acc_def wr_n_def wr_def u)
qed

lemma sample_transfer:
  "esp_http_perform (\<lambda>_. True) sample_client 0 [] (accum_init 4096) [(1, ''{''), (0, [])] =
     Some (ESP_OK, sample_acc [Some CHR ''{'', Some CHR 0x00, None] 1, [])"
  by (simp add: esp_http_perform_def sample_client_def sample_hint sample_short_sink READ_CHUNK_LEN_def read_loop.simps)

theorem esp_perform_ends_witness:
  "\<exists>acc rp. esp_http_perform (\<lambda>_. True) sample_client 0 [] (accum_init 4096) [(1, ''{''), (0, [])] = Some (ESP_OK, acc, []) \<and>
    rp_hint rp = Some 2 \<and> length (concat (rp_chunks rp)) = 1 \<and> perform_into (\<lambda>_. True) rp (accum_init 4096) = Some (ESP_OK, acc)"
proof -
  have i: "holds (accum_init 4096) []" "ac_status (accum_init 4096) = ESP_OK" by (simp_all add: holds_init) (simp add: accum_init_def)
  from esp_perform_ends [OF sample_client_reads i, of "\<lambda>_. True" 0 "[]" "[(1, ''{''), (0, [])]"] obtain rp w2 declared w3 where
    r: "perform_into (\<lambda>_. True) rp (accum_init 4096) = Some (ESP_OK, sample_acc [Some CHR ''{'', Some CHR 0x00, None] 1)"
      "holds (sample_acc [Some CHR ''{'', Some CHR 0x00, None] 1) (concat (rp_chunks rp))"
      "cl_fetch_headers sample_client 0 w2 = (declared, w3)" "rp_hint rp = Some (usize (nat declared))"
    unfolding sample_transfer by auto
  from r(3) have "declared = 2" by (simp add: sample_client_def)
  moreover have "length (concat (rp_chunks rp)) = 1" using r(2) by (simp add: holds_def sample_acc_def)
  ultimately show ?thesis using r(1,4) sample_transfer by auto
qed

end
