(* ===== verification/Esp_Json.thy ===== *)
theory Esp_Json
  imports Aws_Encode
begin

section \<open>AWS signing: the ESP port's JSON reader\<close>

text \<open>
  \<open>components/rmaker_aws_sign/port/esp/json.c\<close> over cJSON, which is a parameter: the parser and the member lookup are arguments, and
  a tree node is what the code tests of it. The scan of the document comes before the parser sees it. A field's outputs are \<open>Some\<close> of the
  value when it was found, and the wiping of the tree is not modelled.
\<close>

subsection \<open>The scan of string contents\<close>

definition is_hex :: "char \<Rightarrow> bool" where
  "is_hex c \<longleftrightarrow> (code CHR ''0'' \<le> code c \<and> code c \<le> code CHR ''9'') \<or> (code CHR ''a'' \<le> code c \<and> code c \<le> code CHR ''f'') \<or>
     (code CHR ''A'' \<le> code c \<and> code c \<le> code CHR ''F'')"

text \<open>\<open>json[i]\<close> is the head of the list.\<close>

fun safe_scan :: "bool \<Rightarrow> string \<Rightarrow> bool" where
  "safe_scan in_string [] = True"
| "safe_scan False (c # cs) = safe_scan (c = CHR 0x22) cs"
| "safe_scan True (c # cs) =
     (if c = CHR 0x22 then safe_scan False cs
      else if code c < 0x20 then False
      else if c \<noteq> CHR 0x5C then safe_scan True cs
      else case cs of
        [] \<Rightarrow> False
      | e # rest \<Rightarrow>
          if e \<noteq> CHR ''u'' then safe_scan True rest
          else if length rest < 4 then False
          else if \<not> list_all is_hex (take 4 rest) then False
          else if take 4 rest = ''0000'' then False
          else safe_scan True (drop 4 rest))"

definition strings_are_safe :: "string \<Rightarrow> bool" where
  "strings_are_safe json = safe_scan False json"

subsection \<open>Reading the fields\<close>

datatype cjson = CJ_Object "(string option \<times> cjson) list" | CJ_String "string option" | CJ_Other

record json_field =
  jf_key :: "string option"
  jf_buf :: bool
  jf_buf_size :: nat

definition clear_fields :: "json_field list \<Rightarrow> string option list" where
  "clear_fields flds = replicate (length flds) None"

fun find_field :: "json_field list \<Rightarrow> string \<Rightarrow> nat option" where
  "find_field [] name = None"
| "find_field (f # fs) name = (if jf_key f = Some name then Some 0 else map_option Suc (find_field fs name))"

fun read_items :: "json_field list \<Rightarrow> (string option \<times> cjson) list \<Rightarrow> string option list \<Rightarrow> string option list option" where
  "read_items flds [] vs = Some vs"
| "read_items flds ((None, item) # items) vs = read_items flds items vs"
| "read_items flds ((Some name, item) # items) vs =
     (case find_field flds name of
        None \<Rightarrow> read_items flds items vs
      | Some hit \<Rightarrow>
          if vs ! hit \<noteq> None then None
          else (case item of
                  CJ_String (Some v) \<Rightarrow>
                    if \<not> jf_buf (flds ! hit) \<or> length (c_str v) + 1 > jf_buf_size (flds ! hit) then None
                    else read_items flds items (vs[hit := Some (c_str v)])
                | _ \<Rightarrow> None))"

definition esp_json_read_strs ::
  "(string \<Rightarrow> cjson option) \<Rightarrow> (cjson \<Rightarrow> string \<Rightarrow> cjson option) \<Rightarrow> string \<Rightarrow> string option \<Rightarrow> json_field list \<Rightarrow>
     esp_err \<times> string option list" where
  "esp_json_read_strs parse get_item json object flds =
     (if flds = [] then (ESP_ERR_INVALID_ARG, [])
      else if \<not> strings_are_safe json then (ESP_FAIL, clear_fields flds)
      else case parse json of
        None \<Rightarrow> (ESP_FAIL, clear_fields flds)
      | Some root \<Rightarrow>
          (case (case object of Some name \<Rightarrow> get_item root name | None \<Rightarrow> Some root) of
             Some (CJ_Object items) \<Rightarrow>
               (case read_items flds items (clear_fields flds) of
                  Some vs \<Rightarrow> (ESP_OK, vs)
                | None \<Rightarrow> (ESP_FAIL, clear_fields flds))
           | _ \<Rightarrow> (ESP_FAIL, clear_fields flds)))"

subsection \<open>What the scan accepts\<close>

text \<open>A document as text outside string literals and literals made of pieces.\<close>

datatype piece = P_Char char | P_Escape char | P_Unicode string

datatype segment = Outside char | Literal "piece list"

fun piece_text :: "piece \<Rightarrow> string" where
  "piece_text (P_Char c) = [c]"
| "piece_text (P_Escape c) = [CHR 0x5C, c]"
| "piece_text (P_Unicode h) = CHR 0x5C # CHR ''u'' # h"

fun segment_text :: "segment \<Rightarrow> string" where
  "segment_text (Outside c) = [c]"
| "segment_text (Literal ps) = CHR 0x22 # concat (map piece_text ps) @ [CHR 0x22]"

text \<open>How any text splits: a plain character is neither quote nor backslash, an escape is not \<open>\u\<close>, which takes four characters.\<close>

fun piece_form :: "piece \<Rightarrow> bool" where
  "piece_form (P_Char c) = (c \<noteq> CHR 0x22 \<and> c \<noteq> CHR 0x5C)"
| "piece_form (P_Escape c) = (c \<noteq> CHR ''u'')"
| "piece_form (P_Unicode h) = (length h = 4)"

fun segment_form :: "segment \<Rightarrow> bool" where
  "segment_form (Outside c) = (c \<noteq> CHR 0x22)"
| "segment_form (Literal ps) = list_all piece_form ps"

text \<open>What the contract of the port admits: no raw control character, no \<open>\u\<close> with other than hex digits or with code 0.\<close>

fun piece_safe :: "piece \<Rightarrow> bool" where
  "piece_safe (P_Char c) = (code c \<ge> 0x20)"
| "piece_safe (P_Escape c) = True"
| "piece_safe (P_Unicode h) = (list_all is_hex h \<and> h \<noteq> ''0000'')"

fun segment_safe :: "segment \<Rightarrow> bool" where
  "segment_safe (Outside c) = True"
| "segment_safe (Literal ps) = list_all piece_safe ps"

lemma code_backslash: "\<not> code CHR 0x5C < 0x20"
  by (simp add: code_def)

lemma scan_piece: "piece_form p \<Longrightarrow> safe_scan True (piece_text p @ rest) = (piece_safe p \<and> safe_scan True rest)"
  by (cases p) (auto simp: code_backslash)

lemma scan_pieces: "list_all piece_form ps \<Longrightarrow> safe_scan True (concat (map piece_text ps) @ CHR 0x22 # rest) = (list_all piece_safe ps \<and> safe_scan False rest)"
  by (induction ps) (simp_all add: scan_piece del: safe_scan.simps(3), simp)

lemma scan_segments:
  "list_all segment_form doc \<Longrightarrow> safe_scan False (concat (map segment_text doc) @ rest) = (list_all segment_safe doc \<and> safe_scan False rest)"
proof (induction doc)
  case (Cons s doc)
  then show ?case by (cases s) (simp_all add: scan_pieces del: safe_scan.simps(3))
qed simp

subsection \<open>What the reader returns\<close>

fun members :: "(string option \<times> cjson) list \<Rightarrow> string option \<Rightarrow> cjson list" where
  "members [] k = []"
| "members ((n, item) # items) k = (if n \<noteq> None \<and> n = k then item # members items k else members items k)"

text \<open>The value of one field: absent, a string that fits, or (\<open>None\<close>) a reason to refuse the document.\<close>

definition field_value :: "(string option \<times> cjson) list \<Rightarrow> json_field \<Rightarrow> string option option" where
  "field_value items f =
     (case members items (jf_key f) of
        [] \<Rightarrow> Some None
      | [CJ_String (Some v)] \<Rightarrow> if jf_buf f \<and> length (c_str v) < jf_buf_size f then Some (Some (c_str v)) else None
      | _ \<Rightarrow> None)"

text \<open>The same with the value read so far.\<close>

definition later_value :: "(string option \<times> cjson) list \<Rightarrow> json_field \<Rightarrow> string option \<Rightarrow> string option option" where
  "later_value items f v = (if v = None then field_value items f else if members items (jf_key f) = [] then Some v else None)"

lemma find_field_Some: "find_field flds n = Some i \<Longrightarrow> i < length flds \<and> jf_key (flds ! i) = Some n"
  by (induction flds arbitrary: i) (auto split: if_splits)

lemma find_field_None: "find_field flds n = None \<longleftrightarrow> Some n \<notin> jf_key ` set flds"
  by (induction flds) auto

lemma those_None: "None \<in> set xs \<Longrightarrow> those xs = None"
  by (induction xs) (auto split: option.splits)

lemma later_other: "n = None \<or> jf_key f \<noteq> n \<Longrightarrow> later_value ((n, item) # items) f v = later_value items f v"
  by (auto simp: later_value_def field_value_def)

text \<open>What the reader asks of a member of a requested name.\<close>

definition takes :: "json_field \<Rightarrow> string option \<Rightarrow> cjson \<Rightarrow> string \<Rightarrow> bool" where
  "takes f v item t \<longleftrightarrow> v = None \<and> item = CJ_String (Some t) \<and> jf_buf f \<and> length (c_str t) < jf_buf_size f"

lemma later_taken:
  "jf_key f = Some name \<Longrightarrow> takes f v item t \<Longrightarrow> later_value ((Some name, item) # items) f v = later_value items f (Some (c_str t))"
  by (auto simp: later_value_def field_value_def takes_def split: list.splits)

lemma later_refused: "jf_key f = Some name \<Longrightarrow> \<nexists>t. takes f v item t \<Longrightarrow> later_value ((Some name, item) # items) f v = None"
  by (auto simp: later_value_def field_value_def takes_def split: list.splits cjson.splits option.splits)

lemma read_taken:
  "find_field flds name = Some hit \<Longrightarrow> takes (flds ! hit) (vs ! hit) item t \<Longrightarrow>
    read_items flds ((Some name, item) # items) vs = read_items flds items (vs[hit := Some (c_str t)])"
  by (auto simp: takes_def)

lemma read_refused:
  "find_field flds name = Some hit \<Longrightarrow> \<nexists>t. takes (flds ! hit) (vs ! hit) item t \<Longrightarrow> read_items flds ((Some name, item) # items) vs = None"
  by (auto simp: takes_def split: cjson.splits option.splits)

lemma later_values_taken:
  assumes dist: "distinct (map jf_key flds)" and len: "length vs = length flds" and f: "find_field flds name = Some hit"
    and t: "takes (flds ! hit) (vs ! hit) item t"
  shows "map2 (later_value items) flds (vs[hit := Some (c_str t)]) = map2 (later_value ((Some name, item) # items)) flds vs"
proof (rule nth_equalityI)
  note hit = find_field_Some [OF f]
  fix i assume "i < length (map2 (later_value items) flds (vs[hit := Some (c_str t)]))"
  then have i: "i < length flds" using len by simp
  show "map2 (later_value items) flds (vs[hit := Some (c_str t)]) ! i = map2 (later_value ((Some name, item) # items)) flds vs ! i"
  proof (cases "i = hit")
    case True
    then show ?thesis using i len later_taken [OF conjunct2 [OF hit] t, of items] by simp
  next
    case False
    then have "jf_key (flds ! i) \<noteq> Some name" using i hit nth_eq_iff_index_eq [OF dist, of i hit] by auto
    then show ?thesis using i len False by (simp add: later_other)
  qed
qed (use len in simp)

lemma those_map_the:
  "those (map g xs) = (if \<exists>x \<in> set xs. g x = None then None else Some (map (\<lambda>x. the (g x)) xs))"
  by (induction xs) (auto split: option.splits)

lemma read_items_values:
  assumes dist: "distinct (map jf_key flds)" and "length vs = length flds"
  shows "read_items flds items vs = those (map2 (later_value items) flds vs)"
  using assms(2)
proof (induction items arbitrary: vs)
  case Nil
  then have "those (map2 (later_value []) flds vs) = Some vs"
    by (induction flds vs rule: list_induct2') (auto simp: later_value_def field_value_def)
  then show ?case by simp
next
  case (Cons it items)
  obtain n item where it: "it = (n, item)" by (rule prod.exhaust)
  have same: "map2 (later_value (it # items)) flds vs = map2 (later_value items) flds vs" if "n = None \<or> n \<notin> jf_key ` set flds"
    using that unfolding it by (intro map_cong refl) (auto dest: set_zip_leftD intro!: later_other)
  show ?case
  proof (cases n)
    case None
    then have "map2 (later_value (it # items)) flds vs = map2 (later_value items) flds vs" using same by blast
    then show ?thesis using Cons.IH [OF Cons.prems] None by (simp only: it read_items.simps)
  next
    case name: (Some name)
    show ?thesis
    proof (cases "find_field flds name")
      case None
      then have "map2 (later_value (it # items)) flds vs = map2 (later_value items) flds vs" using same name by (simp add: find_field_None)
      then show ?thesis using Cons.IH [OF Cons.prems] None by (simp only: it name read_items.simps option.case)
    next
      case f: (Some hit)
      note hit = find_field_Some [OF f]
      show ?thesis
      proof (cases "\<exists>t. takes (flds ! hit) (vs ! hit) item t")
        case True
        then obtain t where t: "takes (flds ! hit) (vs ! hit) item t" ..
        show ?thesis
          unfolding it name read_taken [OF f t] later_values_taken [OF dist Cons.prems f t, symmetric]
          using Cons.IH [of "vs[hit := Some (c_str t)]"] Cons.prems by simp
      next
        case False
        have "those (map2 (later_value (it # items)) flds vs) = None"
          using later_refused [OF conjunct2 [OF hit] False, of items] hit Cons.prems
          by (intro those_None) (auto simp: in_set_conv_nth it name simp del: set_map intro!: exI [of _ hit])
        then show ?thesis using read_refused [OF f False] by (simp add: it name)
      qed
    qed
  qed
qed

lemma later_value_none: "map2 (later_value items) flds (replicate (length flds) None) = map (field_value items) flds"
  by (induction flds) (simp_all add: later_value_def)

lemma read_strs_result:
  assumes "flds \<noteq> []" and "distinct (map jf_key flds)"
  shows "esp_json_read_strs parse get_item json object flds =
     (let refused = (ESP_FAIL, map (\<lambda>_. None) flds) in
      if \<not> strings_are_safe json then refused
      else case Option.bind (parse json) (\<lambda>root. case object of Some name \<Rightarrow> get_item root name | None \<Rightarrow> Some root) of
        Some (CJ_Object items) \<Rightarrow>
          (if \<exists>f \<in> set flds. field_value items f = None then refused else (ESP_OK, map (\<lambda>f. the (field_value items f)) flds))
      | _ \<Rightarrow> refused)"
proof -
  have cleared: "clear_fields flds = map (\<lambda>_. None) flds" by (simp add: clear_fields_def map_replicate_const)
  have read: "read_items flds items (map (\<lambda>_. None) flds) =
    (if \<exists>f \<in> set flds. field_value items f = None then None else Some (map (\<lambda>f. the (field_value items f)) flds))" for items
    using read_items_values [OF assms(2), of "clear_fields flds" items] those_map_the [of "field_value items" flds]
    by (simp add: later_value_none clear_fields_def map_replicate_const)
  show ?thesis
    using assms(1)
    by (auto simp: esp_json_read_strs_def read cleared Let_def split: option.splits cjson.splits)
qed

text \<open>C24.
  The reader is fail-closed. A document is scanned first: of any text that splits into string literals and the rest, exactly the ones
  without a raw control character, a \<open>\u\<close> escape with a character that is no hex digit, or \<open>\u0000\<close> in a literal pass, whatever is outside
  the literals. Then the result is determined by the members of the object: \<open>ESP_OK\<close> with every requested value when each requested
  key is absent or occurs once as a string that fits its buffer with its terminator; otherwise (twice, not a string, too long, no
  object, no parse) \<open>ESP_FAIL\<close> with no field found. The order of the members and those not requested are irrelevant.\<close>

theorem esp_json_fail_closed:
  assumes "flds \<noteq> []" and "distinct (map jf_key flds)"
  shows "esp_json_read_strs parse get_item json object flds =
     (let refused = (ESP_FAIL, map (\<lambda>_. None) flds) in
      if \<not> strings_are_safe json then refused
      else case Option.bind (parse json) (\<lambda>root. case object of Some name \<Rightarrow> get_item root name | None \<Rightarrow> Some root) of
        Some (CJ_Object items) \<Rightarrow>
          (if \<exists>f \<in> set flds. field_value items f = None then refused else (ESP_OK, map (\<lambda>f. the (field_value items f)) flds))
      | _ \<Rightarrow> refused) \<and>
     (\<forall>doc. list_all segment_form doc \<longrightarrow> strings_are_safe (concat (map segment_text doc)) = list_all segment_safe doc)"
  using read_strs_result [OF assms] scan_segments [of _ "[]"] by (simp add: strings_are_safe_def)

text \<open>A response with two of the requested fields and one that is not requested.\<close>

definition sample_items :: "(string option \<times> cjson) list" where
  "sample_items = [(Some ''accessKeyId'', CJ_String (Some ''AK'')), (Some ''other'', CJ_Other), (Some ''expiration'', CJ_String (Some ''soon''))]"

definition sample_fields :: "json_field list" where
  "sample_fields = map (\<lambda>(k, n). \<lparr>jf_key = Some k, jf_buf = True, jf_buf_size = n\<rparr>)
     [(''accessKeyId'', 3), (''sessionToken'', 16), (''expiration'', 5)]"

theorem esp_json_fail_closed_witness:
  "esp_json_read_strs (\<lambda>_. Some (CJ_Object [])) (\<lambda>_ _. Some (CJ_Object sample_items)) ''{}'' (Some ''credentials'') sample_fields =
     (ESP_OK, [Some ''AK'', None, Some ''soon'']) \<and>
   \<not> strings_are_safe (concat (map segment_text [Outside CHR ''{'', Literal [P_Char CHR ''a'', P_Unicode ''0000'']]))"
proof -
  have f: "sample_fields \<noteq> []" "distinct (map jf_key sample_fields)" by (simp_all add: sample_fields_def)
  note read = conjunct1 [OF esp_json_fail_closed [OF f]] and scan = conjunct2 [OF esp_json_fail_closed [OF f], rule_format]
  have "strings_are_safe ''{}''" by (simp add: strings_are_safe_def)
  then show ?thesis
    unfolding read
    using scan [of "[Outside CHR ''{'', Literal [P_Char CHR ''a'', P_Unicode ''0000'']]"]
    by (simp add: sample_fields_def sample_items_def field_value_def c_str_def del: concat.simps segment_text.simps)
qed

end
