(* ===== verification/Aws_Port.thy ===== *)
theory Aws_Port
  imports State_Machine
begin

section \<open>AWS signing: installing a port\<close>

text \<open>
  \<open>components/rmaker_aws_sign/src/esp_rmaker_aws_sign_port.c\<close>: the table of platform operations, its validation, and the
  install. A function pointer is \<open>None\<close> when NULL, otherwise the function it names. Installs run in any task: the model takes
  one step per access to the shared state or table, in the order of the source.
\<close>

subsection \<open>The table\<close>

record 'f port_config =
  mem_malloc :: "'f option"
  mem_calloc :: "'f option"
  mem_free :: "'f option"
  crypto_init :: "'f option"
  crypto_sha256_init :: "'f option"
  crypto_sha256_update :: "'f option"
  crypto_sha256_finish :: "'f option"
  crypto_sha256_abort :: "'f option"
  crypto_hmac_sha256 :: "'f option"
  time_get_time :: "'f option"
  time_is_synced :: "'f option"
  mutex_create :: "'f option"
  mutex_lock :: "'f option"
  mutex_unlock :: "'f option"
  mutex_destroy :: "'f option"
  http_open :: "'f option"
  http_set_url :: "'f option"
  http_set_method :: "'f option"
  http_set_header :: "'f option"
  http_perform :: "'f option"
  http_status_code :: "'f option"
  http_close :: "'f option"
  json_read_strs :: "'f option"
  port_log :: "'f option"

text \<open>The table after \<open>memset\<close>.\<close>

definition zero_port :: "'f port_config" where
  "zero_port = \<lparr>mem_malloc = None, mem_calloc = None, mem_free = None, crypto_init = None, crypto_sha256_init = None,
     crypto_sha256_update = None, crypto_sha256_finish = None, crypto_sha256_abort = None, crypto_hmac_sha256 = None,
     time_get_time = None, time_is_synced = None, mutex_create = None, mutex_lock = None, mutex_unlock = None, mutex_destroy = None,
     http_open = None, http_set_url = None, http_set_method = None, http_set_header = None, http_perform = None,
     http_status_code = None, http_close = None, json_read_strs = None, port_log = None\<rparr>"

definition port_equal :: "'f port_config \<Rightarrow> 'f port_config \<Rightarrow> bool" where
  "port_equal a b \<longleftrightarrow>
     mem_malloc a = mem_malloc b \<and> mem_calloc a = mem_calloc b \<and> mem_free a = mem_free b \<and>
     crypto_init a = crypto_init b \<and> crypto_sha256_init a = crypto_sha256_init b \<and>
     crypto_sha256_update a = crypto_sha256_update b \<and> crypto_sha256_finish a = crypto_sha256_finish b \<and>
     crypto_sha256_abort a = crypto_sha256_abort b \<and> crypto_hmac_sha256 a = crypto_hmac_sha256 b \<and>
     time_get_time a = time_get_time b \<and> time_is_synced a = time_is_synced b \<and>
     mutex_create a = mutex_create b \<and> mutex_lock a = mutex_lock b \<and> mutex_unlock a = mutex_unlock b \<and>
     mutex_destroy a = mutex_destroy b \<and>
     http_open a = http_open b \<and> http_set_url a = http_set_url b \<and> http_set_method a = http_set_method b \<and>
     http_set_header a = http_set_header b \<and> http_perform a = http_perform b \<and>
     http_status_code a = http_status_code b \<and> http_close a = http_close b \<and>
     json_read_strs a = json_read_strs b \<and> port_log a = port_log b"

definition set_count :: "'f option list \<Rightarrow> nat" where
  "set_count fs = length (filter (\<lambda>f. f \<noteq> None) fs)"

definition mutex_set :: "'f port_config \<Rightarrow> nat" where
  "mutex_set p = set_count [mutex_create p, mutex_lock p, mutex_unlock p, mutex_destroy p]"

definition http_set :: "'f port_config \<Rightarrow> nat" where
  "http_set p = set_count [http_open p, http_set_url p, http_set_method p, http_set_header p, http_perform p, http_status_code p,
     http_close p]"

text \<open>\<open>run_init\<close> is the result of the backend's \<open>init\<close>.\<close>

definition port_prepare :: "('f \<Rightarrow> esp_err) \<Rightarrow> 'f port_config \<Rightarrow> esp_err" where
  "port_prepare run_init p =
     (if mem_malloc p = None \<or> mem_calloc p = None \<or> mem_free p = None then ESP_ERR_INVALID_ARG
      else if crypto_sha256_init p = None \<or> crypto_sha256_update p = None \<or> crypto_sha256_finish p = None \<or>
        crypto_sha256_abort p = None \<or> crypto_hmac_sha256 p = None then ESP_ERR_INVALID_ARG
      else if time_get_time p = None then ESP_ERR_INVALID_ARG
      else if mutex_set p \<noteq> 0 \<and> mutex_set p \<noteq> 4 then ESP_ERR_INVALID_ARG
      else if http_set p \<noteq> 0 \<and> http_set p \<noteq> 7 then ESP_ERR_INVALID_ARG
      else if http_set p = 7 \<and> (mutex_set p \<noteq> 4 \<or> json_read_strs p = None) then ESP_ERR_INVALID_ARG
      else case crypto_init p of
        Some f \<Rightarrow> if run_init f \<noteq> ESP_OK then ESP_FAIL else ESP_OK
      | None \<Rightarrow> ESP_OK)"

subsection \<open>Installs in any task\<close>

datatype port_state = PORT_NONE | PORT_INSTALLING | PORT_INSTALLED

text \<open>Where a call of \<open>esp_rmaker_aws_sign_port_install\<close> is: about to compare, to write the log member, to validate, to copy the
  table, to publish it, to clear it, to release it.\<close>

datatype 'f install_pc =
    I_Idle
  | I_Compare "'f port_config"
  | I_Log "'f port_config"
  | I_Prepare "'f port_config"
  | I_Copy "'f port_config"
  | I_Publish "'f port_config"
  | I_Clear "'f port_config" esp_err
  | I_Release "'f port_config" esp_err

record ('t, 'f) port_sys =
  ps_state :: port_state
  ps_table :: "'f port_config"
  ps_pc :: "'t \<Rightarrow> 'f install_pc"
  ps_returned :: "('t \<times> 'f port_config option \<times> esp_err) list"

definition port_is_installed :: "('t, 'f) port_sys \<Rightarrow> bool" where
  "port_is_installed s \<longleftrightarrow> ps_state s = PORT_INSTALLED"

definition goto :: "'t \<Rightarrow> 'f install_pc \<Rightarrow> ('t, 'f) port_sys \<Rightarrow> ('t, 'f) port_sys" where
  "goto t pc s = s\<lparr>ps_pc := (ps_pc s)(t := pc)\<rparr>"

definition give :: "'t \<Rightarrow> 'f port_config option \<Rightarrow> esp_err \<Rightarrow> ('t, 'f) port_sys \<Rightarrow> ('t, 'f) port_sys" where
  "give t p err s = goto t I_Idle (s\<lparr>ps_returned := ps_returned s @ [(t, p, err)]\<rparr>)"

text \<open>The call with its compare-and-exchange.\<close>

definition install_call :: "'t \<Rightarrow> 'f port_config option \<Rightarrow> ('t, 'f) port_sys \<Rightarrow> ('t, 'f) port_sys" where
  "install_call t port s =
     (case port of
        None \<Rightarrow> give t None ESP_ERR_INVALID_ARG s
      | Some p \<Rightarrow>
          (case ps_state s of
             PORT_NONE \<Rightarrow> goto t (I_Log p) (s\<lparr>ps_state := PORT_INSTALLING\<rparr>)
           | PORT_INSTALLING \<Rightarrow> give t port ESP_ERR_NOT_FINISHED s
           | PORT_INSTALLED \<Rightarrow> goto t (I_Compare p) s))"

text \<open>One step of a call in progress.\<close>

fun install_step :: "('f \<Rightarrow> esp_err) \<Rightarrow> 't \<Rightarrow> 'f install_pc \<Rightarrow> ('t, 'f) port_sys \<Rightarrow> ('t, 'f) port_sys" where
  "install_step run_init t I_Idle s = s"
| "install_step run_init t (I_Compare p) s =
     give t (Some p) (if port_equal (ps_table s) p then ESP_OK else ESP_ERR_INVALID_STATE) s"
| "install_step run_init t (I_Log p) s = goto t (I_Prepare p) (s\<lparr>ps_table := (ps_table s)\<lparr>port_log := port_log p\<rparr>\<rparr>)"
| "install_step run_init t (I_Prepare p) s =
     goto t (let err = port_prepare run_init p in if err \<noteq> ESP_OK then I_Clear p err else I_Copy p) s"
| "install_step run_init t (I_Copy p) s = goto t (I_Publish p) (s\<lparr>ps_table := p\<rparr>)"
| "install_step run_init t (I_Publish p) s = give t (Some p) ESP_OK (s\<lparr>ps_state := PORT_INSTALLED\<rparr>)"
| "install_step run_init t (I_Clear p err) s = goto t (I_Release p err) (s\<lparr>ps_table := zero_port\<rparr>)"
| "install_step run_init t (I_Release p err) s = give t (Some p) err (s\<lparr>ps_state := PORT_NONE\<rparr>)"

inductive port_step :: "('f \<Rightarrow> esp_err) \<Rightarrow> ('t, 'f) port_sys \<Rightarrow> ('t, 'f) port_sys \<Rightarrow> bool" for run_init where
  call: "ps_pc s t = I_Idle \<Longrightarrow> port_step run_init s (install_call t port s)"
| run: "ps_pc s t \<noteq> I_Idle \<Longrightarrow> port_step run_init s (install_step run_init t (ps_pc s t) s)"

definition port_start :: "('t, 'f) port_sys \<Rightarrow> bool" where
  "port_start s \<longleftrightarrow> s = \<lparr>ps_state = PORT_NONE, ps_table = zero_port, ps_pc = (\<lambda>_. I_Idle), ps_returned = []\<rparr>"

text \<open>The removal, for tests with no handle alive: never during an install.\<close>

definition port_uninstall :: "('t, 'f) port_sys \<Rightarrow> ('t, 'f) port_sys" where
  "port_uninstall s = s\<lparr>ps_table := zero_port, ps_state := PORT_NONE\<rparr>"

subsection \<open>One installer, and only complete tables\<close>

lemma port_equal_eq: "port_equal a b \<longleftrightarrow> a = b"
  by (cases a; cases b) (auto simp: port_equal_def)

definition given :: "'f option list \<Rightarrow> bool" where
  "given fs \<longleftrightarrow> None \<notin> set fs"

text \<open>What the rest of the component relies on: the required operations are there, and mutexes and HTTP each whole or absent, HTTP
  never without mutexes and JSON.\<close>

definition port_complete :: "'f port_config \<Rightarrow> bool" where
  "port_complete p \<longleftrightarrow>
     given [mem_malloc p, mem_calloc p, mem_free p] \<and>
     given [crypto_sha256_init p, crypto_sha256_update p, crypto_sha256_finish p, crypto_sha256_abort p, crypto_hmac_sha256 p] \<and>
     given [time_get_time p] \<and>
     (\<forall>f \<in> {mutex_create p, mutex_lock p, mutex_unlock p, mutex_destroy p}. f \<noteq> None \<longrightarrow>
        given [mutex_create p, mutex_lock p, mutex_unlock p, mutex_destroy p]) \<and>
     (\<forall>f \<in> {http_open p, http_set_url p, http_set_method p, http_set_header p, http_perform p, http_status_code p, http_close p}.
        f \<noteq> None \<longrightarrow> given [http_open p, http_set_url p, http_set_method p, http_set_header p, http_perform p,
          http_status_code p, http_close p, mutex_create p, mutex_lock p, mutex_unlock p, mutex_destroy p, json_read_strs p])"

lemma set_count_0: "set_count fs = 0 \<longleftrightarrow> (\<forall>f \<in> set fs. f = None)"
  by (simp add: set_count_def filter_empty_conv)

lemma set_count_all: "set_count fs = length fs \<longleftrightarrow> given fs"
proof
  assume "set_count fs = length fs"
  then have "filter (\<lambda>f. f \<noteq> None) fs = fs" by (metis filter_id_conv length_filter_less less_irrefl set_count_def)
  then show "given fs" unfolding filter_id_conv given_def by blast
next
  assume "given fs"
  then have "filter (\<lambda>f. f \<noteq> None) fs = fs" unfolding filter_id_conv given_def by metis
  then show "set_count fs = length fs" by (simp add: set_count_def)
qed

lemma prepared_complete:
  assumes "port_prepare run_init p = ESP_OK"
  shows "port_complete p"
proof -
  have c: "given [mem_malloc p, mem_calloc p, mem_free p]"
    "given [crypto_sha256_init p, crypto_sha256_update p, crypto_sha256_finish p, crypto_sha256_abort p, crypto_hmac_sha256 p]"
    "given [time_get_time p]"
    using assms by (auto simp: port_prepare_def given_def split: if_splits)
  let ?M = "[mutex_create p, mutex_lock p, mutex_unlock p, mutex_destroy p]"
  let ?H = "[http_open p, http_set_url p, http_set_method p, http_set_header p, http_perform p, http_status_code p, http_close p]"
  have alt: "mutex_set p = 0 \<or> mutex_set p = 4" "http_set p = 0 \<or> http_set p = 7 \<and> mutex_set p = 4 \<and> json_read_strs p \<noteq> None"
    using assms by (auto simp: port_prepare_def split: if_splits)
  have m4: "mutex_set p = 4 \<longleftrightarrow> given ?M" and h7: "http_set p = 7 \<longleftrightarrow> given ?H"
    unfolding mutex_set_def http_set_def set_count_all [symmetric] by (simp_all add: eval_nat_numeral)
  have m0: "mutex_set p = 0 \<longleftrightarrow> (\<forall>f \<in> set ?M. f = None)" and h0: "http_set p = 0 \<longleftrightarrow> (\<forall>f \<in> set ?H. f = None)"
    unfolding mutex_set_def http_set_def set_count_0 by (rule refl)+
  have "given (?H @ ?M @ [json_read_strs p])" if "f \<in> set ?H" "f \<noteq> None" for f
  proof -
    have "http_set p \<noteq> 0" using h0 that by blast
    then have "given ?H \<and> given ?M \<and> json_read_strs p \<noteq> None" using alt(2) unfolding m4 h7 by simp
    then show ?thesis by (auto simp: given_def)
  qed
  moreover have "given ?M" if "f \<in> set ?M" "f \<noteq> None" for f
    using alt(1) m0 m4 that by blast
  ultimately show ?thesis
    unfolding port_complete_def using c by (simp only: set_simps append.simps) blast
qed

fun installing :: "'f install_pc \<Rightarrow> bool" where
  "installing I_Idle = False"
| "installing (I_Compare p) = False"
| "installing _ = True"

text \<open>What the installer may rely on at each place.\<close>

fun pc_ok :: "'f port_config \<Rightarrow> 'f install_pc \<Rightarrow> bool" where
  "pc_ok table (I_Copy p) = port_complete p"
| "pc_ok table (I_Publish p) = (port_complete p \<and> table = p)"
| "pc_ok table (I_Clear p err) = (err \<noteq> ESP_OK)"
| "pc_ok table (I_Release p err) = (err \<noteq> ESP_OK \<and> table = zero_port)"
| "pc_ok table _ = True"

definition none_ok :: "('t, 'f) port_sys \<Rightarrow> bool" where
  "none_ok s \<longleftrightarrow> (\<forall>(t, p, err) \<in> set (ps_returned s). err \<noteq> ESP_OK)"

definition port_inv :: "('t, 'f) port_sys \<Rightarrow> bool" where
  "port_inv s \<longleftrightarrow>
     (case ps_state s of
        PORT_NONE \<Rightarrow> (\<forall>t. ps_pc s t = I_Idle) \<and> ps_table s = zero_port \<and> none_ok s
      | PORT_INSTALLING \<Rightarrow>
          (\<exists>t. installing (ps_pc s t) \<and> pc_ok (ps_table s) (ps_pc s t) \<and> (\<forall>u. u \<noteq> t \<longrightarrow> ps_pc s u = I_Idle)) \<and> none_ok s
      | PORT_INSTALLED \<Rightarrow>
          (\<forall>t. \<not> installing (ps_pc s t)) \<and> port_complete (ps_table s) \<and>
          (\<forall>(t, p, err) \<in> set (ps_returned s). err = ESP_OK \<longrightarrow> p = Some (ps_table s)))"

lemmas port_step_simps = install_call_def give_def goto_def port_inv_def none_ok_def

lemma install_call_inv:
  assumes inv: "port_inv s" and idle: "ps_pc s t = I_Idle"
  shows "port_inv (install_call t port s)"
proof (cases "ps_state s")
  case PORT_NONE
  then show ?thesis using inv by (cases port) (auto simp: port_step_simps)
next
  case PORT_INSTALLING
  with inv obtain v where "installing (ps_pc s v)" "pc_ok (ps_table s) (ps_pc s v)" "\<forall>u. u \<noteq> v \<longrightarrow> ps_pc s u = I_Idle" "none_ok s"
    by (auto simp: port_inv_def)
  moreover from this(1) idle have "v \<noteq> t" by auto
  ultimately show ?thesis using PORT_INSTALLING by (cases port) (auto simp: port_step_simps intro!: exI [of _ v])
next
  case PORT_INSTALLED
  then show ?thesis using inv by (cases port) (auto simp: port_step_simps)
qed

lemma install_step_inv:
  assumes inv: "port_inv s" and busy: "ps_pc s t \<noteq> I_Idle"
  shows "port_inv (install_step run_init t (ps_pc s t) s)"
proof (cases "ps_state s")
  case PORT_NONE
  then show ?thesis using inv busy by (simp add: port_inv_def)
next
  case PORT_INSTALLING
  with inv obtain v where "installing (ps_pc s v)" "pc_ok (ps_table s) (ps_pc s v)" "\<forall>u. u \<noteq> v \<longrightarrow> ps_pc s u = I_Idle" "none_ok s"
    by (auto simp: port_inv_def)
  moreover from this(3) busy have "v = t" by metis
  ultimately have i: "installing (ps_pc s t)" "pc_ok (ps_table s) (ps_pc s t)" "\<forall>u. u \<noteq> t \<longrightarrow> ps_pc s u = I_Idle" "none_ok s"
    by simp_all
  show ?thesis
    using i PORT_INSTALLING prepared_complete [of run_init]
    by (cases "ps_pc s t") (auto simp: port_step_simps Let_def intro!: exI [of _ t])
next
  case PORT_INSTALLED
  with inv have "\<not> installing (ps_pc s t)" by (simp add: port_inv_def)
  then show ?thesis
    using inv busy PORT_INSTALLED by (cases "ps_pc s t") (auto simp: port_step_simps port_equal_eq)
qed

lemma port_inv_preserved: "port_inv s \<Longrightarrow> port_step run_init s s' \<Longrightarrow> port_inv s'"
  by (auto elim!: port_step.cases intro: install_call_inv install_step_inv)

interpretation port: inductive_invariant port_start "port_step run_init" port_inv
proof unfold_locales
  show "port_start s \<Longrightarrow> port_inv s" for s :: "('a, 'b) port_sys"
    by (simp add: port_start_def port_inv_def none_ok_def)
qed (rule port_inv_preserved)

text \<open>C23.
  Whatever the tasks that install and their interleaving: at most one of them writes the table, and only while no port is
  installed; an installed table is complete (every required operation, mutexes and HTTP whole or absent, HTTP only with
  mutexes and JSON); every call that reported success was given exactly the table that is installed; and once a port is installed no
  step changes the table or the state.\<close>

theorem installed_port_complete:
  assumes "reach port_start (port_step run_init) s" and "port_step run_init s s'"
  shows "(\<forall>t u. installing (ps_pc s t) \<and> installing (ps_pc s u) \<longrightarrow> t = u) \<and>
    (\<forall>t. installing (ps_pc s t) \<longrightarrow> ps_state s = PORT_INSTALLING) \<and>
    (port_is_installed s \<longrightarrow> port_complete (ps_table s) \<and> port_is_installed s' \<and> ps_table s' = ps_table s) \<and>
    (\<forall>(t, p, err) \<in> set (ps_returned s). err = ESP_OK \<longrightarrow> port_is_installed s \<and> p = Some (ps_table s))"
proof -
  have inv: "port_inv s" using port.reachable [OF assms(1)] .
  have stay: "port_is_installed s' \<and> ps_table s' = ps_table s" if "port_is_installed s"
    using assms(2)
  proof cases
    case (call t port)
    then show ?thesis using that by (cases port) (auto simp: port_is_installed_def port_step_simps)
  next
    case (run t)
    have "\<not> installing (ps_pc s t)" using inv that by (simp add: port_inv_def port_is_installed_def)
    with run(2) obtain p where "ps_pc s t = I_Compare p" by (cases "ps_pc s t") simp_all
    with that show ?thesis unfolding run(1) by (simp add: port_is_installed_def give_def goto_def)
  qed
  have busy: "installing (ps_pc s t) \<Longrightarrow> ps_state s = PORT_INSTALLING" for t
    using inv by (cases "ps_state s") (auto simp: port_inv_def)
  have one: "t = u" if "installing (ps_pc s t)" "installing (ps_pc s u)" for t u
  proof -
    from busy that(1) have "ps_state s = PORT_INSTALLING" .
    with inv obtain v where "\<forall>u. u \<noteq> v \<longrightarrow> ps_pc s u = I_Idle" by (auto simp: port_inv_def)
    then have "t = v" "u = v" using that by (cases "t = v"; cases "u = v"; simp)+
    then show ?thesis by simp
  qed
  have "port_is_installed s \<and> p = Some (ps_table s)" if "(t, p, err) \<in> set (ps_returned s)" "err = ESP_OK" for t p err
    using inv that by (cases "ps_state s") (auto simp: port_inv_def none_ok_def port_is_installed_def)
  moreover have "port_complete (ps_table s)" if "port_is_installed s"
    using inv that by (simp add: port_inv_def port_is_installed_def)
  ultimately show ?thesis using one busy stay by blast
qed

text \<open>Two tasks: one has installed a port, the other offers it again.\<close>

definition sample_port :: "nat port_config" where
  "sample_port = zero_port\<lparr>mem_malloc := Some 1, mem_calloc := Some 2, mem_free := Some 3, crypto_sha256_init := Some 4,
     crypto_sha256_update := Some 5, crypto_sha256_finish := Some 6, crypto_sha256_abort := Some 7, crypto_hmac_sha256 := Some 8,
     time_get_time := Some 9\<rparr>"

definition sample_install :: "nat \<Rightarrow> (bool, nat) port_sys \<Rightarrow> (bool, nat) port_sys" where
  "sample_install n s = ((\<lambda>s. install_step (\<lambda>_. ESP_OK) True (ps_pc s True) s) ^^ n) (install_call True (Some sample_port) s)"

definition sample_start :: "(bool, nat) port_sys" where
  "sample_start = \<lparr>ps_state = PORT_NONE, ps_table = zero_port, ps_pc = (\<lambda>_. I_Idle), ps_returned = []\<rparr>"

lemma sample_install_reach:
  "n \<le> 4 \<Longrightarrow> reach port_start (port_step (\<lambda>_. ESP_OK)) (sample_install n sample_start) \<and>
    ps_pc (sample_install n sample_start) True =
      [I_Log sample_port, I_Prepare sample_port, I_Copy sample_port, I_Publish sample_port, I_Idle] ! n"
proof (induction n)
  case 0
  have "reach port_start (port_step (\<lambda>_. ESP_OK)) sample_start" by (rule reach.start) (simp add: port_start_def sample_start_def)
  from reach.step [OF this port_step.call [of sample_start True _ "Some sample_port"]]
  show ?case by (simp add: sample_install_def sample_start_def install_call_def goto_def)
next
  case (Suc n)
  let ?s = "sample_install n sample_start"
  have n: "n = 0 \<or> n = 1 \<or> n = 2 \<or> n = 3" using Suc.prems by auto
  have prep: "port_prepare (\<lambda>_. ESP_OK) sample_port = ESP_OK"
    by (simp add: port_prepare_def sample_port_def zero_port_def mutex_set_def http_set_def set_count_def)
  have ih: "reach port_start (port_step (\<lambda>_. ESP_OK)) ?s"
    "ps_pc ?s True = [I_Log sample_port, I_Prepare sample_port, I_Copy sample_port, I_Publish sample_port, I_Idle] ! n"
    using Suc by auto
  have "ps_pc ?s True \<noteq> I_Idle" using n unfolding ih(2) by auto
  from reach.step [OF ih(1) port_step.run [OF this]]
  have "reach port_start (port_step (\<lambda>_. ESP_OK)) (sample_install (Suc n) sample_start)" by (simp add: sample_install_def)
  moreover have "ps_pc (sample_install (Suc n) sample_start) True = ps_pc (install_step (\<lambda>_. ESP_OK) True (ps_pc ?s True) ?s) True"
    by (simp add: sample_install_def)
  ultimately show ?case using n unfolding ih(2) by (auto simp: goto_def give_def prep)
qed

theorem installed_port_complete_witness:
  "port_complete (ps_table (sample_install 4 sample_start)) \<and>
    ps_table (install_call False (Some sample_port) (sample_install 4 sample_start)) = ps_table (sample_install 4 sample_start)"
proof -
  let ?s = "sample_install 4 sample_start"
  have r: "reach port_start (port_step (\<lambda>_. ESP_OK)) ?s" using sample_install_reach by auto
  have "port_prepare (\<lambda>_. ESP_OK) sample_port = ESP_OK"
    by (simp add: port_prepare_def sample_port_def zero_port_def mutex_set_def http_set_def set_count_def)
  then have "port_is_installed ?s" "ps_pc ?s False = I_Idle"
    by (simp_all add: sample_install_def sample_start_def port_is_installed_def install_call_def goto_def give_def eval_nat_numeral)
  with installed_port_complete [OF r port_step.call [of ?s False _ "Some sample_port"]] show ?thesis by auto
qed

end
