(* ===== verification/Esp_Port.thy ===== *)
theory Esp_Port
  imports Esp_Http Esp_Json Aws_Port
begin

section \<open>AWS signing: the ESP port as a whole\<close>

text \<open>
  \<open>components/rmaker_aws_sign/src/esp_rmaker_aws_sign_default.c\<close> and the tables of \<open>port/esp\<close>: the operations of \<open>Esp_Http\<close>
  and \<open>Esp_Json\<close> as the port that the credential client of \<open>Aws_Creds\<close> calls. \<open>esp_http_client\<close>, cJSON, \<open>time\<close> and the heap
  stay parameters.
\<close>

subsection \<open>The tables\<close>

text \<open>\<open>null\<close> is the handle of a failed \<open>open\<close>, which the core does not use.\<close>

definition esp_http_ops :: "('w, 'h) http_client \<Rightarrow> 'h \<Rightarrow> ('w, 'h) http_ops" where
  "esp_http_ops cl null =
     \<lparr>h_open = (\<lambda>cfg w. case esp_http_open cl cfg w of (err, h, w') \<Rightarrow> (err, case h of None \<Rightarrow> null | Some c \<Rightarrow> c, w')),
      h_set_url = esp_http_set_url cl, h_set_method = esp_http_set_method cl, h_set_header = esp_http_set_header cl,
      h_perform = (\<lambda>malloc_ok. esp_http_perform malloc_ok cl), h_status_code = esp_http_status_code cl, h_close = esp_http_close cl\<rparr>"

definition json_request :: "(string \<times> nat) list \<Rightarrow> json_field list" where
  "json_request flds = map (\<lambda>(k, n). \<lparr>jf_key = Some k, jf_buf = True, jf_buf_size = n\<rparr>) flds"

definition esp_json_ops ::
  "(string \<Rightarrow> cjson option) \<Rightarrow> (cjson \<Rightarrow> string \<Rightarrow> cjson option) \<Rightarrow> string \<Rightarrow> string \<Rightarrow> (string \<times> nat) list \<Rightarrow> string option list option" where
  "esp_json_ops parse get_item json object flds =
     (case esp_json_read_strs parse get_item json (Some object) (json_request flds) of
        (err, vs) \<Rightarrow> if err = ESP_OK then Some vs else None)"

definition esp_time_is_synced :: "('w \<Rightarrow> int) \<Rightarrow> 'w \<Rightarrow> bool" where
  "esp_time_is_synced time w \<longleftrightarrow> time w > MIN_VALID_EPOCH"

definition esp_aws_port ::
  "('w, 'h) http_client \<Rightarrow> 'h \<Rightarrow> (string \<Rightarrow> cjson option) \<Rightarrow> (cjson \<Rightarrow> string \<Rightarrow> cjson option) \<Rightarrow> ('w \<Rightarrow> int) \<Rightarrow> (nat \<Rightarrow> bool) \<Rightarrow>
     ('w, 'h) aws_port" where
  "esp_aws_port cl null parse get_item time malloc_ok =
     \<lparr>pt_http = esp_http_ops cl null, pt_get_time = time, pt_is_synced = Some (esp_time_is_synced time),
      pt_json = esp_json_ops parse get_item, pt_malloc = malloc_ok\<rparr>"

lemma esp_port_simps [simp]:
  "pt_http (esp_aws_port cl null parse get_item time malloc_ok) = esp_http_ops cl null"
  "pt_malloc (esp_aws_port cl null parse get_item time malloc_ok) = malloc_ok"
  "pt_json (esp_aws_port cl null parse get_item time malloc_ok) = esp_json_ops parse get_item"
  "h_perform (esp_http_ops cl null) = (\<lambda>malloc_ok. esp_http_perform malloc_ok cl)"
  "h_status_code (esp_http_ops cl null) = esp_http_status_code cl"
  by (simp_all add: esp_aws_port_def esp_http_ops_def)

text \<open>The ESP port is one the core may be installed on.\<close>

lemma esp_replies_ok:
  assumes "client_reads cl"
  shows "replies_ok (esp_aws_port cl null parse get_item time malloc_ok)"
  unfolding replies_ok_def
proof (intro allI impI)
  fix m conn body acc w
  assume "holds acc [] \<and> ac_status acc = ESP_OK"
  with perform_cases [OF assms, of acc m conn body w] show "\<exists>err acc' w' rp. h_perform (pt_http (esp_aws_port cl null parse get_item time malloc_ok)) m conn body acc w =
      Some (err, acc', w') \<and> reply_ok rp \<and> perform_into m rp acc = Some (err, acc')"
    by auto
qed

subsection \<open>Credentials over the ESP port\<close>

definition creds_fields :: "string \<Rightarrow> (string \<times> nat) list" where
  "creds_fields json =
     [(''accessKeyId'', AK_BUF_LEN), (''secretAccessKey'', SK_BUF_LEN),
      (''sessionToken'', if length json < CREDS_RESPONSE_MAX then length json + 1 else CREDS_RESPONSE_MAX), (''expiration'', EXP_BUF_LEN)]"

text \<open>The credentials that a response holds.\<close>

definition response_creds :: "(string \<Rightarrow> cjson option) \<Rightarrow> (cjson \<Rightarrow> string \<Rightarrow> cjson option) \<Rightarrow> string \<Rightarrow> aws_creds option" where
  "response_creds parse get_item json =
     (if json = [] \<or> \<not> strings_are_safe json then None
      else case Option.bind (parse json) (\<lambda>root. get_item root ''credentials'') of
        Some (CJ_Object items) \<Rightarrow>
          (case map (field_value items) (json_request (creds_fields json)) of
             [Some (Some ak), Some (Some sk), Some (Some tok), Some expiration] \<Rightarrow>
               Some (no_creds\<lparr>cr_keys := Some (ak, sk, tok),
                 cr_expiration := (case expiration of None \<Rightarrow> 0 | Some e \<Rightarrow> iso8601_to_epoch (Some e))\<rparr>)
           | _ \<Rightarrow> None)
      | _ \<Rightarrow> None)"

lemma parse_creds_esp:
  "parse_creds_json (esp_aws_port cl null parse get_item time malloc_ok) json = (ESP_OK, c) \<Longrightarrow> response_creds parse get_item json = Some c"
proof -
  assume p: "parse_creds_json (esp_aws_port cl null parse get_item time malloc_ok) json = (ESP_OK, c)"
  have f: "json_request (creds_fields json) \<noteq> []" "distinct (map jf_key (json_request (creds_fields json)))"
    by (simp_all add: json_request_def creds_fields_def)
  from p show ?thesis
    by (auto simp: parse_creds_json_def esp_json_ops_def Let_def creds_fields_def [symmetric] read_strs_result [OF f] response_creds_def
      split: if_splits option.splits list.splits cjson.splits)
qed


lemma exchange_esp:
  assumes "client_reads cl" and x: "creds_exchange (esp_aws_port cl null parse get_item time malloc_ok) conn w = Some (ESP_OK, c, w')"
  shows "\<exists>w1 w2 declared chunks. cl_fetch_headers cl conn w1 = (declared, w2) \<and> 0 \<le> declared \<and> reads_to_end cl conn w2 chunks w' \<and>
    length (concat chunks) \<le> CREDS_RESPONSE_MAX \<and> cl_get_status_code cl conn w' sdiv 100 = 2 \<and>
    response_creds parse get_item (concat chunks) = Some c"
proof -
  let ?p = "esp_aws_port cl null parse get_item time malloc_ok" and ?a = "accum_init CREDS_RESPONSE_MAX"
  have i: "holds ?a []" "ac_status ?a = ESP_OK" "ac_limit ?a = CREDS_RESPONSE_MAX"
    using holds_init [of CREDS_RESPONSE_MAX] by (simp_all add: CREDS_RESPONSE_MAX_def accum_init_def)
  from perform_cases [OF assms(1) i(1,2), of malloc_ok conn "[]" w] obtain err acc w1 and rp :: reply where
    pf: "esp_http_perform malloc_ok cl conn [] ?a w = Some (err, acc, w1)" and len: "ac_len acc \<le> CREDS_RESPONSE_MAX" and
    ok: "err = ESP_OK \<longrightarrow> holds acc (concat (rp_chunks rp)) \<and>
      (\<exists>w2 declared w3. cl_fetch_headers cl conn w2 = (declared, w3) \<and> 0 \<le> declared \<and> rp_hint rp = Some (usize (nat declared)) \<and>
        reads_to_end cl conn w3 (rp_chunks rp) w1)"
    unfolding i(3) by blast
  from x have st: "ac_status acc = ESP_OK" "err = ESP_OK" "cl_get_status_code cl conn w1 sdiv 100 = 2" "ac_len acc \<noteq> 0" "w' = w1"
    by (auto simp: creds_exchange_def pf Let_def esp_http_status_code_def split: if_splits option.splits prod.splits)
  from ok st(2) have h: "holds acc (concat (rp_chunks rp))" by simp
  from holds_text [OF h st(4)] obtain b where b: "ac_buf acc = Some b" "ac_len acc \<le> length b" "take (ac_len acc) b = map Some (concat (rp_chunks rp))" by blast
  then have "parse_creds_json ?p (concat (rp_chunks rp)) = (ESP_OK, c)"
    using x st by (auto simp: creds_exchange_def pf Let_def comp_def esp_http_status_code_def split: if_splits prod.splits)
  from parse_creds_esp [OF this] have "response_creds parse get_item (concat (rp_chunks rp)) = Some c" .
  moreover have "length (concat (rp_chunks rp)) \<le> CREDS_RESPONSE_MAX" using h len by (simp add: holds_def)
  ultimately show ?thesis using ok st by blast
qed



text \<open>A server that answers with two bytes, which cJSON reads as an object with credentials.\<close>

definition sample_answer :: cjson where
  "sample_answer = CJ_Object [(Some ''accessKeyId'', CJ_String (Some ''AK'')), (Some ''secretAccessKey'', CJ_String (Some ''SK'')),
     (Some ''sessionToken'', CJ_String (Some ''T''))]"

definition sample_esp_port :: "((int \<times> string) list, nat) aws_port" where
  "sample_esp_port = esp_aws_port sample_client 0 (\<lambda>_. Some (CJ_Object [])) (\<lambda>_ _. Some sample_answer) (\<lambda>_. 1780000000) (\<lambda>_. True)"

lemma sample_answer_transfer:
  "esp_http_perform (\<lambda>_. True) sample_client 0 [] (accum_init 4096) [(2, ''{}''), (0, [])] =
     Some (ESP_OK, sample_acc [Some CHR ''{'', Some CHR ''}'', Some CHR 0x00] 2, [])"
  by (simp add: esp_http_perform_def sample_client_def sample_hint sample_sink READ_CHUNK_LEN_def read_loop.simps)

lemma sample_fetch:
  "creds_fetch sample_esp_port sample_ctx ''role'' [(2, ''{}''), (0, [])] =
     Some (ESP_OK, no_creds\<lparr>cr_keys := Some (''AK'', ''SK'', ''T'')\<rparr>, [])"
proof -
  have o: "h_open (esp_http_ops sample_client 0) cfg w = (ESP_OK, 0, w)" "h_set_header (esp_http_ops sample_client 0) 0 n v w = (ESP_OK, w)"
    "h_close (esp_http_ops sample_client 0) 0 w = w" "esp_http_status_code sample_client 0 w = 200" for cfg w n v
    by (simp_all add: esp_http_ops_def esp_http_open_def esp_http_set_header_def esp_http_close_def esp_http_status_code_def sample_client_def)
  have "strings_are_safe ''{}''" by (simp add: strings_are_safe_def)
  then have j: "parse_creds_json sample_esp_port ''{}'' = (ESP_OK, no_creds\<lparr>cr_keys := Some (''AK'', ''SK'', ''T'')\<rparr>)"
    by (simp add: parse_creds_json_def sample_esp_port_def esp_json_ops_def esp_json_read_strs_def json_request_def clear_fields_def
      sample_answer_def AK_BUF_LEN_def SK_BUF_LEN_def EXP_BUF_LEN_def CREDS_RESPONSE_MAX_def c_str_def no_creds_def eval_nat_numeral)
  then show ?thesis
    by (simp add: creds_fetch_def creds_exchange_def sample_esp_port_def o CREDS_RESPONSE_MAX_def sample_answer_transfer sample_acc_def
      signed_divide_int_def take_Cons' Let_def)
qed


subsection \<open>The default port\<close>

text \<open>\<open>esp_rmaker_aws_sign_port_install_default\<close> installs this table; a function is given by its name.\<close>

definition esp_default_port :: "string port_config" where
  "esp_default_port =
     \<lparr>mem_malloc = Some ''esp_mem_malloc'', mem_calloc = Some ''esp_mem_calloc'', mem_free = Some ''esp_mem_free'',
      crypto_init = Some ''esp_crypto_init'', crypto_sha256_init = Some ''esp_sha256_init'', crypto_sha256_update = Some ''esp_sha256_update'',
      crypto_sha256_finish = Some ''esp_sha256_finish'', crypto_sha256_abort = Some ''esp_sha256_abort'',
      crypto_hmac_sha256 = Some ''esp_hmac_sha256'', time_get_time = Some ''esp_time_get'', time_is_synced = Some ''esp_time_is_synced'',
      mutex_create = Some ''esp_mutex_create'', mutex_lock = Some ''esp_mutex_lock'', mutex_unlock = Some ''esp_mutex_unlock'',
      mutex_destroy = Some ''esp_mutex_destroy'', http_open = Some ''esp_http_open'', http_set_url = Some ''esp_http_set_url'',
      http_set_method = Some ''esp_http_set_method'', http_set_header = Some ''esp_http_set_header'', http_perform = Some ''esp_http_perform'',
      http_status_code = Some ''esp_http_status_code'', http_close = Some ''esp_http_close'', json_read_strs = Some ''esp_json_read_strs'',
      port_log = Some ''esp_rmaker_aws_sign_esp_log''\<rparr>"

definition esp_crypto_init :: "bool \<Rightarrow> esp_err" where
  "esp_crypto_init psa_init_ok = (if psa_init_ok then ESP_OK else ESP_FAIL)"

text \<open>It is refused only when the crypto library does not start.\<close>

lemma default_port_prepares:
  "port_prepare (\<lambda>f. if f = ''esp_crypto_init'' then esp_crypto_init psa_init_ok else ESP_OK) esp_default_port =
    (if psa_init_ok then ESP_OK else ESP_FAIL)"
  by (simp add: port_prepare_def esp_default_port_def mutex_set_def http_set_def set_count_def esp_crypto_init_def)

end
