(* ===== verification/Esp_System.thy ===== *)
theory Esp_System
  imports Esp_Port Aws_Locks
begin

section \<open>AWS signing: memory, mutexes and log of the ESP port\<close>

text \<open>
  \<open>components/rmaker_aws_sign/port/esp\<close>: \<open>mem.c\<close>, \<open>mutex.c\<close> and \<open>log.c\<close>, with the logging function of
  \<open>esp_rmaker_aws_sign_port.c\<close> that calls the port. The heap of ESP-IDF and the semaphores of FreeRTOS are parameters. The mutexes are shown to
  be the ones that \<open>Aws_Locks\<close> assumes of a port.
\<close>

subsection \<open>Memory\<close>

datatype heap_cap = MALLOC_CAP_DEFAULT | MALLOC_CAP_SPIRAM | MALLOC_CAP_INTERNAL

record ('w, 'a) heap_ops =
  hp_malloc :: "nat \<Rightarrow> 'w \<Rightarrow> 'a option \<times> 'w"
  hp_calloc :: "nat \<Rightarrow> nat \<Rightarrow> 'w \<Rightarrow> 'a option \<times> 'w"
  hp_free :: "'a option \<Rightarrow> 'w \<Rightarrow> 'w"
  hp_malloc_prefer :: "nat \<Rightarrow> heap_cap set list \<Rightarrow> 'w \<Rightarrow> 'a option \<times> 'w"
  hp_calloc_prefer :: "nat \<Rightarrow> nat \<Rightarrow> heap_cap set list \<Rightarrow> 'w \<Rightarrow> 'a option \<times> 'w"

text \<open>\<open>spiram\<close>: the target has external RAM configured for allocation. What is preferred, and what is tried next.\<close>

definition extram_caps :: "heap_cap set list" where
  "extram_caps = [{MALLOC_CAP_DEFAULT, MALLOC_CAP_SPIRAM}, {MALLOC_CAP_DEFAULT, MALLOC_CAP_INTERNAL}]"

definition esp_mem_malloc :: "('w, 'a) heap_ops \<Rightarrow> bool \<Rightarrow> nat \<Rightarrow> 'w \<Rightarrow> 'a option \<times> 'w" where
  "esp_mem_malloc hp spiram bytes w = (if spiram then hp_malloc_prefer hp bytes extram_caps w else hp_malloc hp bytes w)"

definition esp_mem_calloc :: "('w, 'a) heap_ops \<Rightarrow> bool \<Rightarrow> nat \<Rightarrow> nat \<Rightarrow> 'w \<Rightarrow> 'a option \<times> 'w" where
  "esp_mem_calloc hp spiram num bytes w = (if spiram then hp_calloc_prefer hp num bytes extram_caps w else hp_calloc hp num bytes w)"

definition esp_mem_free :: "('w, 'a) heap_ops \<Rightarrow> 'a option \<Rightarrow> 'w \<Rightarrow> 'w" where
  "esp_mem_free hp ptr w = hp_free hp ptr w"

subsection \<open>Mutexes\<close>

text \<open>The calls of task \<open>i\<close>; \<open>sm_take\<close> is \<open>None\<close> while the task waits.\<close>

record ('w, 'm) semaphores =
  sm_create :: "'w \<Rightarrow> 'm option \<times> 'w"
  sm_take :: "nat \<Rightarrow> 'm \<Rightarrow> u32 \<Rightarrow> 'w \<Rightarrow> (bool \<times> 'w) option"
  sm_give :: "nat \<Rightarrow> 'm \<Rightarrow> 'w \<Rightarrow> bool \<times> 'w"
  sm_delete :: "'m \<Rightarrow> 'w \<Rightarrow> 'w"

definition portMAX_DELAY :: u32 where "portMAX_DELAY = 0xFFFFFFFF"

definition esp_mutex_create :: "('w, 'm) semaphores \<Rightarrow> 'w \<Rightarrow> 'm option \<times> 'w" where
  "esp_mutex_create sm w = sm_create sm w"

definition esp_mutex_lock :: "('w, 'm) semaphores \<Rightarrow> nat \<Rightarrow> 'm \<Rightarrow> 'w \<Rightarrow> 'w option" where
  "esp_mutex_lock sm i m w = map_option snd (sm_take sm i m portMAX_DELAY w)"

definition esp_mutex_unlock :: "('w, 'm) semaphores \<Rightarrow> nat \<Rightarrow> 'm \<Rightarrow> 'w \<Rightarrow> 'w" where
  "esp_mutex_unlock sm i m w = snd (sm_give sm i m w)"

definition esp_mutex_destroy :: "('w, 'm) semaphores \<Rightarrow> 'm \<Rightarrow> 'w \<Rightarrow> 'w" where
  "esp_mutex_destroy sm m w = sm_delete sm m w"

text \<open>FreeRTOS mutexes: a free one is taken at once; a take with no time limit goes on waiting for one that is held, and only a task
  with a limit gives up; the holder gives it back, and nobody else can.\<close>

definition mutexes_work :: "('w, 'm) semaphores \<Rightarrow> ('w \<Rightarrow> 'm \<Rightarrow> nat option) \<Rightarrow> bool" where
  "mutexes_work sm holder \<longleftrightarrow>
     (\<forall>i m t w. holder w m = None \<longrightarrow> (\<exists>w'. sm_take sm i m t w = Some (True, w') \<and> holder w' = (holder w)(m := Some i))) \<and>
     (\<forall>i m t w. holder w m \<noteq> None \<longrightarrow> (if t = portMAX_DELAY then sm_take sm i m t w = None else sm_take sm i m t w \<in> {None, Some (False, w)})) \<and>
     (\<forall>i m w. if holder w m = Some i then \<exists>w'. sm_give sm i m w = (True, w') \<and> holder w' = (holder w)(m := None) else sm_give sm i m w = (False, w))"

text \<open>On such mutexes, \<open>lock\<close> and \<open>unlock\<close> of the port are the steps of \<open>Aws_Locks\<close>; \<open>mx\<close> gives the three mutexes of a handle.\<close>

definition same_locks :: "('w \<Rightarrow> 'm \<Rightarrow> nat option) \<Rightarrow> (aws_mutex \<Rightarrow> 'm) \<Rightarrow> 'w \<Rightarrow> ('v, 'h) shared \<Rightarrow> bool" where
  "same_locks holder mx w s \<longleftrightarrow> (\<forall>m. sh_owner s m = holder w (mx m))"

lemma esp_lock_is_step:
  assumes "mutexes_work sm holder" and "inj mx" and "same_locks holder mx w s"
  shows "case esp_mutex_lock sm i (mx m) w of
      None \<Rightarrow> prog_step i (Lock m k) s = None
    | Some w' \<Rightarrow> \<exists>s'. prog_step i (Lock m k) s = Some (k, s') \<and> same_locks holder mx w' s'"
proof (cases "holder w (mx m)")
  case None
  with assms(1) obtain w' where "sm_take sm i (mx m) portMAX_DELAY w = Some (True, w')" "holder w' = (holder w)(mx m := Some i)"
    unfolding mutexes_work_def by blast
  with None assms(2,3) show ?thesis by (auto simp: esp_mutex_lock_def same_locks_def inj_eq)
next
  case (Some j)
  then have "sm_take sm i (mx m) portMAX_DELAY w = None" using assms(1) unfolding mutexes_work_def by fastforce
  with Some assms(3) show ?thesis by (simp add: esp_mutex_lock_def same_locks_def)
qed

lemma esp_unlock_is_step:
  assumes "mutexes_work sm holder" and "inj mx" and "same_locks holder mx w s" and "sh_owner s m = Some i"
  shows "\<exists>s'. prog_step i (Unlock m k) s = Some (k, s') \<and> same_locks holder mx (esp_mutex_unlock sm i (mx m) w) s'"
proof -
  from assms(3,4) have "holder w (mx m) = Some i" by (simp add: same_locks_def)
  with assms(1) obtain w' where "sm_give sm i (mx m) w = (True, w')" "holder w' = (holder w)(mx m := None)"
    unfolding mutexes_work_def by metis
  with assms(2,3) show ?thesis by (auto simp: esp_mutex_unlock_def same_locks_def inj_eq)
qed

text \<open>Semaphores that work so: the world is the holder of each.\<close>

definition plain_semaphores :: "('m \<Rightarrow> nat option, 'm) semaphores" where
  "plain_semaphores = \<lparr>sm_create = (\<lambda>w. (None, w)),
     sm_take = (\<lambda>i m t w. if w m = None then Some (True, w(m := Some i)) else None),
     sm_give = (\<lambda>i m w. if w m = Some i then (True, w(m := None)) else (False, w)), sm_delete = (\<lambda>m w. w)\<rparr>"

lemma plain_semaphores_work: "mutexes_work plain_semaphores (\<lambda>w. w)"
  by (simp add: mutexes_work_def plain_semaphores_def)

subsection \<open>Log\<close>

datatype log_level = LOG_ERROR | LOG_WARN | LOG_INFO | LOG_DEBUG | LOG_OTHER int

datatype esp_log_macro = ESP_LOGE | ESP_LOGW | ESP_LOGI | ESP_LOGD | ESP_LOGV

fun esp_log :: "log_level \<Rightarrow> string \<Rightarrow> string \<Rightarrow> esp_log_macro \<times> string \<times> string" where
  "esp_log LOG_ERROR tag message = (ESP_LOGE, tag, message)"
| "esp_log LOG_WARN tag message = (ESP_LOGW, tag, message)"
| "esp_log LOG_INFO tag message = (ESP_LOGI, tag, message)"
| "esp_log LOG_DEBUG tag message = (ESP_LOGD, tag, message)"
| "esp_log (LOG_OTHER n) tag message = (ESP_LOGV, tag, message)"

definition LOG_BUF_LEN :: nat where "LOG_BUF_LEN = 160"

text \<open>\<open>formatted\<close> is what the format and its arguments make; \<open>vsnprintf\<close> keeps what fits with a NUL. The result is the call of the port, if any.\<close>

definition aws_sign_log :: "(log_level \<Rightarrow> string \<Rightarrow> string \<Rightarrow> 'r) option \<Rightarrow> log_level \<Rightarrow> string \<Rightarrow> string \<Rightarrow> 'r option" where
  "aws_sign_log log level tag formatted =
     (case log of None \<Rightarrow> None | Some f \<Rightarrow> Some (f level tag (take (LOG_BUF_LEN - 1) formatted)))"

lemma log_message_fits:
  assumes "aws_sign_log (Some esp_log) level tag formatted = Some (macro, tag', message)"
  shows "tag' = tag \<and> length message < LOG_BUF_LEN \<and> (length formatted < LOG_BUF_LEN \<longrightarrow> message = formatted)"
  using assms by (cases level) (auto simp: aws_sign_log_def LOG_BUF_LEN_def)

end
