(* ===== verification/Console_Line.thy ===== *)
theory Console_Line
  imports Rmk_Prelude
begin

section \<open>The line editor of the serial console\<close>

text \<open>
  \<open>components/rmaker_console/src/rmaker_console.c\<close>: \<open>scli_task\<close>, in the build without the REPL. The UART driver is the list of what it
  delivers: a byte, a report that it dropped bytes, or anything else. \<open>stop\<close> is never set by the source, so it is not in the model;
  the echo is not modelled either. \<open>None\<close> is an access outside the line buffer.
\<close>

subsection \<open>One line\<close>

definition SCLI_LINE_SIZE :: nat where "SCLI_LINE_SIZE = 256"

datatype uart_input = U_Byte u8 | U_Overflow | U_Other

text \<open>How a line ends: a command for \<open>esp_console_run\<close>, nothing typed, too long, or bytes lost.\<close>

datatype line_end = L_Run bytes | L_Empty | L_Too_Long | L_Lost

record line =
  ln_buf :: bytes
  ln_i :: nat
  ln_overflow :: bool

definition new_line :: line where
  "new_line = \<lparr>ln_buf = replicate SCLI_LINE_SIZE 0, ln_i = 0, ln_overflow = False\<rparr>"

abbreviation (input) BS :: u8 where "BS \<equiv> 8"
abbreviation (input) LF :: u8 where "LF \<equiv> 10"
abbreviation (input) CR :: u8 where "CR \<equiv> 13"

text \<open>The line after the byte; the end of the line, when it is one.\<close>

definition line_finish :: "line \<Rightarrow> line_end" where
  "line_finish ln =
     (if ln_overflow ln then L_Too_Long else if ln_i ln = 0 then L_Empty else L_Run (takeWhile (\<lambda>c. c \<noteq> 0) (ln_buf ln)))"

definition line_byte :: "u8 \<Rightarrow> line \<Rightarrow> (line_end option \<times> line) option" where
  "line_byte c ln =
     (if c = CR \<or> c = LF then Some (Some (line_finish ln), ln)
      else if c = BS
      then (if ln_i ln > 0
            then map_option (\<lambda>b. (None, ln\<lparr>ln_buf := b, ln_i := ln_i ln - 1\<rparr>)) (wr (ln_buf ln) (int (ln_i ln) - 1) 0)
            else Some (None, ln))
      else if ln_i ln < SCLI_LINE_SIZE - 1
      then map_option (\<lambda>b. (None, ln\<lparr>ln_buf := b, ln_i := ln_i ln + 1\<rparr>)) (wr (ln_buf ln) (int (ln_i ln)) c)
      else Some (None, ln\<lparr>ln_overflow := True\<rparr>))"

fun line_input :: "uart_input \<Rightarrow> line \<Rightarrow> (line_end option \<times> line) option" where
  "line_input (U_Byte c) ln = line_byte c ln"
| "line_input U_Overflow ln = Some (Some L_Lost, ln)"
| "line_input U_Other ln = Some (None, ln)"

text \<open>The task: \<open>run\<close> is the result of the dispatcher, a negative one ends the task.\<close>

fun scli_task :: "(bytes \<Rightarrow> int) \<Rightarrow> uart_input list \<Rightarrow> line \<Rightarrow> line_end list option" where
  "scli_task run [] ln = Some []"
| "scli_task run (u # us) ln =
     (case line_input u ln of
        None \<Rightarrow> None
      | Some (None, ln') \<Rightarrow> scli_task run us ln'
      | Some (Some e, _) \<Rightarrow>
          if (case e of L_Run s \<Rightarrow> run s < 0 | _ \<Rightarrow> False) then Some [e]
          else map_option (Cons e) (scli_task run us new_line))"

subsection \<open>What reaches the dispatcher\<close>

text \<open>Typed text with backspaces applied, and whether the line was ever full when a character came.\<close>

definition typed :: "bytes \<Rightarrow> u8 \<Rightarrow> bytes" where
  "typed s c = (if c = BS then butlast s else s @ [c])"

fun edited :: "bytes \<Rightarrow> bytes \<Rightarrow> bytes option" where
  "edited s [] = Some s"
| "edited s (c # cs) = (if c \<noteq> BS \<and> length s = SCLI_LINE_SIZE - 1 then None else edited (typed s c) cs)"

definition command_of :: "bytes \<Rightarrow> line_end" where
  "command_of cs =
     (case edited [] cs of None \<Rightarrow> L_Too_Long | Some [] \<Rightarrow> L_Empty | Some s \<Rightarrow> L_Run (takeWhile (\<lambda>c. c \<noteq> 0) s))"

text \<open>The input cut at line ends and losses; the last piece has no end yet.\<close>

fun cut_input :: "bytes \<Rightarrow> uart_input list \<Rightarrow> line_end list" where
  "cut_input cs [] = []"
| "cut_input cs (U_Byte c # us) = (if c = CR \<or> c = LF then command_of cs # cut_input [] us else cut_input (cs @ [c]) us)"
| "cut_input cs (U_Overflow # us) = L_Lost # cut_input [] us"
| "cut_input cs (U_Other # us) = cut_input cs us"

text \<open>The line that holds a text.\<close>

definition line_of :: "bytes option \<Rightarrow> line \<Rightarrow> bool" where
  "line_of t ln \<longleftrightarrow>
     (case t of
        None \<Rightarrow> ln_overflow ln \<and> length (ln_buf ln) = SCLI_LINE_SIZE \<and> ln_i ln < SCLI_LINE_SIZE
      | Some s \<Rightarrow> \<not> ln_overflow ln \<and> ln_i ln = length s \<and> length s < SCLI_LINE_SIZE \<and>
          ln_buf ln = s @ replicate (SCLI_LINE_SIZE - length s) 0)"

lemma edited_snoc:
  "edited s (cs @ [c]) = (case edited s cs of None \<Rightarrow> None | Some t \<Rightarrow> if c \<noteq> BS \<and> length t = SCLI_LINE_SIZE - 1 then None else Some (typed t c))"
  by (induction s cs rule: edited.induct) auto

lemma new_line_of: "line_of (Some []) new_line"
  by (simp add: line_of_def new_line_def SCLI_LINE_SIZE_def)

lemma finish_command: "line_of (edited [] cs) ln \<Longrightarrow> line_finish ln = command_of cs"
proof (cases "edited [] cs")
  case (Some s)
  assume "line_of (edited [] cs) ln"
  with Some have ln: "\<not> ln_overflow ln" "ln_i ln = length s" "length s < SCLI_LINE_SIZE" "ln_buf ln = s @ replicate (SCLI_LINE_SIZE - length s) 0"
    by (simp_all add: line_of_def)
  have "takeWhile (\<lambda>c. c \<noteq> 0) (s @ replicate n 0) = takeWhile (\<lambda>c. c \<noteq> 0) s" for n :: nat
    by (induction s) (cases n; simp)+
  then show ?thesis using Some ln by (simp add: line_finish_def command_of_def split: list.split)
qed (simp add: line_of_def line_finish_def command_of_def)

lemma byte_edits:
  assumes "line_of (edited [] cs) ln" and "c \<noteq> CR" "c \<noteq> LF"
  shows "\<exists>ln'. line_byte c ln = Some (None, ln') \<and> line_of (edited [] (cs @ [c])) ln'"
proof (cases "edited [] cs")
  case None
  then have ln: "ln_overflow ln" "length (ln_buf ln) = SCLI_LINE_SIZE" "ln_i ln < SCLI_LINE_SIZE" using assms(1) by (simp_all add: line_of_def)
  have "edited [] (cs @ [c]) = None" using None by (simp add: edited_snoc)
  then show ?thesis using ln assms(2,3) by (auto simp: line_byte_def line_of_def wr_def)
next
  case (Some s)
  then have ln: "\<not> ln_overflow ln" "ln_i ln = length s" "length s < SCLI_LINE_SIZE" "ln_buf ln = s @ replicate (SCLI_LINE_SIZE - length s) 0"
    using assms(1) by (simp_all add: line_of_def)
  consider "c = BS" "s = []" | t x where "c = BS" "s = t @ [x]" | "c \<noteq> BS" "length s = SCLI_LINE_SIZE - 1" | "c \<noteq> BS" "length s < SCLI_LINE_SIZE - 1"
    using ln(3) by (cases s rule: rev_cases) fastforce+
  then show ?thesis
  proof cases
    case 1
    then show ?thesis using Some ln by (simp add: line_byte_def edited_snoc typed_def line_of_def)
  next
    case 2
    have "replicate (SCLI_LINE_SIZE - length t) (0 :: u8) = 0 # replicate (SCLI_LINE_SIZE - Suc (length t)) 0"
      using ln(3) 2 by (simp add: Suc_diff_Suc flip: replicate_Suc)
    then show ?thesis
      using Some ln 2 wr_append [of t x "replicate (SCLI_LINE_SIZE - Suc (length t)) 0" 0]
      by (simp add: line_byte_def edited_snoc typed_def line_of_def)
  next
    case 3
    then show ?thesis using Some ln assms by (simp add: line_byte_def edited_snoc line_of_def)
  next
    case 4
    have "replicate (SCLI_LINE_SIZE - length s) (0 :: u8) = 0 # replicate (SCLI_LINE_SIZE - Suc (length s)) 0"
      using ln(3) by (simp add: Suc_diff_Suc flip: replicate_Suc)
    then show ?thesis
      using Some ln 4 assms wr_append [of s 0 "replicate (SCLI_LINE_SIZE - Suc (length s)) 0" c]
      by (simp add: line_byte_def edited_snoc typed_def line_of_def)
  qed
qed

lemma task_cuts:
  assumes "line_of (edited [] cs) ln" and run: "\<And>s. 0 \<le> run s"
  shows "scli_task run us ln = Some (cut_input cs us)"
  using assms(1)
proof (induction us arbitrary: cs ln)
  case (Cons u us)
  have nl: "line_of (edited [] []) new_line" by (simp add: new_line_of)
  have go: "\<not> (case e of L_Run s \<Rightarrow> run s < 0 | _ \<Rightarrow> False)" for e
    using run by (auto split: line_end.split simp: not_less)
  show ?case
  proof (cases u)
    case (U_Byte c)
    show ?thesis
    proof (cases "c = CR \<or> c = LF")
      case True
      then have "line_byte c ln = Some (Some (command_of cs), ln)" using finish_command [OF Cons.prems] by (auto simp: line_byte_def)
      then show ?thesis using True U_Byte Cons.IH [OF nl] go by simp
    next
      case False
      with byte_edits [OF Cons.prems, of c] obtain ln' where "line_byte c ln = Some (None, ln')" "line_of (edited [] (cs @ [c])) ln'" by blast
      then show ?thesis using False U_Byte Cons.IH by simp
    qed
  qed (use Cons.IH [OF nl] Cons.IH [OF Cons.prems] in simp_all)
qed simp

text \<open>C27.
  The line editor never writes outside its 256 bytes, whatever arrives, and hands the dispatcher exactly the typed lines with
  backspaces applied (up to a NUL), as long as the dispatcher reports no negative result: the input is cut at CR, at LF and where the driver
  lost bytes, an empty line is skipped, a line that was full at 255 characters when another came is discarded as a whole, even if
  it was shortened again. Where bytes were lost only what came before is discarded: what is left of that line is taken for a line
  of its own and run.\<close>

theorem console_runs_lines:
  assumes "\<And>s. 0 \<le> run s"
  shows "scli_task run us new_line = Some (cut_input [] us) \<and>
    (\<forall>bs. BS \<notin> set bs \<longrightarrow> command_of bs = (if length bs > 255 then L_Too_Long else if bs = [] then L_Empty else L_Run (takeWhile (\<lambda>c. c \<noteq> 0) bs))) \<and>
    (\<forall>as bs. CR \<notin> set as \<union> set bs \<and> LF \<notin> set as \<union> set bs \<longrightarrow>
      cut_input [] (map U_Byte as @ U_Overflow # map U_Byte bs @ [U_Byte LF]) = [L_Lost, command_of bs])"
proof (intro conjI allI impI)
  show "scli_task run us new_line = Some (cut_input [] us)" by (rule task_cuts) (simp_all add: new_line_of assms)
next
  fix bs :: bytes assume bs: "BS \<notin> set bs"
  have "edited s bs = (if length s + length bs > 255 then None else Some (s @ bs))" if "length s \<le> 255" for s
    using bs that by (induction bs arbitrary: s) (auto simp: typed_def SCLI_LINE_SIZE_def)
  from this [of "[]"] show "command_of bs =
      (if length bs > 255 then L_Too_Long else if bs = [] then L_Empty else L_Run (takeWhile (\<lambda>c. c \<noteq> 0) bs))"
    by (auto simp: command_of_def split: list.split)
next
  fix as bs :: bytes assume *: "CR \<notin> set as \<union> set bs \<and> LF \<notin> set as \<union> set bs"
  have skip: "cut_input cs (map U_Byte xs @ us) = cut_input (cs @ xs) us" if "CR \<notin> set xs \<and> LF \<notin> set xs" for cs xs us
    using that by (induction xs arbitrary: cs) auto
  show "cut_input [] (map U_Byte as @ U_Overflow # map U_Byte bs @ [U_Byte LF]) = [L_Lost, command_of bs]"
    using * by (simp add: skip)
qed

theorem console_runs_lines_witness:
  "scli_task (\<lambda>_. 0) [U_Byte 104, U_Byte 120, U_Byte 8, U_Byte 105, U_Other, U_Byte 13, U_Byte 10] new_line = Some [L_Run [104, 105], L_Empty]"
  using console_runs_lines [of "\<lambda>_. 0" "[U_Byte 104, U_Byte 120, U_Byte 8, U_Byte 105, U_Other, U_Byte 13, U_Byte 10]"]
  by (simp add: command_of_def typed_def SCLI_LINE_SIZE_def)

end
