(* ===== verification/System_Ctrl.thy ===== *)
theory System_Ctrl
  imports State_Machine
begin

section \<open>System control: reboot, Wi-Fi reset, factory reset\<close>

text \<open>
  \<open>components/rmaker_system_ctrl/src/system_ctrl.c\<close>, as built for a device with Wi-Fi. A FreeRTOS one-shot timer is a parameter: whether
  it can be created and started, and the tick length. The state is the two timer handles and the number of \<open>reboot_delay\<close> blocks on the
  heap. A call returns \<open>None\<close> when \<open>esp_restart\<close> ends it. Calls and timer callbacks run one at a time.
\<close>

subsection \<open>State and environment\<close>

datatype sys_event = EV_REBOOT i8 | EV_WIFI_RESET | EV_FACTORY_RESET

datatype sys_out = Out_Event sys_event | Out_Restart | Out_Wifi_Restore | Out_Nvs_Deinit | Out_Nvs_Erase

datatype reset_cb = CB_WIFI | CB_FACTORY

text \<open>An armed timer: its period in ticks, and for the reset timer the id (the block with the reboot delay) and the callback.\<close>

record armed_reset =
  ar_ticks :: u32
  ar_id :: "i8 option"
  ar_cb :: reset_cb

record sys_ctrl =
  reboot_timer :: "u32 option"
  reset_timer :: "armed_reset option"
  delay_blocks :: nat

text \<open>What FreeRTOS and the heap answer to one call.\<close>

record timer_env =
  te_tick_ms :: u32
  te_create :: bool
  te_start :: bool
  te_calloc :: bool

definition powered_on :: sys_ctrl where
  "powered_on = \<lparr>reboot_timer = None, reset_timer = None, delay_blocks = 0\<rparr>"

text \<open>\<open>(seconds * 1000) / portTICK_PERIOD_MS\<close>: an \<open>int\<close> divided by a \<open>uint32_t\<close>.\<close>

definition timer_ticks :: "u32 \<Rightarrow> i8 \<Rightarrow> u32" where
  "timer_ticks tick_ms seconds = word_of_int (sint seconds * 1000) div tick_ms"

type_synonym sys_result = "esp_err option \<times> sys_ctrl \<times> sys_out list"

subsection \<open>Reboot\<close>

definition esp_rmaker_reboot :: "timer_env \<Rightarrow> i8 \<Rightarrow> sys_ctrl \<Rightarrow> sys_result" where
  "esp_rmaker_reboot env seconds st =
     (if seconds = 0 then (None, st, [Out_Event (EV_REBOOT seconds), Out_Restart])
      else if reboot_timer st \<noteq> None then (Some ESP_FAIL, st, [])
      else if \<not> te_create env then (Some ESP_ERR_NO_MEM, st, [])
      else if \<not> te_start env then (Some ESP_FAIL, st, [])
      else (Some ESP_OK, st\<lparr>reboot_timer := Some (timer_ticks (te_tick_ms env) seconds)\<rparr>, [Out_Event (EV_REBOOT seconds)]))"

definition reboot_cb :: "sys_ctrl \<Rightarrow> sys_result" where
  "reboot_cb st = (None, st\<lparr>reboot_timer := None\<rparr>, [Out_Restart])"

subsection \<open>The resets\<close>

text \<open>The optional reboot that ends a reset; its result is ignored unless it does not return.\<close>

definition then_reboot :: "timer_env \<Rightarrow> i8 \<Rightarrow> sys_ctrl \<Rightarrow> sys_out list \<Rightarrow> sys_result" where
  "then_reboot env reboot_seconds st outs =
     (if sint reboot_seconds \<ge> 0
      then case esp_rmaker_reboot env reboot_seconds st of
        (None, st1, outs1) \<Rightarrow> (None, st1, outs @ outs1)
      | (Some _, st1, outs1) \<Rightarrow> (Some ESP_OK, st1, outs @ outs1)
      else (Some ESP_OK, st, outs))"

definition wifi_reset_now :: "timer_env \<Rightarrow> i8 \<Rightarrow> sys_ctrl \<Rightarrow> sys_result" where
  "wifi_reset_now env reboot_seconds st = then_reboot env reboot_seconds st [Out_Wifi_Restore]"

definition factory_reset_now :: "timer_env \<Rightarrow> i8 \<Rightarrow> sys_ctrl \<Rightarrow> sys_result" where
  "factory_reset_now env reboot_seconds st = then_reboot env reboot_seconds st [Out_Nvs_Deinit, Out_Nvs_Erase, Out_Wifi_Restore]"

fun reset_now :: "reset_cb \<Rightarrow> timer_env \<Rightarrow> i8 \<Rightarrow> sys_ctrl \<Rightarrow> sys_result" where
  "reset_now CB_WIFI = wifi_reset_now"
| "reset_now CB_FACTORY = factory_reset_now"

text \<open>The callbacks of the reset timer.\<close>

definition free_delay :: "i8 option \<Rightarrow> sys_ctrl \<Rightarrow> sys_ctrl" where
  "free_delay block st = (case block of Some _ \<Rightarrow> st\<lparr>delay_blocks := delay_blocks st - 1\<rparr> | None \<Rightarrow> st)"

definition wifi_reset_cb :: "timer_env \<Rightarrow> i8 option \<Rightarrow> sys_ctrl \<Rightarrow> sys_result" where
  "wifi_reset_cb env block st =
     (case wifi_reset_now env (case block of Some b \<Rightarrow> b | None \<Rightarrow> 0) st of
        (None, st1, outs) \<Rightarrow> (None, st1, outs)
      | (Some _, st1, outs) \<Rightarrow> (Some ESP_OK, (free_delay block st1)\<lparr>reset_timer := None\<rparr>, outs))"

definition factory_reset_cb :: "timer_env \<Rightarrow> i8 option \<Rightarrow> sys_ctrl \<Rightarrow> sys_result" where
  "factory_reset_cb env block st =
     (case factory_reset_now env (case block of Some b \<Rightarrow> b | None \<Rightarrow> 0) st of
        (None, st1, outs) \<Rightarrow> (None, st1, outs)
      | (Some _, st1, outs) \<Rightarrow> (Some ESP_OK, (free_delay block st1)\<lparr>reset_timer := None\<rparr>, outs))"

definition start_reset_timer :: "timer_env \<Rightarrow> i8 \<Rightarrow> i8 \<Rightarrow> reset_cb \<Rightarrow> sys_ctrl \<Rightarrow> esp_err \<times> sys_ctrl" where
  "start_reset_timer env reset_seconds reboot_seconds cb st =
     (if reset_timer st \<noteq> None then (ESP_FAIL, st)
      else let block = (if te_calloc env then Some reboot_seconds else None);
               st1 = (if te_calloc env then st\<lparr>delay_blocks := delay_blocks st + 1\<rparr> else st)
           in if \<not> te_create env then (ESP_ERR_NO_MEM, st1)
              else if \<not> te_start env then (ESP_FAIL, st1)
              else (ESP_OK, st1\<lparr>reset_timer := Some \<lparr>ar_ticks = timer_ticks (te_tick_ms env) reset_seconds, ar_id = block, ar_cb = cb\<rparr>\<rparr>))"

definition esp_rmaker_wifi_reset :: "timer_env \<Rightarrow> i8 \<Rightarrow> i8 \<Rightarrow> sys_ctrl \<Rightarrow> sys_result" where
  "esp_rmaker_wifi_reset env reset_seconds reboot_seconds st =
     (if reset_seconds = 0
      then case wifi_reset_now env reboot_seconds st of
        (None, st1, outs) \<Rightarrow> (None, st1, outs)
      | (Some err, st1, outs) \<Rightarrow> (Some ESP_OK, st1, outs @ (if err = ESP_OK then [Out_Event EV_WIFI_RESET] else []))
      else case start_reset_timer env reset_seconds reboot_seconds CB_WIFI st of
        (err, st1) \<Rightarrow> (Some ESP_OK, st1, if err = ESP_OK then [Out_Event EV_WIFI_RESET] else []))"

definition esp_rmaker_factory_reset :: "timer_env \<Rightarrow> i8 \<Rightarrow> i8 \<Rightarrow> sys_ctrl \<Rightarrow> sys_result" where
  "esp_rmaker_factory_reset env reset_seconds reboot_seconds st =
     (if reset_seconds = 0
      then case factory_reset_now env reboot_seconds st of
        (None, st1, outs) \<Rightarrow> (None, st1, outs)
      | (Some err, st1, outs) \<Rightarrow> (Some ESP_OK, st1, outs @ (if err = ESP_OK then [Out_Event EV_FACTORY_RESET] else []))
      else case start_reset_timer env reset_seconds reboot_seconds CB_FACTORY st of
        (err, st1) \<Rightarrow> (Some ESP_OK, st1, if err = ESP_OK then [Out_Event EV_FACTORY_RESET] else []))"

subsection \<open>Runs\<close>

text \<open>A run between two restarts: the state and what was done since power-on. A restart begins a new one.\<close>

fun go_on :: "sys_out list \<Rightarrow> sys_result \<Rightarrow> sys_ctrl \<times> sys_out list" where
  "go_on l (None, st, outs) = (powered_on, [])"
| "go_on l (Some err, st, outs) = (st, l @ outs)"

fun run_reset_cb :: "reset_cb \<Rightarrow> timer_env \<Rightarrow> i8 option \<Rightarrow> sys_ctrl \<Rightarrow> sys_result" where
  "run_reset_cb CB_WIFI = wifi_reset_cb"
| "run_reset_cb CB_FACTORY = factory_reset_cb"

inductive sys_step :: "sys_ctrl \<times> sys_out list \<Rightarrow> sys_ctrl \<times> sys_out list \<Rightarrow> bool" where
  call_reboot: "sys_step (st, l) (go_on l (esp_rmaker_reboot env seconds st))"
| call_wifi_reset: "sys_step (st, l) (go_on l (esp_rmaker_wifi_reset env reset_seconds reboot_seconds st))"
| call_factory_reset: "sys_step (st, l) (go_on l (esp_rmaker_factory_reset env reset_seconds reboot_seconds st))"
| reboot_expires: "reboot_timer st \<noteq> None \<Longrightarrow> sys_step (st, l) (go_on l (reboot_cb st))"
| reset_expires: "reset_timer st = Some a \<Longrightarrow> sys_step (st, l) (go_on l (run_reset_cb (ar_cb a) env (ar_id a) st))"

definition sys_start :: "sys_ctrl \<times> sys_out list \<Rightarrow> bool" where
  "sys_start s \<longleftrightarrow> s = (powered_on, [])"

text \<open>Resets of a kind that are announced, performed and pending; reboots that are announced and pending.\<close>

definition pending :: "reset_cb \<Rightarrow> sys_ctrl \<Rightarrow> nat" where
  "pending cb st = (case reset_timer st of Some a \<Rightarrow> if ar_cb a = cb then 1 else 0 | None \<Rightarrow> 0)"

fun is_reboot_event :: "sys_out \<Rightarrow> bool" where
  "is_reboot_event (Out_Event (EV_REBOOT s)) = True"
| "is_reboot_event _ = False"

definition accounted :: "sys_ctrl \<times> sys_out list \<Rightarrow> bool" where
  "accounted s \<longleftrightarrow> (case s of (st, l) \<Rightarrow>
     count_list l (Out_Event EV_FACTORY_RESET) = count_list l Out_Nvs_Erase + pending CB_FACTORY st \<and>
     count_list l (Out_Event EV_WIFI_RESET) + count_list l Out_Nvs_Erase = count_list l Out_Wifi_Restore + pending CB_WIFI st \<and>
     length (filter is_reboot_event l) = (if reboot_timer st = None then 0 else 1) \<and>
     Out_Restart \<notin> set l \<and>
     (case reset_timer st of Some a \<Rightarrow> ar_id a \<noteq> None \<longrightarrow> delay_blocks st > 0 | None \<Rightarrow> True))"

lemmas sys_defs = wifi_reset_now_def factory_reset_now_def then_reboot_def wifi_reset_cb_def factory_reset_cb_def
  start_reset_timer_def esp_rmaker_wifi_reset_def esp_rmaker_factory_reset_def free_delay_def

lemma reboot_cases:
  "esp_rmaker_reboot env s st = (r, st', outs) \<Longrightarrow>
    r = None \<and> s = 0 \<or>
    r \<noteq> None \<and> s \<noteq> 0 \<and> outs = [] \<and> st' = st \<or>
    r = Some ESP_OK \<and> s \<noteq> 0 \<and> reboot_timer st = None \<and> outs = [Out_Event (EV_REBOOT s)] \<and>
      st' = st\<lparr>reboot_timer := Some (timer_ticks (te_tick_ms env) s)\<rparr>"
  by (auto simp: esp_rmaker_reboot_def split: if_splits)

lemma then_reboot_cases:
  "then_reboot env s st outs = (r, st', outs') \<Longrightarrow>
    r = None \<and> s = 0 \<or>
    r = Some ESP_OK \<and> outs' = outs \<and> st' = st \<or>
    r = Some ESP_OK \<and> reboot_timer st = None \<and> outs' = outs @ [Out_Event (EV_REBOOT s)] \<and>
      st' = st\<lparr>reboot_timer := Some (timer_ticks (te_tick_ms env) s)\<rparr>"
  using reboot_cases [of env s st]
  by (auto simp: then_reboot_def split: if_splits prod.splits option.splits)

lemma accounted_start: "accounted (powered_on, [])"
  by (simp add: accounted_def powered_on_def pending_def)

lemma accounted_reboot_event:
  "accounted (st, l) \<Longrightarrow> reboot_timer st = None \<Longrightarrow> accounted (st\<lparr>reboot_timer := Some t\<rparr>, l @ [Out_Event (EV_REBOOT s)])"
  by (cases "reset_timer st") (simp_all add: accounted_def pending_def)

lemma accounted_reboot:
  assumes "accounted (st, l)"
  shows "accounted (go_on l (esp_rmaker_reboot env s st))"
proof -
  obtain r st' outs where e: "esp_rmaker_reboot env s st = (r, st', outs)" by (rule prod_cases3)
  show ?thesis
    using reboot_cases [OF e] unfolding e
  proof (elim disjE)
    assume "r \<noteq> None \<and> s \<noteq> 0 \<and> outs = [] \<and> st' = st"
    then show "accounted (go_on l (r, st', outs))" using assms by (cases r) simp_all
  qed (use assms in \<open>simp_all add: accounted_reboot_event accounted_start\<close>)
qed

text \<open>What a reset does besides the reboot, and how it is announced.\<close>

fun reset_work :: "reset_cb \<Rightarrow> sys_out list" where
  "reset_work CB_WIFI = [Out_Wifi_Restore]"
| "reset_work CB_FACTORY = [Out_Nvs_Deinit, Out_Nvs_Erase, Out_Wifi_Restore]"

fun reset_event :: "reset_cb \<Rightarrow> sys_event" where
  "reset_event CB_WIFI = EV_WIFI_RESET"
| "reset_event CB_FACTORY = EV_FACTORY_RESET"

lemma reset_now_work: "reset_now cb env s st = then_reboot env s st (reset_work cb)"
  by (cases cb) (simp_all add: sys_defs)

lemma run_reset_cb_now:
  "run_reset_cb cb env block st =
     (case then_reboot env (case block of Some b \<Rightarrow> b | None \<Rightarrow> 0) st (reset_work cb) of
        (None, st1, outs) \<Rightarrow> (None, st1, outs)
      | (Some _, st1, outs) \<Rightarrow> (Some ESP_OK, (free_delay block st1)\<lparr>reset_timer := None\<rparr>, outs))"
  by (cases cb) (simp_all add: wifi_reset_cb_def factory_reset_cb_def wifi_reset_now_def factory_reset_now_def)

text \<open>The two calls have one shape.\<close>

fun call_reset :: "reset_cb \<Rightarrow> timer_env \<Rightarrow> i8 \<Rightarrow> i8 \<Rightarrow> sys_ctrl \<Rightarrow> sys_result" where
  "call_reset CB_WIFI = esp_rmaker_wifi_reset"
| "call_reset CB_FACTORY = esp_rmaker_factory_reset"

lemma call_reset_zero:
  "call_reset cb env 0 reboot_seconds st =
     (case then_reboot env reboot_seconds st (reset_work cb) of
        (None, st1, outs) \<Rightarrow> (None, st1, outs)
      | (Some err, st1, outs) \<Rightarrow> (Some ESP_OK, st1, outs @ (if err = ESP_OK then [Out_Event (reset_event cb)] else [])))"
  by (induction cb)
    (simp_all add: esp_rmaker_wifi_reset_def esp_rmaker_factory_reset_def wifi_reset_now_def factory_reset_now_def split: prod.split option.split)

lemma call_reset_later:
  "reset_seconds \<noteq> 0 \<Longrightarrow> call_reset cb env reset_seconds reboot_seconds st =
     (case start_reset_timer env reset_seconds reboot_seconds cb st of
        (err, st1) \<Rightarrow> (Some ESP_OK, st1, if err = ESP_OK then [Out_Event (reset_event cb)] else []))"
  by (induction cb) (simp_all add: esp_rmaker_wifi_reset_def esp_rmaker_factory_reset_def split: prod.split)

lemma accounted_work: "accounted (st, l) \<Longrightarrow> accounted (st, l @ reset_work cb @ [Out_Event (reset_event cb)])"
  by (cases cb; cases "reset_timer st") (simp_all add: accounted_def pending_def)

lemma accounted_append_swap: "accounted (st, l @ xs @ [y] @ [x]) = accounted (st, (l @ xs @ [x]) @ [y])"
  by (auto simp: accounted_def)

lemma accounted_expiry:
  "accounted (st, l) \<Longrightarrow> reset_timer st = Some a \<Longrightarrow> accounted ((free_delay (ar_id a) st)\<lparr>reset_timer := None\<rparr>, l @ reset_work (ar_cb a))"
  by (cases "ar_cb a"; cases "ar_id a") (simp_all add: accounted_def pending_def free_delay_def)

lemma accounted_call_zero:
  assumes "accounted (st, l)"
  shows "accounted (go_on l (call_reset cb env 0 s st))"
proof -
  obtain r st' outs where e: "then_reboot env s st (reset_work cb) = (r, st', outs)" by (rule prod_cases3)
  from then_reboot_cases [OF e] show ?thesis
    unfolding call_reset_zero e
  proof (elim disjE)
    assume "r = Some ESP_OK \<and> reboot_timer st = None \<and> outs = reset_work cb @ [Out_Event (EV_REBOOT s)] \<and>
      st' = st\<lparr>reboot_timer := Some (timer_ticks (te_tick_ms env) s)\<rparr>"
    then show "accounted (go_on l (case (r, st', outs) of (None, st1, outs) \<Rightarrow> (None, st1, outs)
      | (Some err, st1, outs) \<Rightarrow> (Some ESP_OK, st1, outs @ (if err = ESP_OK then [Out_Event (reset_event cb)] else []))))"
      using accounted_reboot_event [OF accounted_work [OF assms, of cb]] accounted_append_swap by simp
  qed (use accounted_work [OF assms] in \<open>simp_all add: accounted_start\<close>)
qed

lemma accounted_call_later:
  assumes "accounted (st, l)" and "reset_seconds \<noteq> 0"
  shows "accounted (go_on l (call_reset cb env reset_seconds s st))"
  using assms unfolding call_reset_later [OF assms(2)]
  by (cases cb; cases "reset_timer st") (simp_all add: start_reset_timer_def accounted_def pending_def Let_def)

lemma accounted_cb:
  assumes "accounted (st, l)" and a: "reset_timer st = Some a"
  shows "accounted (go_on l (run_reset_cb (ar_cb a) env (ar_id a) st))"
proof -
  let ?s = "case ar_id a of Some b \<Rightarrow> b | None \<Rightarrow> 0"
  obtain r st' outs where e: "then_reboot env ?s st (reset_work (ar_cb a)) = (r, st', outs)" by (rule prod_cases3)
  have move: "(free_delay b (st\<lparr>reboot_timer := t\<rparr>))\<lparr>reset_timer := None\<rparr> = (free_delay b st)\<lparr>reset_timer := None, reboot_timer := t\<rparr>" for b t
    by (cases b) (simp_all add: free_delay_def)
  have keep: "reboot_timer ((free_delay b st)\<lparr>reset_timer := None\<rparr>) = reboot_timer st" for b
    by (cases b) (simp_all add: free_delay_def)
  from then_reboot_cases [OF e] show ?thesis
    unfolding run_reset_cb_now e
    using accounted_expiry [OF assms] accounted_reboot_event [OF accounted_expiry [OF assms]] keep
    by (elim disjE) (simp_all add: accounted_start move)
qed

lemma accounted_preserved:
  assumes "accounted s" and "sys_step s s'"
  shows "accounted s'"
  using assms(2,1)
proof cases
  case (call_wifi_reset st l env reset_seconds reboot_seconds)
  then show ?thesis using assms(1) accounted_call_zero [of st l CB_WIFI] accounted_call_later [of st l reset_seconds CB_WIFI]
    by (cases "reset_seconds = 0") simp_all
next
  case (call_factory_reset st l env reset_seconds reboot_seconds)
  then show ?thesis using assms(1) accounted_call_zero [of st l CB_FACTORY] accounted_call_later [of st l reset_seconds CB_FACTORY]
    by (cases "reset_seconds = 0") simp_all
qed (use assms(1) in \<open>auto simp: accounted_reboot accounted_cb accounted_start reboot_cb_def\<close>)

interpretation sys: inductive_invariant sys_start sys_step accounted
  by unfold_locales (auto simp: sys_start_def accounted_start intro: accounted_preserved)

subsection \<open>What a request comes to\<close>

text \<open>
  A delayed reset request returns \<open>ESP_OK\<close> whatever happens; it is scheduled exactly when no reset is pending and the timer is created
  and started, and only then is it announced. Otherwise nothing is scheduled, and the block for the reboot delay, when it was
  allocated, stays on the heap. When a scheduled reset expires it does its work and frees the block; it reboots at once when the reboot delay
  is 0, and also, whatever delay was asked for (even none at all), when that block could not be allocated. A reset without a delay
  that reboots without a delay restarts before it is announced.\<close>

theorem reset_request_outcome:
  assumes "reset_seconds \<noteq> 0"
  shows "(case call_reset cb env reset_seconds reboot_seconds st of (r, st', outs) \<Rightarrow>
      r = Some ESP_OK \<and> reboot_timer st' = reboot_timer st \<and>
      (if reset_timer st = None \<and> te_create env \<and> te_start env
       then outs = [Out_Event (reset_event cb)] \<and>
         reset_timer st' = Some \<lparr>ar_ticks = timer_ticks (te_tick_ms env) reset_seconds,
           ar_id = (if te_calloc env then Some reboot_seconds else None), ar_cb = cb\<rparr>
       else outs = [] \<and> reset_timer st' = reset_timer st) \<and>
      delay_blocks st' = delay_blocks st + (if reset_timer st = None \<and> te_calloc env then 1 else 0)) \<and>
    (\<forall>block. case run_reset_cb cb env block st of (r, st', outs) \<Rightarrow>
      take (length (reset_work cb)) outs = reset_work cb \<and>
      (r = None \<longleftrightarrow> block = None \<or> block = Some 0) \<and> (r = None \<longrightarrow> Out_Restart \<in> set outs) \<and>
      (r \<noteq> None \<longrightarrow> reset_timer st' = None \<and> delay_blocks st' = delay_blocks st - 1)) \<and>
    call_reset cb env 0 0 st = (None, st, reset_work cb @ [Out_Event (EV_REBOOT 0), Out_Restart])"
proof (intro conjI allI)
  show "case call_reset cb env reset_seconds reboot_seconds st of (r, st', outs) \<Rightarrow>
      r = Some ESP_OK \<and> reboot_timer st' = reboot_timer st \<and>
      (if reset_timer st = None \<and> te_create env \<and> te_start env
       then outs = [Out_Event (reset_event cb)] \<and>
         reset_timer st' = Some \<lparr>ar_ticks = timer_ticks (te_tick_ms env) reset_seconds,
           ar_id = (if te_calloc env then Some reboot_seconds else None), ar_cb = cb\<rparr>
       else outs = [] \<and> reset_timer st' = reset_timer st) \<and>
      delay_blocks st' = delay_blocks st + (if reset_timer st = None \<and> te_calloc env then 1 else 0)"
    unfolding call_reset_later [OF assms] by (auto simp: start_reset_timer_def Let_def)
  show "case run_reset_cb cb env block st of (r, st', outs) \<Rightarrow>
      take (length (reset_work cb)) outs = reset_work cb \<and>
      (r = None \<longleftrightarrow> block = None \<or> block = Some 0) \<and> (r = None \<longrightarrow> Out_Restart \<in> set outs) \<and>
      (r \<noteq> None \<longrightarrow> reset_timer st' = None \<and> delay_blocks st' = delay_blocks st - 1)" for block
    by (cases block) (auto simp: run_reset_cb_now then_reboot_def esp_rmaker_reboot_def free_delay_def)
  show "call_reset cb env 0 0 st = (None, st, reset_work cb @ [Out_Event (EV_REBOOT 0), Out_Restart])"
    by (simp add: call_reset_zero then_reboot_def esp_rmaker_reboot_def)
qed

theorem reset_request_outcome_witness:
  "fst (esp_rmaker_factory_reset \<lparr>te_tick_ms = 10, te_create = True, te_start = False, te_calloc = True\<rparr> 5 (- 1) powered_on) = Some ESP_OK \<and>
   delay_blocks (fst (snd (esp_rmaker_factory_reset \<lparr>te_tick_ms = 10, te_create = True, te_start = False, te_calloc = True\<rparr> 5 (- 1) powered_on))) = 1"
  using conjunct1 [OF reset_request_outcome [where reset_seconds = 5 and cb = CB_FACTORY and reboot_seconds = "- 1" and st = powered_on and
     env = "\<lparr>te_tick_ms = 10, te_create = True, te_start = False, te_calloc = True\<rparr>"]]
  by (auto simp: powered_on_def split: prod.splits)


definition sample_timer :: timer_env where
  "sample_timer = \<lparr>te_tick_ms = 10, te_create = True, te_start = True, te_calloc = True\<rparr>"


end
