(* ===== verification/Tz_Db.thy ===== *)
theory Tz_Db
  imports Rmk_Prelude "HOL-Library.List_Lexorder"
begin

section \<open>Time zone database\<close>

text \<open>
  \<open>components/rmaker_time_sync/src/timezone.c\<close>: the table of zone names and POSIX strings, the comparison that ignores
  case and underscores, and the binary search. C strings are lists of characters without their terminator; a character is
  compared by its unsigned code, as on the ESP targets. The table is split by continent, in the order of the source.
\<close>

subsection \<open>The table\<close>

type_synonym tz_db_pair = "string \<times> string"

definition tz_africa :: "tz_db_pair list" where
  "tz_africa = [
    (''Africa/Abidjan'', ''GMT0''),
    (''Africa/Accra'', ''GMT0''),
    (''Africa/Addis_Ababa'', ''EAT-3''),
    (''Africa/Algiers'', ''CET-1''),
    (''Africa/Asmara'', ''EAT-3''),
    (''Africa/Bamako'', ''GMT0''),
    (''Africa/Bangui'', ''WAT-1''),
    (''Africa/Banjul'', ''GMT0''),
    (''Africa/Bissau'', ''GMT0''),
    (''Africa/Blantyre'', ''CAT-2''),
    (''Africa/Brazzaville'', ''WAT-1''),
    (''Africa/Bujumbura'', ''CAT-2''),
    (''Africa/Cairo'', ''EET-2''),
    (''Africa/Casablanca'', ''<+01>-1''),
    (''Africa/Ceuta'', ''CET-1CEST,M3.5.0,M10.5.0/3''),
    (''Africa/Conakry'', ''GMT0''),
    (''Africa/Dakar'', ''GMT0''),
    (''Africa/Dar_es_Salaam'', ''EAT-3''),
    (''Africa/Djibouti'', ''EAT-3''),
    (''Africa/Douala'', ''WAT-1''),
    (''Africa/El_Aaiun'', ''<+01>-1''),
    (''Africa/Freetown'', ''GMT0''),
    (''Africa/Gaborone'', ''CAT-2''),
    (''Africa/Harare'', ''CAT-2''),
    (''Africa/Johannesburg'', ''SAST-2''),
    (''Africa/Juba'', ''EAT-3''),
    (''Africa/Kampala'', ''EAT-3''),
    (''Africa/Khartoum'', ''CAT-2''),
    (''Africa/Kigali'', ''CAT-2''),
    (''Africa/Kinshasa'', ''WAT-1''),
    (''Africa/Lagos'', ''WAT-1''),
    (''Africa/Libreville'', ''WAT-1''),
    (''Africa/Lome'', ''GMT0''),
    (''Africa/Luanda'', ''WAT-1''),
    (''Africa/Lubumbashi'', ''CAT-2''),
    (''Africa/Lusaka'', ''CAT-2''),
    (''Africa/Malabo'', ''WAT-1''),
    (''Africa/Maputo'', ''CAT-2''),
    (''Africa/Maseru'', ''SAST-2''),
    (''Africa/Mbabane'', ''SAST-2''),
    (''Africa/Mogadishu'', ''EAT-3''),
    (''Africa/Monrovia'', ''GMT0''),
    (''Africa/Nairobi'', ''EAT-3''),
    (''Africa/Ndjamena'', ''WAT-1''),
    (''Africa/Niamey'', ''WAT-1''),
    (''Africa/Nouakchott'', ''GMT0''),
    (''Africa/Ouagadougou'', ''GMT0''),
    (''Africa/Porto-Novo'', ''WAT-1''),
    (''Africa/Sao_Tome'', ''GMT0''),
    (''Africa/Tripoli'', ''EET-2''),
    (''Africa/Tunis'', ''CET-1''),
    (''Africa/Windhoek'', ''CAT-2'')]"

definition tz_america :: "tz_db_pair list" where
  "tz_america = [
    (''America/Adak'', ''HST10HDT,M3.2.0,M11.1.0''),
    (''America/Anchorage'', ''AKST9AKDT,M3.2.0,M11.1.0''),
    (''America/Anguilla'', ''AST4''),
    (''America/Antigua'', ''AST4''),
    (''America/Araguaina'', ''<-03>3''),
    (''America/Argentina/Buenos_Aires'', ''<-03>3''),
    (''America/Argentina/Catamarca'', ''<-03>3''),
    (''America/Argentina/Cordoba'', ''<-03>3''),
    (''America/Argentina/Jujuy'', ''<-03>3''),
    (''America/Argentina/La_Rioja'', ''<-03>3''),
    (''America/Argentina/Mendoza'', ''<-03>3''),
    (''America/Argentina/Rio_Gallegos'', ''<-03>3''),
    (''America/Argentina/Salta'', ''<-03>3''),
    (''America/Argentina/San_Juan'', ''<-03>3''),
    (''America/Argentina/San_Luis'', ''<-03>3''),
    (''America/Argentina/Tucuman'', ''<-03>3''),
    (''America/Argentina/Ushuaia'', ''<-03>3''),
    (''America/Aruba'', ''AST4''),
    (''America/Asuncion'', ''<-04>4<-03>,M10.1.0/0,M3.4.0/0''),
    (''America/Atikokan'', ''EST5''),
    (''America/Bahia'', ''<-03>3''),
    (''America/Bahia_Banderas'', ''CST6CDT,M4.1.0,M10.5.0''),
    (''America/Barbados'', ''AST4''),
    (''America/Belem'', ''<-03>3''),
    (''America/Belize'', ''CST6''),
    (''America/Blanc-Sablon'', ''AST4''),
    (''America/Boa_Vista'', ''<-04>4''),
    (''America/Bogota'', ''<-05>5''),
    (''America/Boise'', ''MST7MDT,M3.2.0,M11.1.0''),
    (''America/Cambridge_Bay'', ''MST7MDT,M3.2.0,M11.1.0''),
    (''America/Campo_Grande'', ''<-04>4''),
    (''America/Cancun'', ''EST5''),
    (''America/Caracas'', ''<-04>4''),
    (''America/Cayenne'', ''<-03>3''),
    (''America/Cayman'', ''EST5''),
    (''America/Chicago'', ''CST6CDT,M3.2.0,M11.1.0''),
    (''America/Chihuahua'', ''MST7MDT,M4.1.0,M10.5.0''),
    (''America/Costa_Rica'', ''CST6''),
    (''America/Creston'', ''MST7''),
    (''America/Cuiaba'', ''<-04>4''),
    (''America/Curacao'', ''AST4''),
    (''America/Danmarkshavn'', ''GMT0''),
    (''America/Dawson'', ''MST7''),
    (''America/Dawson_Creek'', ''MST7''),
    (''America/Denver'', ''MST7MDT,M3.2.0,M11.1.0''),
    (''America/Detroit'', ''EST5EDT,M3.2.0,M11.1.0''),
    (''America/Dominica'', ''AST4''),
    (''America/Edmonton'', ''MST7MDT,M3.2.0,M11.1.0''),
    (''America/Eirunepe'', ''<-05>5''),
    (''America/El_Salvador'', ''CST6''),
    (''America/Fortaleza'', ''<-03>3''),
    (''America/Fort_Nelson'', ''MST7''),
    (''America/Glace_Bay'', ''AST4ADT,M3.2.0,M11.1.0''),
    (''America/Godthab'', ''<-03>3<-02>,M3.5.0/-2,M10.5.0/-1''),
    (''America/Goose_Bay'', ''AST4ADT,M3.2.0,M11.1.0''),
    (''America/Grand_Turk'', ''EST5EDT,M3.2.0,M11.1.0''),
    (''America/Grenada'', ''AST4''),
    (''America/Guadeloupe'', ''AST4''),
    (''America/Guatemala'', ''CST6''),
    (''America/Guayaquil'', ''<-05>5''),
    (''America/Guyana'', ''<-04>4''),
    (''America/Halifax'', ''AST4ADT,M3.2.0,M11.1.0''),
    (''America/Havana'', ''CST5CDT,M3.2.0/0,M11.1.0/1''),
    (''America/Hermosillo'', ''MST7''),
    (''America/Indiana/Indianapolis'', ''EST5EDT,M3.2.0,M11.1.0''),
    (''America/Indiana/Knox'', ''CST6CDT,M3.2.0,M11.1.0''),
    (''America/Indiana/Marengo'', ''EST5EDT,M3.2.0,M11.1.0''),
    (''America/Indiana/Petersburg'', ''EST5EDT,M3.2.0,M11.1.0''),
    (''America/Indiana/Tell_City'', ''CST6CDT,M3.2.0,M11.1.0''),
    (''America/Indiana/Vevay'', ''EST5EDT,M3.2.0,M11.1.0''),
    (''America/Indiana/Vincennes'', ''EST5EDT,M3.2.0,M11.1.0''),
    (''America/Indiana/Winamac'', ''EST5EDT,M3.2.0,M11.1.0''),
    (''America/Inuvik'', ''MST7MDT,M3.2.0,M11.1.0''),
    (''America/Iqaluit'', ''EST5EDT,M3.2.0,M11.1.0''),
    (''America/Jamaica'', ''EST5''),
    (''America/Juneau'', ''AKST9AKDT,M3.2.0,M11.1.0''),
    (''America/Kentucky/Louisville'', ''EST5EDT,M3.2.0,M11.1.0''),
    (''America/Kentucky/Monticello'', ''EST5EDT,M3.2.0,M11.1.0''),
    (''America/Kralendijk'', ''AST4''),
    (''America/La_Paz'', ''<-04>4''),
    (''America/Lima'', ''<-05>5''),
    (''America/Los_Angeles'', ''PST8PDT,M3.2.0,M11.1.0''),
    (''America/Lower_Princes'', ''AST4''),
    (''America/Maceio'', ''<-03>3''),
    (''America/Managua'', ''CST6''),
    (''America/Manaus'', ''<-04>4''),
    (''America/Marigot'', ''AST4''),
    (''America/Martinique'', ''AST4''),
    (''America/Matamoros'', ''CST6CDT,M3.2.0,M11.1.0''),
    (''America/Mazatlan'', ''MST7MDT,M4.1.0,M10.5.0''),
    (''America/Menominee'', ''CST6CDT,M3.2.0,M11.1.0''),
    (''America/Merida'', ''CST6CDT,M4.1.0,M10.5.0''),
    (''America/Metlakatla'', ''AKST9AKDT,M3.2.0,M11.1.0''),
    (''America/Mexico_City'', ''CST6CDT,M4.1.0,M10.5.0''),
    (''America/Miquelon'', ''<-03>3<-02>,M3.2.0,M11.1.0''),
    (''America/Moncton'', ''AST4ADT,M3.2.0,M11.1.0''),
    (''America/Monterrey'', ''CST6CDT,M4.1.0,M10.5.0''),
    (''America/Montevideo'', ''<-03>3''),
    (''America/Montreal'', ''EST5EDT,M3.2.0,M11.1.0''),
    (''America/Montserrat'', ''AST4''),
    (''America/Nassau'', ''EST5EDT,M3.2.0,M11.1.0''),
    (''America/New_York'', ''EST5EDT,M3.2.0,M11.1.0''),
    (''America/Nipigon'', ''EST5EDT,M3.2.0,M11.1.0''),
    (''America/Nome'', ''AKST9AKDT,M3.2.0,M11.1.0''),
    (''America/Noronha'', ''<-02>2''),
    (''America/North_Dakota/Beulah'', ''CST6CDT,M3.2.0,M11.1.0''),
    (''America/North_Dakota/Center'', ''CST6CDT,M3.2.0,M11.1.0''),
    (''America/North_Dakota/New_Salem'', ''CST6CDT,M3.2.0,M11.1.0''),
    (''America/Ojinaga'', ''MST7MDT,M3.2.0,M11.1.0''),
    (''America/Panama'', ''EST5''),
    (''America/Pangnirtung'', ''EST5EDT,M3.2.0,M11.1.0''),
    (''America/Paramaribo'', ''<-03>3''),
    (''America/Phoenix'', ''MST7''),
    (''America/Port-au-Prince'', ''EST5EDT,M3.2.0,M11.1.0''),
    (''America/Port_of_Spain'', ''AST4''),
    (''America/Porto_Velho'', ''<-04>4''),
    (''America/Puerto_Rico'', ''AST4''),
    (''America/Punta_Arenas'', ''<-03>3''),
    (''America/Rainy_River'', ''CST6CDT,M3.2.0,M11.1.0''),
    (''America/Rankin_Inlet'', ''CST6CDT,M3.2.0,M11.1.0''),
    (''America/Recife'', ''<-03>3''),
    (''America/Regina'', ''CST6''),
    (''America/Resolute'', ''CST6CDT,M3.2.0,M11.1.0''),
    (''America/Rio_Branco'', ''<-05>5''),
    (''America/Santarem'', ''<-03>3''),
    (''America/Santiago'', ''<-04>4<-03>,M9.1.6/24,M4.1.6/24''),
    (''America/Santo_Domingo'', ''AST4''),
    (''America/Sao_Paulo'', ''<-03>3''),
    (''America/Scoresbysund'', ''<-01>1<+00>,M3.5.0/0,M10.5.0/1''),
    (''America/Sitka'', ''AKST9AKDT,M3.2.0,M11.1.0''),
    (''America/St_Barthelemy'', ''AST4''),
    (''America/St_Johns'', ''NST3:30NDT,M3.2.0,M11.1.0''),
    (''America/St_Kitts'', ''AST4''),
    (''America/St_Lucia'', ''AST4''),
    (''America/St_Thomas'', ''AST4''),
    (''America/St_Vincent'', ''AST4''),
    (''America/Swift_Current'', ''CST6''),
    (''America/Tegucigalpa'', ''CST6''),
    (''America/Thule'', ''AST4ADT,M3.2.0,M11.1.0''),
    (''America/Thunder_Bay'', ''EST5EDT,M3.2.0,M11.1.0''),
    (''America/Tijuana'', ''PST8PDT,M3.2.0,M11.1.0''),
    (''America/Toronto'', ''EST5EDT,M3.2.0,M11.1.0''),
    (''America/Tortola'', ''AST4''),
    (''America/Vancouver'', ''PST8PDT,M3.2.0,M11.1.0''),
    (''America/Whitehorse'', ''MST7''),
    (''America/Winnipeg'', ''CST6CDT,M3.2.0,M11.1.0''),
    (''America/Yakutat'', ''AKST9AKDT,M3.2.0,M11.1.0''),
    (''America/Yellowknife'', ''MST7MDT,M3.2.0,M11.1.0'')]"

definition tz_antarctica_arctic :: "tz_db_pair list" where
  "tz_antarctica_arctic = [
    (''Antarctica/Casey'', ''<+08>-8''),
    (''Antarctica/Davis'', ''<+07>-7''),
    (''Antarctica/DumontDUrville'', ''<+10>-10''),
    (''Antarctica/Macquarie'', ''<+11>-11''),
    (''Antarctica/Mawson'', ''<+05>-5''),
    (''Antarctica/McMurdo'', ''NZST-12NZDT,M9.5.0,M4.1.0/3''),
    (''Antarctica/Palmer'', ''<-03>3''),
    (''Antarctica/Rothera'', ''<-03>3''),
    (''Antarctica/Syowa'', ''<+03>-3''),
    (''Antarctica/Troll'', ''<+00>0<+02>-2,M3.5.0/1,M10.5.0/3''),
    (''Antarctica/Vostok'', ''<+06>-6''),
    (''Arctic/Longyearbyen'', ''CET-1CEST,M3.5.0,M10.5.0/3'')]"

definition tz_asia :: "tz_db_pair list" where
  "tz_asia = [
    (''Asia/Aden'', ''<+03>-3''),
    (''Asia/Almaty'', ''<+06>-6''),
    (''Asia/Amman'', ''EET-2EEST,M3.5.4/24,M10.5.5/1''),
    (''Asia/Anadyr'', ''<+12>-12''),
    (''Asia/Aqtau'', ''<+05>-5''),
    (''Asia/Aqtobe'', ''<+05>-5''),
    (''Asia/Ashgabat'', ''<+05>-5''),
    (''Asia/Atyrau'', ''<+05>-5''),
    (''Asia/Baghdad'', ''<+03>-3''),
    (''Asia/Bahrain'', ''<+03>-3''),
    (''Asia/Baku'', ''<+04>-4''),
    (''Asia/Bangkok'', ''<+07>-7''),
    (''Asia/Barnaul'', ''<+07>-7''),
    (''Asia/Beirut'', ''EET-2EEST,M3.5.0/0,M10.5.0/0''),
    (''Asia/Bishkek'', ''<+06>-6''),
    (''Asia/Brunei'', ''<+08>-8''),
    (''Asia/Chita'', ''<+09>-9''),
    (''Asia/Choibalsan'', ''<+08>-8''),
    (''Asia/Colombo'', ''<+0530>-5:30''),
    (''Asia/Damascus'', ''EET-2EEST,M3.5.5/0,M10.5.5/0''),
    (''Asia/Dhaka'', ''<+06>-6''),
    (''Asia/Dili'', ''<+09>-9''),
    (''Asia/Dubai'', ''<+04>-4''),
    (''Asia/Dushanbe'', ''<+05>-5''),
    (''Asia/Famagusta'', ''EET-2EEST,M3.5.0/3,M10.5.0/4''),
    (''Asia/Gaza'', ''EET-2EEST,M3.5.5/0,M10.5.6/1''),
    (''Asia/Hebron'', ''EET-2EEST,M3.5.5/0,M10.5.6/1''),
    (''Asia/Ho_Chi_Minh'', ''<+07>-7''),
    (''Asia/Hong_Kong'', ''HKT-8''),
    (''Asia/Hovd'', ''<+07>-7''),
    (''Asia/Irkutsk'', ''<+08>-8''),
    (''Asia/Jakarta'', ''WIB-7''),
    (''Asia/Jayapura'', ''WIT-9''),
    (''Asia/Jerusalem'', ''IST-2IDT,M3.4.4/26,M10.5.0''),
    (''Asia/Kabul'', ''<+0430>-4:30''),
    (''Asia/Kamchatka'', ''<+12>-12''),
    (''Asia/Karachi'', ''PKT-5''),
    (''Asia/Kathmandu'', ''<+0545>-5:45''),
    (''Asia/Khandyga'', ''<+09>-9''),
    (''Asia/Kolkata'', ''IST-5:30''),
    (''Asia/Krasnoyarsk'', ''<+07>-7''),
    (''Asia/Kuala_Lumpur'', ''<+08>-8''),
    (''Asia/Kuching'', ''<+08>-8''),
    (''Asia/Kuwait'', ''<+03>-3''),
    (''Asia/Macau'', ''CST-8''),
    (''Asia/Magadan'', ''<+11>-11''),
    (''Asia/Makassar'', ''WITA-8''),
    (''Asia/Manila'', ''PST-8''),
    (''Asia/Muscat'', ''<+04>-4''),
    (''Asia/Nicosia'', ''EET-2EEST,M3.5.0/3,M10.5.0/4''),
    (''Asia/Novokuznetsk'', ''<+07>-7''),
    (''Asia/Novosibirsk'', ''<+07>-7''),
    (''Asia/Omsk'', ''<+06>-6''),
    (''Asia/Oral'', ''<+05>-5''),
    (''Asia/Phnom_Penh'', ''<+07>-7''),
    (''Asia/Pontianak'', ''WIB-7''),
    (''Asia/Pyongyang'', ''KST-9''),
    (''Asia/Qatar'', ''<+03>-3''),
    (''Asia/Qyzylorda'', ''<+05>-5''),
    (''Asia/Riyadh'', ''<+03>-3''),
    (''Asia/Sakhalin'', ''<+11>-11''),
    (''Asia/Samarkand'', ''<+05>-5''),
    (''Asia/Seoul'', ''KST-9''),
    (''Asia/Shanghai'', ''CST-8''),
    (''Asia/Singapore'', ''<+08>-8''),
    (''Asia/Srednekolymsk'', ''<+11>-11''),
    (''Asia/Taipei'', ''CST-8''),
    (''Asia/Tashkent'', ''<+05>-5''),
    (''Asia/Tbilisi'', ''<+04>-4''),
    (''Asia/Tehran'', ''<+0330>-3:30<+0430>,J79/24,J263/24''),
    (''Asia/Thimphu'', ''<+06>-6''),
    (''Asia/Tokyo'', ''JST-9''),
    (''Asia/Tomsk'', ''<+07>-7''),
    (''Asia/Ulaanbaatar'', ''<+08>-8''),
    (''Asia/Urumqi'', ''<+06>-6''),
    (''Asia/Ust-Nera'', ''<+10>-10''),
    (''Asia/Vientiane'', ''<+07>-7''),
    (''Asia/Vladivostok'', ''<+10>-10''),
    (''Asia/Yakutsk'', ''<+09>-9''),
    (''Asia/Yangon'', ''<+0630>-6:30''),
    (''Asia/Yekaterinburg'', ''<+05>-5''),
    (''Asia/Yerevan'', ''<+04>-4'')]"

definition tz_atlantic_australia :: "tz_db_pair list" where
  "tz_atlantic_australia = [
    (''Atlantic/Azores'', ''<-01>1<+00>,M3.5.0/0,M10.5.0/1''),
    (''Atlantic/Bermuda'', ''AST4ADT,M3.2.0,M11.1.0''),
    (''Atlantic/Canary'', ''WET0WEST,M3.5.0/1,M10.5.0''),
    (''Atlantic/Cape_Verde'', ''<-01>1''),
    (''Atlantic/Faroe'', ''WET0WEST,M3.5.0/1,M10.5.0''),
    (''Atlantic/Madeira'', ''WET0WEST,M3.5.0/1,M10.5.0''),
    (''Atlantic/Reykjavik'', ''GMT0''),
    (''Atlantic/South_Georgia'', ''<-02>2''),
    (''Atlantic/Stanley'', ''<-03>3''),
    (''Atlantic/St_Helena'', ''GMT0''),
    (''Australia/Adelaide'', ''ACST-9:30ACDT,M10.1.0,M4.1.0/3''),
    (''Australia/Brisbane'', ''AEST-10''),
    (''Australia/Broken_Hill'', ''ACST-9:30ACDT,M10.1.0,M4.1.0/3''),
    (''Australia/Currie'', ''AEST-10AEDT,M10.1.0,M4.1.0/3''),
    (''Australia/Darwin'', ''ACST-9:30''),
    (''Australia/Eucla'', ''<+0845>-8:45''),
    (''Australia/Hobart'', ''AEST-10AEDT,M10.1.0,M4.1.0/3''),
    (''Australia/Lindeman'', ''AEST-10''),
    (''Australia/Lord_Howe'', ''<+1030>-10:30<+11>-11,M10.1.0,M4.1.0''),
    (''Australia/Melbourne'', ''AEST-10AEDT,M10.1.0,M4.1.0/3''),
    (''Australia/Perth'', ''AWST-8''),
    (''Australia/Sydney'', ''AEST-10AEDT,M10.1.0,M4.1.0/3'')]"

definition tz_europe :: "tz_db_pair list" where
  "tz_europe = [
    (''Europe/Amsterdam'', ''CET-1CEST,M3.5.0,M10.5.0/3''),
    (''Europe/Andorra'', ''CET-1CEST,M3.5.0,M10.5.0/3''),
    (''Europe/Astrakhan'', ''<+04>-4''),
    (''Europe/Athens'', ''EET-2EEST,M3.5.0/3,M10.5.0/4''),
    (''Europe/Belgrade'', ''CET-1CEST,M3.5.0,M10.5.0/3''),
    (''Europe/Berlin'', ''CET-1CEST,M3.5.0,M10.5.0/3''),
    (''Europe/Bratislava'', ''CET-1CEST,M3.5.0,M10.5.0/3''),
    (''Europe/Brussels'', ''CET-1CEST,M3.5.0,M10.5.0/3''),
    (''Europe/Bucharest'', ''EET-2EEST,M3.5.0/3,M10.5.0/4''),
    (''Europe/Budapest'', ''CET-1CEST,M3.5.0,M10.5.0/3''),
    (''Europe/Busingen'', ''CET-1CEST,M3.5.0,M10.5.0/3''),
    (''Europe/Chisinau'', ''EET-2EEST,M3.5.0,M10.5.0/3''),
    (''Europe/Copenhagen'', ''CET-1CEST,M3.5.0,M10.5.0/3''),
    (''Europe/Dublin'', ''IST-1GMT0,M10.5.0,M3.5.0/1''),
    (''Europe/Gibraltar'', ''CET-1CEST,M3.5.0,M10.5.0/3''),
    (''Europe/Guernsey'', ''GMT0BST,M3.5.0/1,M10.5.0''),
    (''Europe/Helsinki'', ''EET-2EEST,M3.5.0/3,M10.5.0/4''),
    (''Europe/Isle_of_Man'', ''GMT0BST,M3.5.0/1,M10.5.0''),
    (''Europe/Istanbul'', ''<+03>-3''),
    (''Europe/Jersey'', ''GMT0BST,M3.5.0/1,M10.5.0''),
    (''Europe/Kaliningrad'', ''EET-2''),
    (''Europe/Kiev'', ''EET-2EEST,M3.5.0/3,M10.5.0/4''),
    (''Europe/Kirov'', ''<+03>-3''),
    (''Europe/Lisbon'', ''WET0WEST,M3.5.0/1,M10.5.0''),
    (''Europe/Ljubljana'', ''CET-1CEST,M3.5.0,M10.5.0/3''),
    (''Europe/London'', ''GMT0BST,M3.5.0/1,M10.5.0''),
    (''Europe/Luxembourg'', ''CET-1CEST,M3.5.0,M10.5.0/3''),
    (''Europe/Madrid'', ''CET-1CEST,M3.5.0,M10.5.0/3''),
    (''Europe/Malta'', ''CET-1CEST,M3.5.0,M10.5.0/3''),
    (''Europe/Mariehamn'', ''EET-2EEST,M3.5.0/3,M10.5.0/4''),
    (''Europe/Minsk'', ''<+03>-3''),
    (''Europe/Monaco'', ''CET-1CEST,M3.5.0,M10.5.0/3''),
    (''Europe/Moscow'', ''MSK-3''),
    (''Europe/Oslo'', ''CET-1CEST,M3.5.0,M10.5.0/3''),
    (''Europe/Paris'', ''CET-1CEST,M3.5.0,M10.5.0/3''),
    (''Europe/Podgorica'', ''CET-1CEST,M3.5.0,M10.5.0/3''),
    (''Europe/Prague'', ''CET-1CEST,M3.5.0,M10.5.0/3''),
    (''Europe/Riga'', ''EET-2EEST,M3.5.0/3,M10.5.0/4''),
    (''Europe/Rome'', ''CET-1CEST,M3.5.0,M10.5.0/3''),
    (''Europe/Samara'', ''<+04>-4''),
    (''Europe/San_Marino'', ''CET-1CEST,M3.5.0,M10.5.0/3''),
    (''Europe/Sarajevo'', ''CET-1CEST,M3.5.0,M10.5.0/3''),
    (''Europe/Saratov'', ''<+04>-4''),
    (''Europe/Simferopol'', ''MSK-3''),
    (''Europe/Skopje'', ''CET-1CEST,M3.5.0,M10.5.0/3''),
    (''Europe/Sofia'', ''EET-2EEST,M3.5.0/3,M10.5.0/4''),
    (''Europe/Stockholm'', ''CET-1CEST,M3.5.0,M10.5.0/3''),
    (''Europe/Tallinn'', ''EET-2EEST,M3.5.0/3,M10.5.0/4''),
    (''Europe/Tirane'', ''CET-1CEST,M3.5.0,M10.5.0/3''),
    (''Europe/Ulyanovsk'', ''<+04>-4''),
    (''Europe/Uzhgorod'', ''EET-2EEST,M3.5.0/3,M10.5.0/4''),
    (''Europe/Vaduz'', ''CET-1CEST,M3.5.0,M10.5.0/3''),
    (''Europe/Vatican'', ''CET-1CEST,M3.5.0,M10.5.0/3''),
    (''Europe/Vienna'', ''CET-1CEST,M3.5.0,M10.5.0/3''),
    (''Europe/Vilnius'', ''EET-2EEST,M3.5.0/3,M10.5.0/4''),
    (''Europe/Volgograd'', ''<+04>-4''),
    (''Europe/Warsaw'', ''CET-1CEST,M3.5.0,M10.5.0/3''),
    (''Europe/Zagreb'', ''CET-1CEST,M3.5.0,M10.5.0/3''),
    (''Europe/Zaporozhye'', ''EET-2EEST,M3.5.0/3,M10.5.0/4''),
    (''Europe/Zurich'', ''CET-1CEST,M3.5.0,M10.5.0/3'')]"

definition tz_indian_pacific :: "tz_db_pair list" where
  "tz_indian_pacific = [
    (''Indian/Antananarivo'', ''EAT-3''),
    (''Indian/Chagos'', ''<+06>-6''),
    (''Indian/Christmas'', ''<+07>-7''),
    (''Indian/Cocos'', ''<+0630>-6:30''),
    (''Indian/Comoro'', ''EAT-3''),
    (''Indian/Kerguelen'', ''<+05>-5''),
    (''Indian/Mahe'', ''<+04>-4''),
    (''Indian/Maldives'', ''<+05>-5''),
    (''Indian/Mauritius'', ''<+04>-4''),
    (''Indian/Mayotte'', ''EAT-3''),
    (''Indian/Reunion'', ''<+04>-4''),
    (''Pacific/Apia'', ''<+13>-13<+14>,M9.5.0/3,M4.1.0/4''),
    (''Pacific/Auckland'', ''NZST-12NZDT,M9.5.0,M4.1.0/3''),
    (''Pacific/Bougainville'', ''<+11>-11''),
    (''Pacific/Chatham'', ''<+1245>-12:45<+1345>,M9.5.0/2:45,M4.1.0/3:45''),
    (''Pacific/Chuuk'', ''<+10>-10''),
    (''Pacific/Easter'', ''<-06>6<-05>,M9.1.6/22,M4.1.6/22''),
    (''Pacific/Efate'', ''<+11>-11''),
    (''Pacific/Enderbury'', ''<+13>-13''),
    (''Pacific/Fakaofo'', ''<+13>-13''),
    (''Pacific/Fiji'', ''<+12>-12<+13>,M11.2.0,M1.2.3/99''),
    (''Pacific/Funafuti'', ''<+12>-12''),
    (''Pacific/Galapagos'', ''<-06>6''),
    (''Pacific/Gambier'', ''<-09>9''),
    (''Pacific/Guadalcanal'', ''<+11>-11''),
    (''Pacific/Guam'', ''ChST-10''),
    (''Pacific/Honolulu'', ''HST10''),
    (''Pacific/Kiritimati'', ''<+14>-14''),
    (''Pacific/Kosrae'', ''<+11>-11''),
    (''Pacific/Kwajalein'', ''<+12>-12''),
    (''Pacific/Majuro'', ''<+12>-12''),
    (''Pacific/Marquesas'', ''<-0930>9:30''),
    (''Pacific/Midway'', ''SST11''),
    (''Pacific/Nauru'', ''<+12>-12''),
    (''Pacific/Niue'', ''<-11>11''),
    (''Pacific/Norfolk'', ''<+11>-11<+12>,M10.1.0,M4.1.0/3''),
    (''Pacific/Noumea'', ''<+11>-11''),
    (''Pacific/Pago_Pago'', ''SST11''),
    (''Pacific/Palau'', ''<+09>-9''),
    (''Pacific/Pitcairn'', ''<-08>8''),
    (''Pacific/Pohnpei'', ''<+11>-11''),
    (''Pacific/Port_Moresby'', ''<+10>-10''),
    (''Pacific/Rarotonga'', ''<-10>10''),
    (''Pacific/Saipan'', ''ChST-10''),
    (''Pacific/Tahiti'', ''<-10>10''),
    (''Pacific/Tarawa'', ''<+12>-12''),
    (''Pacific/Tongatapu'', ''<+13>-13''),
    (''Pacific/Wake'', ''<+12>-12''),
    (''Pacific/Wallis'', ''<+12>-12'')]"

definition tz_db_tzs :: "tz_db_pair list" where
  "tz_db_tzs = tz_africa @ tz_america @ tz_antarctica_arctic @ tz_asia @ tz_atlantic_australia @ tz_europe @ tz_indian_pacific"

subsection \<open>The comparison\<close>

definition tz_lower :: "char \<Rightarrow> int" where
  "tz_lower c = (let n = of_char c in if 65 \<le> n \<and> n \<le> 90 then n - 65 + 97 else n)"

text \<open>The code of the character a pointer is at; 0 at the end of the string.\<close>

fun tz_head :: "string \<Rightarrow> int" where
  "tz_head [] = 0"
| "tz_head (c # cs) = tz_lower c"

text \<open>\<open>do p++ while (*p == '_')\<close>\<close>

definition tz_advance :: "string \<Rightarrow> string" where
  "tz_advance s = dropWhile (\<lambda>c. c = CHR ''_'') (tl s)"

function tz_cmp_loop :: "string \<Rightarrow> string \<Rightarrow> int" where
  "tz_cmp_loop target other_name =
     (if target \<noteq> [] \<and> tz_head target = tz_head other_name
      then tz_cmp_loop (tz_advance target) (tz_advance other_name)
      else tz_head target - tz_head other_name)"
  by pat_completeness auto
termination
  by (relation "measure (\<lambda>(t, _). length t)")
    (auto simp: tz_advance_def neq_Nil_conv intro: le_less_trans [OF length_dropWhile_le])

definition tz_name_cmp :: "string option \<Rightarrow> string option \<Rightarrow> int" where
  "tz_name_cmp target other_name =
     (case (target, other_name) of (Some t, Some n) \<Rightarrow> tz_cmp_loop t n | _ \<Rightarrow> -1)"

declare tz_cmp_loop.simps [simp del]

subsection \<open>The search\<close>

function tz_search :: "tz_db_pair list \<Rightarrow> string option \<Rightarrow> int \<Rightarrow> int \<Rightarrow> string option" where
  "tz_search db name lo hi =
     (if lo < hi then
        let mid = (lo + hi) div 2;
            comparison = tz_name_cmp name (Some (fst (db ! nat mid)))
        in if comparison = 0 then Some (snd (db ! nat mid))
           else if comparison < 0 then tz_search db name lo mid
           else tz_search db name (mid + 1) hi
      else None)"
  by pat_completeness auto
termination
  by (relation "measure (\<lambda>(_, _, lo, hi). nat (hi - lo))") auto

declare tz_search.simps [simp del]

definition esp_rmaker_tz_db_get_posix_str :: "string option \<Rightarrow> string option" where
  "esp_rmaker_tz_db_get_posix_str name = tz_search tz_db_tzs name 0 (int (length tz_db_tzs))"


subsection \<open>The comparison is the order of a key\<close>

text \<open>The key of a name: its characters in lower case, without the underscores after the first character.\<close>

definition tz_key :: "string \<Rightarrow> int list" where
  "tz_key s = (case s of [] \<Rightarrow> [] | c # cs \<Rightarrow> tz_lower c # map tz_lower (filter (\<lambda>c. c \<noteq> CHR ''_'') cs))"

lemma tz_key_Nil [simp]: "tz_key [] = []"
  by (simp add: tz_key_def)

lemma tz_key_Cons: "tz_key (c # cs) = tz_lower c # tz_key (tz_advance (c # cs))"
proof -
  have "map tz_lower (filter (\<lambda>c. c \<noteq> CHR ''_'') cs) = tz_key (dropWhile (\<lambda>c. c = CHR ''_'') cs)"
    by (induction cs) (auto simp: tz_key_def)
  then show ?thesis by (simp add: tz_key_def tz_advance_def)
qed

lemma tz_lower_pos: "c \<noteq> CHR 0x00 \<Longrightarrow> 0 < tz_lower c"
proof -
  assume "c \<noteq> CHR 0x00"
  then have "(of_char c :: int) \<noteq> of_char (CHR 0x00)" by (simp only: of_char_eq_iff not_False_eq_True)
  then have "(of_char c :: int) \<noteq> 0" by simp
  moreover have "0 \<le> (of_char c :: int)"
    by (metis of_nat_0_le_iff of_nat_of_char)
  ultimately show ?thesis by (simp add: tz_lower_def Let_def)
qed

lemma tz_advance_subset: "set (tz_advance s) \<subseteq> set s"
  by (cases s) (auto simp: tz_advance_def dest!: set_dropWhileD)

text \<open>The loop is the lexicographic comparison of the keys.\<close>

lemma tz_cmp_loop_key:
  "CHR 0x00 \<notin> set t \<Longrightarrow> CHR 0x00 \<notin> set n \<Longrightarrow>
     (tz_cmp_loop t n = 0 \<longleftrightarrow> tz_key t = tz_key n) \<and> (tz_cmp_loop t n < 0 \<longleftrightarrow> tz_key t < tz_key n)"
proof (induction t n rule: tz_cmp_loop.induct)
  case (1 t n)
  show ?case
  proof (cases "t \<noteq> [] \<and> tz_head t = tz_head n")
    case True
    then obtain c cs where t: "t = c # cs" by (auto simp: neq_Nil_conv)
    have c: "0 < tz_lower c" using 1(2) t by (auto intro!: tz_lower_pos)
    with True t obtain d ds where n: "n = d # ds" and cd: "tz_lower c = tz_lower d" by (cases n) auto
    have "CHR 0x00 \<notin> set (tz_advance t)" "CHR 0x00 \<notin> set (tz_advance n)"
      using 1(2,3) tz_advance_subset by blast+
    from 1(1) [OF True this] show ?thesis
      using True by (simp add: tz_cmp_loop.simps [of t n]) (simp add: t n tz_key_Cons cd)
  next
    case False
    then have eq: "tz_cmp_loop t n = tz_head t - tz_head n" by (subst tz_cmp_loop.simps) auto
    show ?thesis
    proof (cases t)
      case Nil
      show ?thesis
      proof (cases n)
        case (Cons d ds)
        then have "0 < tz_lower d" using 1(3) by (auto intro!: tz_lower_pos)
        then show ?thesis using eq by (simp add: Nil Cons tz_key_Cons)
      qed (use eq Nil in simp)
    next
      case (Cons c cs)
      then have "0 < tz_lower c" using 1(2) by (auto intro!: tz_lower_pos)
      then show ?thesis using False eq Cons by (cases n) (auto simp: tz_key_Cons)
    qed
  qed
qed

subsection \<open>The table is ordered\<close>

definition tz_ordered :: "tz_db_pair list \<Rightarrow> bool" where
  "tz_ordered db \<longleftrightarrow>
     successively (<) (map (\<lambda>e. tz_key (fst e)) db) \<and> (\<forall>e \<in> set db. CHR 0x00 \<notin> set (fst e))"


lemma tz_ordered_append:
  "tz_ordered (xs @ ys) \<longleftrightarrow> tz_ordered xs \<and> tz_ordered ys \<and>
     (xs \<noteq> [] \<and> ys \<noteq> [] \<longrightarrow> tz_key (fst (last xs)) < tz_key (fst (hd ys)))"
  by (cases "xs = []"; cases "ys = []") (auto simp: tz_ordered_def successively_append_iff last_map hd_map)

lemma tz_africa_ordered: "tz_ordered tz_africa"
  unfolding tz_ordered_def by code_simp

lemma tz_america_ordered: "tz_ordered tz_america"
  unfolding tz_ordered_def by code_simp

lemma tz_antarctica_arctic_ordered: "tz_ordered tz_antarctica_arctic"
  unfolding tz_ordered_def by code_simp

lemma tz_asia_ordered: "tz_ordered tz_asia"
  unfolding tz_ordered_def by code_simp

lemma tz_atlantic_australia_ordered: "tz_ordered tz_atlantic_australia"
  unfolding tz_ordered_def by code_simp

lemma tz_europe_ordered: "tz_ordered tz_europe"
  unfolding tz_ordered_def by code_simp

lemma tz_indian_pacific_ordered: "tz_ordered tz_indian_pacific"
  unfolding tz_ordered_def by code_simp

lemma tz_joints:
  "tz_africa \<noteq> [] \<and> tz_key (fst (last tz_africa)) < tz_key (fst (hd tz_america))"
  "tz_america \<noteq> [] \<and> tz_key (fst (last tz_america)) < tz_key (fst (hd tz_antarctica_arctic))"
  "tz_antarctica_arctic \<noteq> [] \<and> tz_key (fst (last tz_antarctica_arctic)) < tz_key (fst (hd tz_asia))"
  "tz_asia \<noteq> [] \<and> tz_key (fst (last tz_asia)) < tz_key (fst (hd tz_atlantic_australia))"
  "tz_atlantic_australia \<noteq> [] \<and> tz_key (fst (last tz_atlantic_australia)) < tz_key (fst (hd tz_europe))"
  "tz_europe \<noteq> [] \<and> tz_key (fst (last tz_europe)) < tz_key (fst (hd tz_indian_pacific))"
  "tz_indian_pacific \<noteq> []"
  by code_simp+

lemma tz_db_ordered: "tz_ordered tz_db_tzs"
  unfolding tz_db_tzs_def
  by (simp add: tz_ordered_append tz_joints tz_africa_ordered tz_america_ordered tz_antarctica_arctic_ordered tz_asia_ordered tz_atlantic_australia_ordered tz_europe_ordered tz_indian_pacific_ordered)

lemma tz_db_clean: "\<forall>e \<in> set tz_db_tzs. CHR 0x00 \<notin> set (fst e)"
  using tz_db_ordered by (simp add: tz_ordered_def)

lemma tz_db_strict: "sorted_wrt (<) (map (\<lambda>e. tz_key (fst e)) tz_db_tzs)"
  using tz_db_ordered by (simp add: tz_ordered_def successively_conv_sorted_wrt)

subsection \<open>The search is the lookup in the table\<close>

definition key_entry :: "tz_db_pair \<Rightarrow> int list \<times> string" where
  "key_entry e = (tz_key (fst e), snd e)"


lemma tz_search_map_of:
  assumes sorted_keys: "sorted_wrt (<) (map (\<lambda>e. tz_key (fst e)) db)"
    and clean: "\<forall>e \<in> set db. CHR 0x00 \<notin> set (fst e)" "CHR 0x00 \<notin> set name"
  shows "0 \<le> lo \<Longrightarrow> hi \<le> int (length db) \<Longrightarrow>
    (\<forall>i < length db. tz_key (fst (db ! i)) = tz_key name \<longrightarrow> lo \<le> int i \<and> int i < hi) \<Longrightarrow>
    tz_search db (Some name) lo hi = map_of (map key_entry db) (tz_key name)"
proof (induction "nat (hi - lo)" arbitrary: lo hi rule: less_induct)
  case less
  have keys: "map fst (map key_entry db) = map (\<lambda>e. tz_key (fst e)) db" by (simp add: key_entry_def comp_def)
  have less_nth: "tz_key (fst (db ! i)) < tz_key (fst (db ! j))" if "i < j" "j < length db" for i j
    using sorted_keys that by (simp add: sorted_wrt_iff_nth_less)
  show ?case
  proof (cases "lo < hi")
    case False
    with less.prems(3) have "tz_key name \<notin> set (map fst (map key_entry db))"
      unfolding keys by (force simp: in_set_conv_nth)
    then have "map_of (map key_entry db) (tz_key name) = None" by (simp add: map_of_eq_None_iff image_image)
    with False show ?thesis by (subst tz_search.simps) simp
  next
    case True
    define mid where "mid = (lo + hi) div 2"
    have m: "lo \<le> mid" "mid < hi" "0 \<le> mid" "nat mid < length db" "int (nat mid) = mid"
      using True less.prems(1,2) by (auto simp: mid_def)
    let ?k = "tz_key (fst (db ! nat mid))"
    have cmp: "tz_name_cmp (Some name) (Some (fst (db ! nat mid))) = 0 \<longleftrightarrow> tz_key name = ?k"
      "tz_name_cmp (Some name) (Some (fst (db ! nat mid))) < 0 \<longleftrightarrow> tz_key name < ?k"
      using tz_cmp_loop_key [of name "fst (db ! nat mid)"] clean m(4) nth_mem by (auto simp: tz_name_cmp_def)
    consider "tz_key name = ?k" | "tz_key name < ?k" | "?k < tz_key name" by fastforce
    then show ?thesis
    proof cases
      case 1
      have "distinct (map fst (map key_entry db))" unfolding keys using sorted_keys by (simp add: strict_sorted_iff)
      moreover have "(tz_key name, snd (db ! nat mid)) \<in> set (map key_entry db)"
        using m(4) 1 by (auto simp: key_entry_def intro!: image_eqI [OF _ nth_mem])
      ultimately have "map_of (map key_entry db) (tz_key name) = Some (snd (db ! nat mid))" by (simp only: map_of_is_SomeI)
      then show ?thesis using True 1 cmp(1) by (subst tz_search.simps) (simp add: mid_def Let_def)
    next
      case 2
      have "tz_search db (Some name) lo hi = tz_search db (Some name) lo mid"
        using True 2 cmp by (subst tz_search.simps) (simp add: mid_def Let_def)
      moreover have "int i < mid" if "i < length db" "tz_key (fst (db ! i)) = tz_key name" for i
      proof (rule ccontr)
        assume "\<not> int i < mid"
        then have "nat mid = i \<or> nat mid < i" using m by linarith
        with less_nth [of "nat mid" i] 2 that show False by auto
      qed
      ultimately show ?thesis using less.hyps [of mid lo] less.prems m by simp
    next
      case 3
      have "tz_search db (Some name) lo hi = tz_search db (Some name) (mid + 1) hi"
      proof -
        from 3 have "\<not> tz_key name < ?k" "tz_key name \<noteq> ?k" by auto
        then have "tz_name_cmp (Some name) (Some (fst (db ! nat mid))) \<noteq> 0"
          "\<not> tz_name_cmp (Some name) (Some (fst (db ! nat mid))) < 0" by (simp_all only: cmp not_False_eq_True)
        then show ?thesis using True by (subst tz_search.simps) (simp add: mid_def Let_def)
      qed
      moreover have "mid + 1 \<le> int i" if "i < length db" "tz_key (fst (db ! i)) = tz_key name" for i
      proof (rule ccontr)
        assume "\<not> mid + 1 \<le> int i"
        then have "i = nat mid \<or> i < nat mid" using m by linarith
        with less_nth [of i "nat mid"] 3 that m(4) show False by auto
      qed
      ultimately show ?thesis using less.hyps [of hi "mid + 1"] less.prems m by simp
    qed
  qed
qed

lemma tz_search_NULL: "tz_search db None lo hi = None"
proof (induction "nat (hi - lo)" arbitrary: lo hi rule: less_induct)
  case less
  then show ?case
    by (cases "lo < hi") (subst tz_search.simps, simp add: tz_name_cmp_def Let_def)+
qed

text \<open>C22.
  The binary search over the 425 zones is the lookup of the name up to case and underscores: it returns the POSIX string of the entry
  with the name's key, and NULL when there is none. In particular every zone of the table is found under its own name, and a NULL
  name gives NULL.\<close>

theorem timezone_lookup:
  assumes "CHR 0x00 \<notin> set name"
  shows "esp_rmaker_tz_db_get_posix_str (Some name) = map_of (map key_entry tz_db_tzs) (tz_key name) \<and>
    (name \<in> fst ` set tz_db_tzs \<longrightarrow> esp_rmaker_tz_db_get_posix_str (Some name) = map_of tz_db_tzs name) \<and>
    esp_rmaker_tz_db_get_posix_str None = None"
proof -
  have look: "esp_rmaker_tz_db_get_posix_str (Some name) = map_of (map key_entry tz_db_tzs) (tz_key name)"
    unfolding esp_rmaker_tz_db_get_posix_str_def
    by (rule tz_search_map_of [OF tz_db_strict tz_db_clean assms]) simp_all
  have "inj_on (\<lambda>e. tz_key (fst e)) (set tz_db_tzs)" "distinct (map (\<lambda>e. tz_key (fst e)) tz_db_tzs)"
    using tz_db_strict by (auto simp: strict_sorted_iff distinct_map)
  then have "distinct (map fst (map key_entry tz_db_tzs))" "distinct (map fst tz_db_tzs)"
    by (auto simp: key_entry_def comp_def distinct_map inj_on_def)
  then have "map_of (map key_entry tz_db_tzs) (tz_key name) = map_of tz_db_tzs name" if n: "name \<in> fst ` set tz_db_tzs"
  proof -
    from n obtain p where p: "(name, p) \<in> set tz_db_tzs" by auto
    then have "(tz_key name, p) \<in> set (map key_entry tz_db_tzs)" by (force simp: key_entry_def)
    with p \<open>distinct (map fst tz_db_tzs)\<close> \<open>distinct (map fst (map key_entry tz_db_tzs))\<close>
    show ?thesis by (metis map_of_is_SomeI)
  qed
  with look show ?thesis by (simp add: esp_rmaker_tz_db_get_posix_str_def tz_search_NULL)
qed

theorem timezone_lookup_witness:
  "esp_rmaker_tz_db_get_posix_str (Some ''asia/KOLK_ata'') = map_of (map key_entry tz_db_tzs) (tz_key ''asia/KOLK_ata'') \<and>
    esp_rmaker_tz_db_get_posix_str (Some ''asia/KOLK_ata'') = Some ''IST-5:30''"
proof -
  have "CHR 0x00 \<notin> set ''asia/KOLK_ata''" by simp
  from timezone_lookup [OF this, THEN conjunct1]
  have "esp_rmaker_tz_db_get_posix_str (Some ''asia/KOLK_ata'') = map_of (map key_entry tz_db_tzs) (tz_key ''asia/KOLK_ata'')" .
  moreover have "esp_rmaker_tz_db_get_posix_str (Some ''asia/KOLK_ata'') = Some ''IST-5:30''" by code_simp
  ultimately show ?thesis ..
qed

end
