(* ===== verification/Time_Sync.thy ===== *)
theory Time_Sync
  imports Tz_Db Aws_Time
begin

section \<open>Time service\<close>

text \<open>
  \<open>components/rmaker_time_sync/src/time_sync.c\<close>: the ISO 8601 parser with its UTC conversion, the wait for synchronisation,
  the start of SNTP, and the time zone kept in NVS and in the \<open>TZ\<close> variable. NVS is outside the repository: \<open>nvs_ops\<close> is
  what the source calls of it, and \<open>nvs_works\<close> its documented behaviour. The clock, the SNTP client and \<open>strftime\<close> are
  arguments. What is printed is the result of \<open>print_current_time\<close>, which changes no state; its callers leave it out.
\<close>

subsection \<open>UTC conversion\<close>

text \<open>Integers are unbounded: a field outside \<open>int\<close> is undefined in \<open>sscanf\<close> already. \<open>None\<close> is a read outside
  \<open>mdays_cum\<close>.\<close>

record tm =
  tm_year :: int
  tm_mon :: int
  tm_mday :: int
  tm_hour :: int
  tm_min :: int
  tm_sec :: int

definition is_leap :: "int \<Rightarrow> int" where
  "is_leap y = (if (y smod 4 = 0 \<and> y smod 100 \<noteq> 0) \<or> y smod 400 = 0 then 1 else 0)"

definition mdays_cum :: "int list" where
  "mdays_cum = [0, 31, 59, 90, 120, 151, 181, 212, 243, 273, 304, 334]"

function days_up :: "int \<Rightarrow> int \<Rightarrow> int \<Rightarrow> int" where
  "days_up y year days = (if y < year then days_up (y + 1) year (days + (365 + is_leap y)) else days)"
  by pat_completeness auto
termination
  by (relation "measure (\<lambda>(y, year, _). nat (year - y))") auto

function days_down :: "int \<Rightarrow> int \<Rightarrow> int" where
  "days_down y days = (if y < 1970 then days_down (y + 1) (days - (365 + is_leap y)) else days)"
  by pat_completeness auto
termination
  by (relation "measure (\<lambda>(y, _). nat (1970 - y))") auto

declare days_up.simps [simp del] days_down.simps [simp del]

definition normal_month :: "int \<Rightarrow> int \<Rightarrow> int \<times> int" where
  "normal_month year month =
     (if month < 0 then (year + (month - 11) sdiv 12, 12 + month smod 12)
      else if month > 11 then (year + month sdiv 12, month smod 12)
      else (year, month))"

definition rmaker_timegm :: "tm \<Rightarrow> int option" where
  "rmaker_timegm tm =
     (case normal_month (tm_year tm + 1900) (tm_mon tm) of
        (year, month) \<Rightarrow>
          let days = (if year \<ge> 1970 then days_up 1970 year 0 else days_down year 0)
          in case rd mdays_cum month of
               None \<Rightarrow> None
             | Some cum \<Rightarrow>
                 let days2 = days + cum + (if month > 1 \<and> is_leap year = 1 then 1 else 0) + (tm_mday tm - 1)
                 in Some (days2 * 86400 + tm_hour tm * 3600 + tm_min tm * 60 + tm_sec tm))"

subsection \<open>The ISO 8601 parser\<close>

text \<open>\<open>sscanf\<close> for the conversions used here: the values assigned before the first failure, so that their
  number is its result.\<close>

datatype conv = Conv_int | Conv_char | Conv_lit char

fun sscanf :: "conv list \<Rightarrow> string \<Rightarrow> int list" where
  "sscanf [] s = []"
| "sscanf (Conv_int # f) s = (case scan_int s of None \<Rightarrow> [] | Some (n, r) \<Rightarrow> n # sscanf f r)"
| "sscanf (Conv_char # f) s = (case s of [] \<Rightarrow> [] | c # r \<Rightarrow> int (code c) # sscanf f r)"
| "sscanf (Conv_lit x # f) s = (case s of [] \<Rightarrow> [] | c # r \<Rightarrow> if c = x then sscanf f r else [])"

definition ISO8601_DATE :: "conv list" where
  "ISO8601_DATE = [Conv_int, Conv_lit CHR ''-'', Conv_int, Conv_lit CHR ''-'', Conv_int, Conv_lit CHR ''T'',
     Conv_int, Conv_lit CHR '':'', Conv_int, Conv_lit CHR '':'', Conv_int]"

definition ISO8601_TZ_TAIL :: "conv list" where
  "ISO8601_TZ_TAIL = [Conv_char, Conv_int, Conv_lit CHR '':'', Conv_int]"

text \<open>The fields of the text: the date and time, whether the offset is negative, its hours and minutes.
  \<open>None\<close> is the format error.\<close>

definition iso8601_fields :: "string \<Rightarrow> (int list \<times> bool \<times> int \<times> int) option" where
  "iso8601_fields buf =
     (let fs = sscanf (ISO8601_DATE @ ISO8601_TZ_TAIL) buf
      in if length fs = 9 then Some (take 6 fs, fs ! 6 = int (code CHR ''-''), fs ! 7, fs ! 8)
         else let gs = sscanf (ISO8601_DATE @ [Conv_lit CHR ''Z'']) buf
              in if length gs = 6
                 then (if length buf < 20 \<or> buf ! 19 \<noteq> CHR ''Z'' then None else Some (gs, False, 0, 0))
                 else None)"

definition utc_of_fields :: "int list \<Rightarrow> tm" where
  "utc_of_fields fs = \<lparr>tm_year = fs ! 0 - 1900, tm_mon = fs ! 1 - 1, tm_mday = fs ! 2, tm_hour = fs ! 3,
     tm_min = fs ! 4, tm_sec = fs ! 5\<rparr>"

text \<open>The \<open>buf\<close> of 64 bytes the text is copied into. \<open>mem\<close> is the memory the caller's pointer is at; a read past it
  is \<open>None\<close>.\<close>

definition iso8601_copy :: "string \<Rightarrow> int \<Rightarrow> string option" where
  "iso8601_copy mem len =
     (if len \<le> 0 \<and> CHR 0x00 \<notin> set mem then None
      else let copy_len = (if len > 0 then (if len < 63 then nat len else 63)
                           else (if length (c_str mem) < 63 then length (c_str mem) else 63))
           in if length mem < copy_len then None else Some (c_str (take copy_len mem)))"

definition convert_iso8601_to_epoch :: "string option \<Rightarrow> int \<Rightarrow> bool \<Rightarrow> (esp_err \<times> int option) option" where
  "convert_iso8601_to_epoch str len out_epoch =
     (case str of
        None \<Rightarrow> Some (ESP_FAIL, None)
      | Some mem \<Rightarrow>
          if \<not> out_epoch then Some (ESP_FAIL, None)
          else case iso8601_copy mem len of
            None \<Rightarrow> None
          | Some buf \<Rightarrow>
              (case iso8601_fields buf of
                 None \<Rightarrow> Some (ESP_FAIL, None)
               | Some (fs, neg, tz_hour, tz_minute) \<Rightarrow>
                   let total = tz_hour * 3600 + tz_minute * 60;
                       offset_seconds = (if neg then - total else total)
                   in case rmaker_timegm (utc_of_fields fs) of
                        None \<Rightarrow> None
                      | Some utc_epoch \<Rightarrow>
                          if utc_epoch = -1 then Some (ESP_FAIL, None)
                          else Some (ESP_OK, Some (utc_epoch - offset_seconds))))"

subsection \<open>The conversion counts the days of the calendar\<close>

lemma smod_zero: "0 < k \<Longrightarrow> (y :: int) smod k = 0 \<longleftrightarrow> y mod k = 0"
  by (simp add: signed_modulo_int_def sgn_if abs_if mod_eq_0_iff_dvd)

lemma is_leap_year: "is_leap y = (if leap_year y then 1 else 0)"
proof -
  have "y mod 400 = 0 \<Longrightarrow> y mod 4 = 0"
    unfolding mod_eq_0_iff_dvd by (rule dvd_trans [of _ 400]) simp_all
  then show ?thesis by (auto simp: is_leap_def smod_zero leap_year_def)
qed

lemma new_year: "days_from_civil (y + 1) 1 1 = days_from_civil y 1 1 + (365 + is_leap y)"
  using march_step [of "y - 1"] by (simp add: days_march is_leap_year)

lemma days_up_civil: "y \<le> year \<Longrightarrow> days_up y year d = d + (days_from_civil year 1 1 - days_from_civil y 1 1)"
proof (induction y year d rule: days_up.induct)
  case (1 y year d)
  then show ?case by (subst days_up.simps) (auto simp: new_year)
qed

lemma days_down_civil: "y \<le> 1970 \<Longrightarrow> days_down y d = d + days_from_civil y 1 1"
proof (induction y d rule: days_down.induct)
  case (1 y d)
  then show ?case by (subst days_down.simps) (auto simp: new_year days_epoch)
qed

lemma month_civil:
  assumes "1 \<le> m" and "m \<le> 12"
  shows "rd mdays_cum (m - 1) = Some (mdays_cum ! nat (m - 1))"
    and "days_from_civil y m d = days_from_civil y 1 1 + mdays_cum ! nat (m - 1) + (if m - 1 > 1 \<and> is_leap y = 1 then 1 else 0) + (d - 1)"
proof -
  show "rd mdays_cum (m - 1) = Some (mdays_cum ! nat (m - 1))"
    using assms by (simp add: rd_def mdays_cum_def)
  show "days_from_civil y m d = days_from_civil y 1 1 + mdays_cum ! nat (m - 1) + (if m - 1 > 1 \<and> is_leap y = 1 then 1 else 0) + (d - 1)"
    using month_cases [OF assms] march_step [of "y - 1"]
    by (elim disjE) (auto simp: days_march is_leap_year mdays_cum_def)
qed

lemma rmaker_timegm_civil:
  assumes "1 \<le> m" and "m \<le> 12"
  shows "rmaker_timegm \<lparr>tm_year = y - 1900, tm_mon = m - 1, tm_mday = d, tm_hour = h, tm_min = mi, tm_sec = s\<rparr> =
    Some (days_from_civil y m d * 86400 + h * 3600 + mi * 60 + s)"
proof -
  have n: "normal_month y (m - 1) = (y, m - 1)" using assms by (simp add: normal_month_def)
  have "(if y \<ge> 1970 then days_up 1970 y 0 else days_down y 0) = days_from_civil y 1 1"
    by (simp add: days_up_civil days_down_civil days_epoch)
  then show ?thesis
    by (simp add: rmaker_timegm_def n month_civil(1) [OF assms]) (simp add: month_civil(2) [OF assms, of y d])
qed

subsection \<open>What the parser reads\<close>

fun date_text :: "utc \<Rightarrow> string" where
  "date_text ((y, m, d), h, mi, s) =
     four y @ CHR ''-'' # two m @ CHR ''-'' # two d @ CHR ''T'' # two h @ CHR '':'' # two mi @ CHR '':'' # two s"

definition offset_text :: "bool \<Rightarrow> int \<Rightarrow> int \<Rightarrow> string" where
  "offset_text neg oh om = (if neg then CHR ''-'' else CHR ''+'') # two oh @ CHR '':'' # two om"

lemma iso_text_date: "iso_text t = date_text t @ ''Z''"
  by (cases t rule: date_text.cases) simp

lemma valid_ranges:
  assumes "valid_utc ((y, m, d), h, mi, s)"
  shows "1 \<le> m" "m \<le> 12" "1 \<le> d" "d \<le> 31" "0 \<le> h" "h \<le> 23" "0 \<le> mi" "mi \<le> 59" "0 \<le> s" "s \<le> 59"
  using assms month_days_le [of y m] by (auto simp: valid_utc_def valid_date_def intro: order_trans)

lemma sscanf_date:
  assumes "valid_utc ((y, m, d), h, mi, s)" and "0 \<le> y" and "y < 10000" and "q = [] \<or> \<not> is_digit (hd q)"
  shows "sscanf (ISO8601_DATE @ f) (date_text ((y, m, d), h, mi, s) @ q) = [y, m, d, h, mi, s] @ sscanf f q"
  using valid_ranges [OF assms(1)] assms(2,3)
  by (simp add: ISO8601_DATE_def scan_four scan_two not_digits scan_two_end [OF _ _ assms(4)])

lemma length_date_text [simp]: "length (date_text t) = 19"
  by (cases t rule: date_text.cases) (simp add: four_def two_def)

lemma digit_char_NUL: "0 \<le> k \<Longrightarrow> k < 10 \<Longrightarrow> digit_char k \<noteq> CHR 0x00"
  using digit_char_props(1) [of k] by (auto simp: is_digit_def code_def)

lemma two_NUL: "0 \<le> n \<Longrightarrow> n < 100 \<Longrightarrow> CHR 0x00 \<notin> set (two n)"
proof -
  assume "0 \<le> n" "n < 100"
  then have "0 \<le> n div 10" "n div 10 < 10" "0 \<le> n mod 10" "n mod 10 < 10" by auto
  then have "digit_char (n div 10) \<noteq> CHR 0x00" "digit_char (n mod 10) \<noteq> CHR 0x00" by (blast dest: digit_char_NUL)+
  then show ?thesis by (auto simp: two_def)
qed

lemma date_text_NUL:
  assumes "valid_utc ((y, m, d), h, mi, s)" and "0 \<le> y" and "y < 10000"
  shows "CHR 0x00 \<notin> set (date_text ((y, m, d), h, mi, s))"
  using valid_ranges [OF assms(1)] assms(2,3) two_NUL [of m] two_NUL [of d] two_NUL [of h] two_NUL [of mi] two_NUL [of s]
    two_NUL [of "y div 100"] two_NUL [of "y mod 100"]
  by (auto simp: four_def)

lemma iso8601_copy_text:
  assumes "CHR 0x00 \<notin> set txt" and "length txt \<le> 63" and "n \<le> 0 \<or> n = int (length txt)"
  shows "iso8601_copy (txt @ CHR 0x00 # r) n = Some txt"
proof -
  have c: "c_str (txt @ CHR 0x00 # r) = txt" "c_str txt = txt"
    using c_str_text [OF assms(1)] assms(1) by (auto simp: c_str_def)
  show ?thesis
    using assms c by (cases "length txt < 63") (auto simp: iso8601_copy_def)
qed

lemma utc_of_fields_list:
  "utc_of_fields [y, m, d, h, mi, s] = \<lparr>tm_year = y - 1900, tm_mon = m - 1, tm_mday = d, tm_hour = h, tm_min = mi, tm_sec = s\<rparr>"
  by (simp add: utc_of_fields_def)

lemma fields_Z:
  assumes "valid_utc ((y, m, d), h, mi, s)" and "0 \<le> y" and "y < 10000"
  shows "iso8601_fields (date_text ((y, m, d), h, mi, s) @ ''Z'') = Some ([y, m, d, h, mi, s], False, 0, 0)"
proof -
  have "sscanf ISO8601_TZ_TAIL ''Z'' = [90]" "sscanf [Conv_lit CHR ''Z''] ''Z'' = []"
    by (simp_all add: ISO8601_TZ_TAIL_def scan_int_def code_def)
  moreover have "(date_text ((y, m, d), h, mi, s) @ ''Z'') ! 19 = CHR ''Z''" by (simp only: nth_append length_date_text) simp
  ultimately show ?thesis
    using sscanf_date [OF assms, of "''Z''"] by (simp add: iso8601_fields_def not_digits del: date_text.simps)
qed

lemma fields_offset:
  assumes "valid_utc ((y, m, d), h, mi, s)" and "0 \<le> y" and "y < 10000" and "0 \<le> oh" "oh < 100" "0 \<le> om" "om < 100"
  shows "iso8601_fields (date_text ((y, m, d), h, mi, s) @ offset_text neg oh om) = Some ([y, m, d, h, mi, s], neg, oh, om)"
proof -
  have nd: "\<not> is_digit (hd (offset_text neg oh om))" by (simp add: offset_text_def is_digit_def code_def)
  have "sscanf ISO8601_TZ_TAIL (offset_text neg oh om) = [if neg then 45 else 43, oh, om]"
    using assms(4-7) scan_two_end [of om "[]"] by (simp add: ISO8601_TZ_TAIL_def offset_text_def scan_two not_digits code_def)
  then show ?thesis
    using sscanf_date [OF assms(1-3), of "offset_text neg oh om" ISO8601_TZ_TAIL] nd
    by (simp add: iso8601_fields_def code_def del: date_text.simps)
qed

lemma fields_fraction:
  assumes "valid_utc ((y, m, d), h, mi, s)" and "0 \<le> y" and "y < 10000" and "ds \<noteq> []" and "\<forall>k \<in> set ds. 0 \<le> k \<and> k < 10"
  shows "iso8601_fields (date_text ((y, m, d), h, mi, s) @ CHR ''.'' # map digit_char ds @ ''Z'') = None"
proof -
  let ?q = "CHR ''.'' # map digit_char ds @ ''Z''"
  have nd: "\<not> is_digit CHR ''.''" by (simp add: is_digit_def code_def)
  have "length (sscanf ISO8601_TZ_TAIL ?q) = 2"
    by (simp add: ISO8601_TZ_TAIL_def scan_digits [OF assms(4,5), of "''Z''"] not_digits)
  moreover have "sscanf [Conv_lit CHR ''Z''] ?q = []" by simp
  moreover have "(date_text ((y, m, d), h, mi, s) @ ?q) ! 19 = CHR ''.''" by (simp only: nth_append length_date_text) simp
  ultimately show ?thesis
    using sscanf_date [OF assms(1-3), of ?q ISO8601_TZ_TAIL] sscanf_date [OF assms(1-3), of ?q "[Conv_lit CHR ''Z'']"] nd
    by (simp add: iso8601_fields_def del: date_text.simps)
qed

text \<open>For every date and time of the years 0 to 9999, the parser reads the UTC text and the text with an offset as the second that
  \<open>esp_rmaker_aws_sign_iso8601_to_epoch\<close> gives, less the offset, whether the length is passed or left to \<open>strlen\<close>. The
  one exception is the second before the epoch, which is also the error value of \<open>rmaker_timegm\<close>: it is refused.\<close>

theorem iso8601_parsers_agree:
  assumes "valid_utc t" and "0 \<le> fst (fst t)" and "fst (fst t) < 10000" and "0 \<le> oh" "oh < 100" "0 \<le> om" "om < 100"
    and "n \<le> 0 \<or> n = 20" and "n' \<le> 0 \<or> n' = 25"
  shows "convert_iso8601_to_epoch (Some (iso_text t @ CHR 0x00 # rest)) n True =
      Some (let e = iso8601_to_epoch (Some (iso_text t)) in if e = -1 then (ESP_FAIL, None) else (ESP_OK, Some e)) \<and>
    convert_iso8601_to_epoch (Some (date_text t @ offset_text neg oh om @ CHR 0x00 # rest)) n' True =
      Some (let e = iso8601_to_epoch (Some (iso_text t)); total = oh * 3600 + om * 60
            in if e = -1 then (ESP_FAIL, None) else (ESP_OK, Some (if neg then e + total else e - total)))"
proof -
  obtain y m d h mi s where t: "t = ((y, m, d), h, mi, s)" by (metis prod_cases5 prod_cases3 surj_pair)
  note v = assms(1-3) [unfolded t fst_conv]
  note r = valid_ranges [OF v(1)]
  have nul: "CHR 0x00 \<notin> set (date_text t @ ''Z'')" "CHR 0x00 \<notin> set (date_text t @ offset_text neg oh om)"
    using date_text_NUL [OF v] assms(4-7) by (auto simp: t offset_text_def two_NUL simp del: date_text.simps)
  have l: "length (offset_text neg oh om) = 6" by (simp add: offset_text_def two_def)
  have c: "iso8601_copy ((date_text t @ ''Z'') @ CHR 0x00 # rest) n = Some (date_text t @ ''Z'')"
    "iso8601_copy ((date_text t @ offset_text neg oh om) @ CHR 0x00 # rest) n' = Some (date_text t @ offset_text neg oh om)"
    by (rule iso8601_copy_text [OF nul(1)], use assms(8) in simp, use assms(8) in simp)
      (rule iso8601_copy_text [OF nul(2)], use l in simp, use assms(9) l in simp)
  have e: "iso8601_to_epoch (Some (iso_text t)) = days_from_civil y m d * 86400 + h * 3600 + mi * 60 + s"
    unfolding t by (rule iso8601_text) (use v in auto)
  have f: "iso8601_fields (date_text t @ ''Z'') = Some ([y, m, d, h, mi, s], False, 0, 0)"
    "iso8601_fields (date_text t @ offset_text neg oh om) = Some ([y, m, d, h, mi, s], neg, oh, om)"
    unfolding t by (rule fields_Z [OF v], rule fields_offset [OF v assms(4-7)])
  have g: "rmaker_timegm (utc_of_fields [y, m, d, h, mi, s]) = Some (days_from_civil y m d * 86400 + h * 3600 + mi * 60 + s)"
    by (simp only: utc_of_fields_list rmaker_timegm_civil [OF r(1,2)])
  show ?thesis
    using c unfolding e unfolding iso_text_date
    by (simp add: convert_iso8601_to_epoch_def f g Let_def del: date_text.simps)
qed

theorem iso8601_parsers_agree_witness:
  "convert_iso8601_to_epoch (Some (iso_text ((2025, 8, 12), 6, 49, 11) @ [CHR 0x00])) 0 True = Some (ESP_OK, Some 1754981351) \<and>
    convert_iso8601_to_epoch (Some (date_text ((2025, 8, 12), 6, 49, 11) @ offset_text False 5 30 @ [CHR 0x00])) 25 True =
      Some (ESP_OK, Some 1754961551)"
proof -
  have v: "valid_utc ((2025, 8, 12), 6, 49, 11)" by (simp add: valid_utc_def valid_date_def month_days_def)
  have e: "iso8601_to_epoch (Some (iso_text ((2025, 8, 12), 6, 49, 11))) = 1754981351"
    by (subst iso8601_text [OF v]) (simp_all add: days_march march_days_def)
  show ?thesis
    using iso8601_parsers_agree [OF v, of 5 30 0 25 "[]" False] by (simp add: e del: date_text.simps iso_text.simps)
qed

text \<open>
  Two inputs on which the parser departs from its header. A time with fractional seconds, which the header says is tolerated by
  stripping the fraction, is refused for every date and fraction. And a month field of -11 passes the parser and makes
  \<open>rmaker_timegm\<close> read \<open>mdays_cum[12]\<close>, outside the array.\<close>

theorem iso8601_parser_faults:
  assumes "valid_utc t" and "0 \<le> fst (fst t)" and "fst (fst t) < 10000"
    and "ds \<noteq> []" and "\<forall>k \<in> set ds. 0 \<le> k \<and> k < 10" and "length ds \<le> 9"
  shows "convert_iso8601_to_epoch (Some (date_text t @ CHR ''.'' # map digit_char ds @ ''Z'' @ CHR 0x00 # rest)) 0 True = Some (ESP_FAIL, None) \<and>
    convert_iso8601_to_epoch (Some (''2025--11-01T00:00:00+00:00'' @ [CHR 0x00])) 0 True = None"
proof
  obtain y m d h mi s where t: "t = ((y, m, d), h, mi, s)" by (metis prod_cases5 prod_cases3 surj_pair)
  note v = assms(1-3) [unfolded t fst_conv]
  let ?txt = "date_text t @ CHR ''.'' # map digit_char ds @ ''Z''"
  have "CHR 0x00 \<noteq> digit_char k" if "k \<in> set ds" for k using assms(5) that digit_char_NUL [of k] by auto
  then have nz: "CHR 0x00 \<notin> set (map digit_char ds)" by auto
  have "CHR 0x00 \<notin> set ?txt"
    using date_text_NUL [OF v] nz by (simp add: t del: date_text.simps set_map)
  from iso8601_copy_text [OF this] assms(6)
  have "iso8601_copy (?txt @ CHR 0x00 # rest) 0 = Some ?txt" by simp
  then show "convert_iso8601_to_epoch (Some (date_text t @ CHR ''.'' # map digit_char ds @ ''Z'' @ CHR 0x00 # rest)) 0 True = Some (ESP_FAIL, None)"
    using fields_fraction [OF v assms(4,5)] by (simp add: convert_iso8601_to_epoch_def t del: date_text.simps)
  show "convert_iso8601_to_epoch (Some (''2025--11-01T00:00:00+00:00'' @ [CHR 0x00])) 0 True = None"
    by code_simp
qed

theorem iso8601_parser_faults_witness:
  "convert_iso8601_to_epoch (Some (date_text ((2025, 8, 12), 6, 49, 11) @ CHR ''.'' # map digit_char [1, 2, 3] @ ''Z'' @ [CHR 0x00])) 0 True =
    Some (ESP_FAIL, None)"
  using iso8601_parser_faults [of "((2025, 8, 12), 6, 49, 11)" "[1, 2, 3]" "[]"]
  by (simp add: valid_utc_def valid_date_def month_days_def del: date_text.simps)

subsection \<open>The time zone in NVS\<close>

text \<open>The calls on the \<open>rmaker_time\<close> namespace: reading a blob (open, size and allocation, \<open>None\<close> when
  one of them fails; the read after the size query is taken to succeed) and writing one, with the result of the write.\<close>

record 's nvs_ops =
  nvs_get :: "'s \<Rightarrow> string \<Rightarrow> string option"
  nvs_set :: "'s \<Rightarrow> string \<Rightarrow> string \<Rightarrow> esp_err \<times> 's"

text \<open>NVS as documented: a successful write is what the key reads afterwards, and no other key changes.\<close>

definition nvs_works :: "'s nvs_ops \<Rightarrow> bool" where
  "nvs_works nv \<longleftrightarrow> (\<forall>st k v st'. nvs_set nv st k v = (ESP_OK, st') \<longrightarrow>
     nvs_get nv st' = (nvs_get nv st)(k \<mapsto> v))"

datatype tz_event = TZ_POSIX_CHANGED string | TZ_CHANGED string

text \<open>The state: NVS, the \<open>TZ\<close> variable, the events posted.\<close>

record 's tz_state =
  tz_nvs :: 's
  tz_env :: "string option"
  tz_posted :: "tz_event list"

definition ESP_RMAKER_TZ_POSIX_NVS_NAME :: string where "ESP_RMAKER_TZ_POSIX_NVS_NAME = ''tz_posix''"
definition ESP_RMAKER_TZ_NVS_NAME :: string where "ESP_RMAKER_TZ_NVS_NAME = ''tz''"

definition time_get_nvs :: "'s nvs_ops \<Rightarrow> string \<Rightarrow> 's tz_state \<Rightarrow> string option" where
  "time_get_nvs nv key st = map_option c_str (nvs_get nv (tz_nvs st) key)"

definition time_set_nvs :: "'s nvs_ops \<Rightarrow> string \<Rightarrow> string \<Rightarrow> 's tz_state \<Rightarrow> esp_err \<times> 's tz_state" where
  "time_set_nvs nv key val st = (case nvs_set nv (tz_nvs st) key val of (err, n) \<Rightarrow> (err, st\<lparr>tz_nvs := n\<rparr>))"

definition time_get_timezone_posix :: "'s nvs_ops \<Rightarrow> 's tz_state \<Rightarrow> string option" where
  "time_get_timezone_posix nv = time_get_nvs nv ESP_RMAKER_TZ_POSIX_NVS_NAME"

definition time_get_timezone :: "'s nvs_ops \<Rightarrow> 's tz_state \<Rightarrow> string option" where
  "time_get_timezone nv = time_get_nvs nv ESP_RMAKER_TZ_NVS_NAME"

definition time_set_timezone_posix :: "'s nvs_ops \<Rightarrow> string option \<Rightarrow> 's tz_state \<Rightarrow> esp_err \<times> 's tz_state" where
  "time_set_timezone_posix nv tz_posix st =
     (case tz_posix of
        None \<Rightarrow> (ESP_ERR_INVALID_ARG, st)
      | Some p \<Rightarrow>
          if p = [] then (ESP_ERR_INVALID_ARG, st)
          else case time_set_nvs nv ESP_RMAKER_TZ_POSIX_NVS_NAME p st of
            (err, st1) \<Rightarrow>
              if err = ESP_OK
              then (err, st1\<lparr>tz_env := Some p, tz_posted := tz_posted st1 @ [TZ_POSIX_CHANGED p]\<rparr>)
              else (err, st1))"

text \<open>The name is stored last, after its event.\<close>

definition time_set_timezone :: "'s nvs_ops \<Rightarrow> string option \<Rightarrow> 's tz_state \<Rightarrow> esp_err \<times> 's tz_state" where
  "time_set_timezone nv tz st =
     (case tz of
        None \<Rightarrow> (ESP_ERR_INVALID_ARG, st)
      | Some name \<Rightarrow>
          (case esp_rmaker_tz_db_get_posix_str (Some name) of
             None \<Rightarrow> (ESP_ERR_INVALID_ARG, st)
           | Some p \<Rightarrow>
               (case time_set_timezone_posix nv (Some p) st of
                  (err, st1) \<Rightarrow>
                    if err = ESP_OK
                    then time_set_nvs nv ESP_RMAKER_TZ_NVS_NAME name (st1\<lparr>tz_posted := tz_posted st1 @ [TZ_CHANGED name]\<rparr>)
                    else (err, st1))))"

text \<open>\<open>def_tz\<close> is \<open>CONFIG_ESP_RMAKER_DEF_TIMEZONE\<close>.\<close>

definition timezone_enable :: "'s nvs_ops \<Rightarrow> string \<Rightarrow> 's tz_state \<Rightarrow> esp_err \<times> 's tz_state" where
  "timezone_enable nv def_tz st =
     (case time_get_timezone_posix nv st of
        Some p \<Rightarrow> (ESP_OK, st\<lparr>tz_env := Some p\<rparr>)
      | None \<Rightarrow>
          if def_tz \<noteq> []
          then (case esp_rmaker_tz_db_get_posix_str (Some def_tz) of
                  Some p \<Rightarrow> (ESP_OK, st\<lparr>tz_env := Some p\<rparr>)
                | None \<Rightarrow> (ESP_ERR_INVALID_ARG, st))
          else (ESP_OK, st))"

subsection \<open>SNTP and the local time text\<close>

text \<open>The start of SNTP: what is handed to the SNTP client, or \<open>None\<close> when it already runs. The callback is \<open>None\<close> for
  the default one, which prints the time.\<close>

record 'cb time_config =
  sntp_server_name :: "string option"
  sync_time_cb :: "'cb option"

definition time_sync_init ::
  "'s nvs_ops \<Rightarrow> string \<Rightarrow> string \<Rightarrow> bool \<Rightarrow> 'cb time_config option \<Rightarrow> 's tz_state \<Rightarrow>
     esp_err \<times> (string \<times> 'cb option) option \<times> bool \<times> 's tz_state" where
  "time_sync_init nv def_server def_tz sntp_enabled config st =
     (if sntp_enabled then (ESP_OK, None, True, st)
      else let server = (case config of
                  None \<Rightarrow> def_server
                | Some c \<Rightarrow> (case sntp_server_name c of None \<Rightarrow> def_server | Some n \<Rightarrow> n));
               cb = (case config of None \<Rightarrow> None | Some c \<Rightarrow> sync_time_cb c)
           in (ESP_OK, Some (server, cb), True, snd (timezone_enable nv def_tz st)))"

text \<open>\<open>snprintf\<close> into the caller's buffer: what it would print, and the prefix that fits.\<close>

definition get_local_time_str :: "string \<Rightarrow> bool \<Rightarrow> nat \<Rightarrow> esp_err \<times> string" where
  "get_local_time_str strftime_buf isdst buf_len =
     (let out = strftime_buf @ '', DST: '' @ (if isdst then ''Yes'' else ''No'')
      in (if length out \<ge> buf_len then ESP_ERR_INVALID_ARG else ESP_OK, take (buf_len - 1) out))"

subsection \<open>Waiting for synchronisation\<close>

definition REF_TIME :: int where "REF_TIME = 1546300800"

definition time_check :: "int \<Rightarrow> bool" where
  "time_check now = (now > REF_TIME)"

text \<open>What the default callback prints: whether the clock is said to be unsynchronised, and the time.\<close>

definition print_current_time :: "string \<Rightarrow> bool \<Rightarrow> int \<Rightarrow> esp_err \<times> (bool \<times> string) option" where
  "print_current_time strftime_buf isdst now =
     (case get_local_time_str strftime_buf isdst 64 of
        (err, local_time) \<Rightarrow> if err = ESP_OK then (ESP_OK, Some (\<not> time_check now, local_time)) else (ESP_FAIL, None))"

text \<open>\<open>now k\<close> is the clock at the k-th check. The result is the number of checks made and the delays; \<open>None\<close> is a loop
  that does not end.\<close>

partial_function (option) wait_loop ::
  "nat \<Rightarrow> (nat \<Rightarrow> int) \<Rightarrow> nat \<Rightarrow> nat \<Rightarrow> nat list \<Rightarrow> (nat \<times> nat list) option" where
  "wait_loop default_ticks now k ticks_remaining delays =
     (if ticks_remaining > 0 then
        if time_check (now k) then Some (k + 1, delays)
        else let ticks = (if ticks_remaining < default_ticks then ticks_remaining else default_ticks)
             in wait_loop default_ticks now (k + 1) (ticks_remaining - ticks) (delays @ [ticks])
      else Some (k, delays))"

definition time_wait_for_sync :: "nat \<Rightarrow> (nat \<Rightarrow> int) \<Rightarrow> u32 \<Rightarrow> (esp_err \<times> nat list) option" where
  "time_wait_for_sync default_ticks now ticks_to_wait =
     map_option (\<lambda>(k, ds). (if time_check (now k) then ESP_OK else ESP_FAIL, ds))
       (wait_loop default_ticks now 0 (unat ticks_to_wait) [])"

lemma tz_posix_clean: "\<forall>e \<in> set tz_db_tzs. CHR 0x00 \<notin> set (snd e)"
proof -
  have "list_all (\<lambda>e. CHR 0x00 \<notin> set (snd e)) tz_db_tzs"
    by code_simp
  then show ?thesis by (simp add: list_all_iff)
qed

lemma tz_search_mem: "0 \<le> lo \<Longrightarrow> hi \<le> int (length db) \<Longrightarrow> tz_search db name lo hi = Some p \<Longrightarrow> p \<in> snd ` set db"
proof (induction "nat (hi - lo)" arbitrary: lo hi rule: less_induct)
  case less
  show ?case
  proof (cases "lo < hi")
    case True
    define mid where "mid = (lo + hi) div 2"
    have m: "lo \<le> mid" "mid < hi" "nat mid < length db" "0 \<le> mid" using True less.prems(1,2) by (auto simp: mid_def)
    have "tz_search db name lo hi =
        (if tz_name_cmp name (Some (fst (db ! nat mid))) = 0 then Some (snd (db ! nat mid))
         else if tz_name_cmp name (Some (fst (db ! nat mid))) < 0 then tz_search db name lo mid else tz_search db name (mid + 1) hi)"
      by (subst tz_search.simps) (simp only: True if_True Let_def mid_def)
    with less.prems(3) consider "p = snd (db ! nat mid)" | "tz_search db name lo mid = Some p" | "tz_search db name (mid + 1) hi = Some p"
      by (metis option.inject)
    then show ?thesis
      using less.hyps [of mid lo] less.hyps [of hi "mid + 1"] less.prems(1,2) m by cases auto
  qed (use less.prems(3) in \<open>subst (asm) tz_search.simps, simp\<close>)
qed


definition sample_nvs :: "(string \<Rightarrow> string option) nvs_ops" where
  "sample_nvs = \<lparr>nvs_get = (\<lambda>st. st), nvs_set = (\<lambda>st k v. (ESP_OK, st(k \<mapsto> v)))\<rparr>"


lemma wait_loop_ends:
  assumes "0 < D"
  shows "\<exists>k' ds'. wait_loop D now k rem ds = Some (k', ds @ ds') \<and> sum_list ds' \<le> rem \<and> length ds' * D < rem + D \<and>
    (\<forall>j < length ds'. \<not> time_check (now (k + j))) \<and>
    (if sum_list ds' < rem then time_check (now (k + length ds')) \<and> k' = k + length ds' + 1 else k' = k + length ds')"
proof (induction rem arbitrary: k ds rule: less_induct)
  case (less rem)
  consider "rem = 0" | "0 < rem" "time_check (now k)" | "0 < rem" "\<not> time_check (now k)" by blast
  then show ?case
  proof cases
    case 1
    then show ?thesis using assms by (subst wait_loop.simps) (auto intro!: exI [of _ "[]"])
  next
    case 2
    then show ?thesis using assms by (subst wait_loop.simps) (auto intro!: exI [of _ "[]"])
  next
    case 3
    define t where "t = (if rem < D then rem else D)"
    have t: "0 < t" "t \<le> rem" "t \<le> D" "rem - t < rem" using 3 assms by (auto simp: t_def)
    from less.IH [OF t(4), of "k + 1" "ds @ [t]"] obtain k' ds' where ih:
      "wait_loop D now (k + 1) (rem - t) (ds @ [t]) = Some (k', (ds @ [t]) @ ds')" "sum_list ds' \<le> rem - t" "length ds' * D < rem - t + D"
      "\<forall>j < length ds'. \<not> time_check (now (k + 1 + j))"
      "if sum_list ds' < rem - t then time_check (now (k + 1 + length ds')) \<and> k' = k + 1 + length ds' + 1 else k' = k + 1 + length ds'"
      by blast
    have "wait_loop D now k rem ds = Some (k', ds @ t # ds')"
      using ih(1) 3 by (subst wait_loop.simps) (simp add: t_def Let_def)
    moreover have "length (t # ds') * D < rem + D" using ih(3) t by (cases "rem < D") (auto simp: t_def)
    moreover have "\<forall>j < length (t # ds'). \<not> time_check (now (k + j))"
      using ih(4) 3(2) by (auto simp: less_Suc_eq_0_disj)
    ultimately show ?thesis using ih(2,5) t
      by (intro exI [of _ k'] exI [of _ "t # ds'"]) (auto split: if_splits)
  qed
qed

text \<open>The wait for synchronisation returns after at most the given ticks, in delays of at most the default period, when that period is
  at least one tick: it never gives up before the ticks are spent, and ends early only on a check that finds the clock set. The
  result is the outcome of the last check.\<close>

theorem wait_for_sync_returns:
  assumes "0 < default_ticks"
  shows "\<exists>k ds. time_wait_for_sync default_ticks now ticks = Some (if time_check (now k) then ESP_OK else ESP_FAIL, ds) \<and>
    sum_list ds \<le> unat ticks \<and> length ds * default_ticks < unat ticks + default_ticks \<and>
    (\<forall>j < length ds. \<not> time_check (now j)) \<and>
    (if sum_list ds < unat ticks then time_check (now (length ds)) \<and> k = length ds + 1 else k = length ds)"
proof -
  from wait_loop_ends [OF assms, of now 0 "unat ticks" "[]", unfolded append_Nil add_0] obtain k ds where
    w: "wait_loop default_ticks now 0 (unat ticks) [] = Some (k, ds)" and r: "sum_list ds \<le> unat ticks"
      "length ds * default_ticks < unat ticks + default_ticks" "\<forall>j < length ds. \<not> time_check (now j)"
      "if sum_list ds < unat ticks then time_check (now (length ds)) \<and> k = length ds + 1 else k = length ds"
    by blast
  show ?thesis
    by (rule exI [of _ k], rule exI [of _ ds]) (use r in \<open>simp add: time_wait_for_sync_def w split: if_splits\<close>)
qed

definition sample_clock :: "nat \<Rightarrow> int" where
  "sample_clock k = (if k < 3 then 0 else 1700000000)"

theorem wait_for_sync_returns_witness:
  "\<exists>k ds. time_wait_for_sync 200 sample_clock 1000 = Some (if time_check (sample_clock k) then ESP_OK else ESP_FAIL, ds) \<and>
     sum_list ds \<le> 1000 \<and> length ds * 200 < 1200"
proof -
  have "unat (1000 :: u32) = 1000" by simp
  with wait_for_sync_returns [of 200 sample_clock 1000] show ?thesis by fastforce
qed

end
