(* ===== verification/Heap_Trace.thy ===== *)
theory Heap_Trace
  imports State_Machine
begin

section \<open>The heap-trace command\<close>

text \<open>
  \<open>components/rmaker_console/src/rmaker_common_cmds.c\<close>, as built with \<open>CONFIG_HEAP_TRACING\<close>: the buffer of trace records that the
  command allocates, gives to the tracer of ESP-IDF and takes back. The tracer and the allocator are parameters; a buffer is a block with a size, so that
  what the tracer may write can be compared with what was allocated.
\<close>

subsection \<open>The tracer\<close>

type_synonym i32 = "32 word"

text \<open>\<open>heap_trace_init_standalone\<close> takes a buffer and a number of records, \<open>None\<close> for \<open>NULL\<close> and 0.\<close>

record 's tracer =
  tr_init :: "(nat \<times> u32) option \<Rightarrow> 's \<Rightarrow> esp_err \<times> 's"
  tr_start :: "'s \<Rightarrow> esp_err \<times> 's"
  tr_stop :: "'s \<Rightarrow> esp_err \<times> 's"

text \<open>Its documented behaviour, with what it has registered and whether it runs: a buffer is registered or dropped only while it is
  stopped, it starts exactly when a buffer with at least one record is registered, and starting it again only resets the trace.\<close>

definition tracer_works :: "'s tracer \<Rightarrow> ('s \<Rightarrow> (nat \<times> u32) option) \<Rightarrow> ('s \<Rightarrow> bool) \<Rightarrow> bool" where
  "tracer_works tr registered running \<longleftrightarrow>
     (\<forall>b s. if running s then tr_init tr b s = (ESP_ERR_INVALID_STATE, s)
        else \<exists>s'. tr_init tr b s = (ESP_OK, s') \<and> registered s' = b \<and> \<not> running s') \<and>
     (\<forall>s. if (\<exists>b n. registered s = Some (b, n) \<and> n \<noteq> 0)
        then \<exists>s'. tr_start tr s = (ESP_OK, s') \<and> registered s' = registered s \<and> running s'
        else tr_start tr s = (ESP_ERR_INVALID_STATE, s)) \<and>
     (\<forall>s. registered (snd (tr_stop tr s)) = registered s \<and> \<not> running (snd (tr_stop tr s)))"

subsection \<open>The command\<close>

text \<open>\<open>heap_trace_records\<close> and \<open>heap_trace_records_buf\<close>, the blocks of the command on the heap with their sizes, and the tracer.
  \<open>ht_next\<close> names the next block.\<close>

record 's heap_trace =
  ht_records :: i32
  ht_buf :: "nat option"
  ht_heap :: "nat \<rightharpoonup> nat"
  ht_next :: nat
  ht_tracer :: 's

text \<open>What \<open>malloc\<close> is asked for: \<open>int * size_t\<close> is a product modulo \<open>2 ^ 32\<close>.\<close>

definition trace_buf_size :: "u32 \<Rightarrow> i32 \<Rightarrow> nat" where
  "trace_buf_size record_size records = unat (records * record_size)"

definition trace_free :: "'s heap_trace \<Rightarrow> 's heap_trace option" where
  "trace_free st =
     (case ht_buf st of
        None \<Rightarrow> Some st
      | Some b \<Rightarrow> if ht_heap st b = None then None else Some (st\<lparr>ht_heap := (ht_heap st)(b := None), ht_buf := None\<rparr>))"

text \<open>The labels \<open>error1\<close> and \<open>error2\<close>.\<close>

definition trace_error1 :: "'s heap_trace \<Rightarrow> (esp_err \<times> 's heap_trace) option" where
  "trace_error1 st = map_option (\<lambda>st'. (ESP_FAIL, st')) (trace_free st)"

definition trace_error2 :: "'s tracer \<Rightarrow> 's heap_trace \<Rightarrow> (esp_err \<times> 's heap_trace) option" where
  "trace_error2 tr st = trace_error1 (st\<lparr>ht_tracer := snd (tr_init tr None (ht_tracer st))\<rparr>)"

text \<open>The buffer, made when there is none: whether it is there, and the failure that ended the command before.\<close>

definition trace_buffer ::
  "'s tracer \<Rightarrow> u32 \<Rightarrow> (nat \<Rightarrow> bool) \<Rightarrow> 's heap_trace \<Rightarrow> ((esp_err \<times> 's heap_trace) option, 's heap_trace) sum" where
  "trace_buffer tr record_size malloc_ok st =
     (if ht_buf st \<noteq> None then Inr st
      else let size = trace_buf_size record_size (ht_records st)
           in if \<not> malloc_ok size then Inl (Some (ESP_FAIL, st))
              else let b = ht_next st;
                       st1 = st\<lparr>ht_buf := Some b, ht_heap := (ht_heap st)(b \<mapsto> size), ht_next := b + 1\<rparr>
                   in case tr_init tr (Some (b, ht_records st)) (ht_tracer st1) of
                        (err, t) \<Rightarrow> if err \<noteq> ESP_OK then Inl (trace_error1 (st1\<lparr>ht_tracer := t\<rparr>)) else Inr (st1\<lparr>ht_tracer := t\<rparr>))"

definition cli_heap_trace_start ::
  "'s tracer \<Rightarrow> u32 \<Rightarrow> (nat \<Rightarrow> bool) \<Rightarrow> 's heap_trace \<Rightarrow> (esp_err \<times> 's heap_trace) option" where
  "cli_heap_trace_start tr record_size malloc_ok st =
     (case trace_buffer tr record_size malloc_ok st of
        Inl r \<Rightarrow> r
      | Inr st1 \<Rightarrow>
          (case tr_start tr (ht_tracer st1) of
             (err, t) \<Rightarrow> if err \<noteq> ESP_OK then trace_error2 tr (st1\<lparr>ht_tracer := t\<rparr>) else Some (ESP_OK, st1\<lparr>ht_tracer := t\<rparr>)))"

definition cli_heap_trace_stop :: "'s tracer \<Rightarrow> 's heap_trace \<Rightarrow> (esp_err \<times> 's heap_trace) option" where
  "cli_heap_trace_stop tr st =
     (if ht_buf st = None then Some (ESP_OK, st)
      else map_option (\<lambda>st'. (ESP_OK, st'))
        (trace_free (st\<lparr>ht_tracer := snd (tr_init tr None (snd (tr_stop tr (ht_tracer st))))\<rparr>)))"

text \<open>\<open>atoi\<close>: \<open>None\<close> when the number does not fit an \<open>int\<close>, which C leaves undefined.\<close>

definition c_isspace :: "char \<Rightarrow> bool" where
  "c_isspace c \<longleftrightarrow> c \<in> set [CHR '' '', CHR 0x09, CHR 0x0A, CHR 0x0B, CHR 0x0C, CHR 0x0D]"

definition c_isdigit :: "char \<Rightarrow> bool" where
  "c_isdigit c \<longleftrightarrow> 48 \<le> (of_char c :: nat) \<and> (of_char c :: nat) \<le> 57"

definition decimal :: "string \<Rightarrow> int" where
  "decimal ds = foldl (\<lambda>n c. 10 * n + (of_char c - 48)) 0 (takeWhile c_isdigit ds)"

definition atoi :: "string \<Rightarrow> i32 option" where
  "atoi txt =
     (let t = dropWhile c_isspace txt;
          n = (case t of CHR ''-'' # ds \<Rightarrow> - decimal ds | CHR ''+'' # ds \<Rightarrow> decimal ds | _ \<Rightarrow> decimal t)
      in if - (2 ^ 31) \<le> n \<and> n < 2 ^ 31 then Some (word_of_int n) else None)"

definition DEFAULT_HEAP_TRACE_RECORDS :: i32 where "DEFAULT_HEAP_TRACE_RECORDS = 200"

definition heap_trace_cli_handler ::
  "'s tracer \<Rightarrow> u32 \<Rightarrow> (nat \<Rightarrow> bool) \<Rightarrow> string list \<Rightarrow> 's heap_trace \<Rightarrow> (esp_err \<times> 's heap_trace) option" where
  "heap_trace_cli_handler tr record_size malloc_ok argv st =
     (if length argv < 2 then Some (ESP_FAIL, st)
      else if argv ! 1 = ''start''
      then (case (if length argv \<noteq> 3 then Some DEFAULT_HEAP_TRACE_RECORDS else atoi (argv ! 2)) of
              None \<Rightarrow> None
            | Some n \<Rightarrow> cli_heap_trace_start tr record_size malloc_ok (st\<lparr>ht_records := n\<rparr>))
      else if argv ! 1 = ''stop'' then cli_heap_trace_stop tr st
      else Some (ESP_FAIL, st))"


text \<open>The values of \<open>atoi\<close>.\<close>

lemma atoi_samples: "atoi ''50'' = Some 50" "atoi '' -1x'' = Some (- 1)" "atoi ''x'' = Some 0" "atoi ''153391690'' = Some 153391690"
  "atoi ''99999999999'' = None"
  by code_simp+

subsection \<open>Any sequence of commands\<close>

definition trace_boot :: "('s \<Rightarrow> (nat \<times> u32) option) \<Rightarrow> ('s \<Rightarrow> bool) \<Rightarrow> 's heap_trace \<Rightarrow> bool" where
  "trace_boot registered running st \<longleftrightarrow> ht_buf st = None \<and> ht_heap st = Map.empty \<and> registered (ht_tracer st) = None \<and> \<not> running (ht_tracer st)"

definition trace_step :: "'s tracer \<Rightarrow> u32 \<Rightarrow> 's heap_trace \<Rightarrow> 's heap_trace \<Rightarrow> bool" where
  "trace_step tr record_size st st' \<longleftrightarrow> (\<exists>malloc_ok argv err. heap_trace_cli_handler tr record_size malloc_ok argv st = Some (err, st'))"

text \<open>The tracer has the buffer of the command, which is the only block of the command, or neither has one.\<close>

definition trace_inv :: "('s \<Rightarrow> (nat \<times> u32) option) \<Rightarrow> ('s \<Rightarrow> bool) \<Rightarrow> u32 \<Rightarrow> 's heap_trace \<Rightarrow> bool" where
  "trace_inv registered running record_size st \<longleftrightarrow>
     (case ht_buf st of
        None \<Rightarrow> ht_heap st = Map.empty \<and> registered (ht_tracer st) = None \<and> \<not> running (ht_tracer st)
      | Some b \<Rightarrow> \<exists>n. n \<noteq> 0 \<and> registered (ht_tracer st) = Some (b, n) \<and> running (ht_tracer st) \<and>
          ht_heap st = [b \<mapsto> trace_buf_size record_size n])"

lemma tracer_worksD:
  assumes "tracer_works tr registered running"
  shows "\<not> running s \<Longrightarrow> \<exists>s'. tr_init tr b s = (ESP_OK, s') \<and> registered s' = b \<and> \<not> running s'"
    and "registered s = Some (b', n) \<Longrightarrow> n \<noteq> 0 \<Longrightarrow> \<exists>s'. tr_start tr s = (ESP_OK, s') \<and> registered s' = Some (b', n) \<and> running s'"
    and "registered s = Some (b', 0) \<Longrightarrow> tr_start tr s = (ESP_ERR_INVALID_STATE, s)"
    and "\<not> running (snd (tr_stop tr s))"
  using assms unfolding tracer_works_def by (metis, metis, metis old.prod.inject option.inject, metis)

lemma trace_start_ok:
  assumes t: "tracer_works tr registered running" and i: "trace_inv registered running record_size st"
  shows "\<exists>err st'. cli_heap_trace_start tr record_size malloc_ok st = Some (err, st') \<and> trace_inv registered running record_size st'"
proof (cases "ht_buf st")
  case (Some b)
  with i obtain n where n: "n \<noteq> 0" "registered (ht_tracer st) = Some (b, n)" "ht_heap st = [b \<mapsto> trace_buf_size record_size n]"
    by (auto simp: trace_inv_def)
  from tracer_worksD(2) [OF t n(2,1)] obtain s' where "tr_start tr (ht_tracer st) = (ESP_OK, s')" "registered s' = Some (b, n)" "running s'" by blast
  with n Some show ?thesis by (simp add: cli_heap_trace_start_def trace_buffer_def trace_inv_def)
next
  case None
  with i have st: "ht_heap st = Map.empty" "registered (ht_tracer st) = None" "\<not> running (ht_tracer st)" by (simp_all add: trace_inv_def)
  show ?thesis
  proof (cases "malloc_ok (trace_buf_size record_size (ht_records st))")
    case False
    with None i show ?thesis by (simp add: cli_heap_trace_start_def trace_buffer_def Let_def)
  next
    case True
    let ?b = "ht_next st" and ?n = "ht_records st"
    from tracer_worksD(1) [OF t st(3), of "Some (?b, ?n)"] obtain s1 where
      s1: "tr_init tr (Some (?b, ?n)) (ht_tracer st) = (ESP_OK, s1)" "registered s1 = Some (?b, ?n)" "\<not> running s1" by blast
    show ?thesis
    proof (cases "?n = 0")
      case True
      from tracer_worksD(1) [OF t s1(3), of None] obtain s2 where "tr_init tr None s1 = (ESP_OK, s2)" "registered s2 = None" "\<not> running s2" by blast
      with True \<open>malloc_ok _\<close> None st s1 tracer_worksD(3) [OF t, of s1 ?b] show ?thesis
        by (simp add: cli_heap_trace_start_def trace_buffer_def Let_def trace_error2_def trace_error1_def trace_free_def trace_inv_def)
    next
      case False
      from tracer_worksD(2) [OF t s1(2) False] obtain s2 where "tr_start tr s1 = (ESP_OK, s2)" "registered s2 = Some (?b, ?n)" "running s2" by blast
      with False \<open>malloc_ok _\<close> None st s1 show ?thesis
        by (simp add: cli_heap_trace_start_def trace_buffer_def Let_def trace_inv_def)
    qed
  qed
qed

lemma trace_stop_ok:
  assumes t: "tracer_works tr registered running" and i: "trace_inv registered running record_size st"
  shows "\<exists>st'. cli_heap_trace_stop tr st = Some (ESP_OK, st') \<and> trace_inv registered running record_size st'"
proof (cases "ht_buf st")
  case None
  with i show ?thesis by (simp add: cli_heap_trace_stop_def)
next
  case (Some b)
  with i obtain n where n: "ht_heap st = [b \<mapsto> trace_buf_size record_size n]" by (auto simp: trace_inv_def)
  let ?s = "snd (tr_stop tr (ht_tracer st))"
  from tracer_worksD(1) [OF t tracer_worksD(4) [OF t, of "ht_tracer st"], of None] obtain s' where
    "tr_init tr None ?s = (ESP_OK, s')" "registered s' = None" "\<not> running s'" by blast
  with n Some show ?thesis by (simp add: cli_heap_trace_stop_def trace_free_def trace_inv_def)
qed

lemma trace_inv_records: "trace_inv registered running record_size (st\<lparr>ht_records := n\<rparr>) = trace_inv registered running record_size st"
  by (simp add: trace_inv_def split: option.split)

lemma trace_command_ok:
  assumes t: "tracer_works tr registered running" and i: "trace_inv registered running record_size st"
  shows "heap_trace_cli_handler tr record_size malloc_ok argv st = None \<and> length argv = 3 \<and> argv ! 1 = ''start'' \<and> atoi (argv ! 2) = None \<or>
    (\<exists>err st'. heap_trace_cli_handler tr record_size malloc_ok argv st = Some (err, st') \<and> trace_inv registered running record_size st')"
  using trace_start_ok [OF t, of record_size "st\<lparr>ht_records := n\<rparr>" malloc_ok for n] trace_stop_ok [OF t i] i
  by (auto simp: heap_trace_cli_handler_def trace_inv_records split: option.splits)


interpretation heap_trace: inductive_invariant "\<lambda>st. tracer_works tr registered running \<and> trace_boot registered running st"
    "trace_step tr record_size" "\<lambda>st. tracer_works tr registered running \<and> trace_inv registered running record_size st" for tr registered running record_size
proof unfold_locales
  show "tracer_works tr registered running \<and> trace_inv registered running record_size st"
    if "tracer_works tr registered running \<and> trace_boot registered running st" for st
    using that by (simp add: trace_boot_def trace_inv_def)
  show "tracer_works tr registered running \<and> trace_inv registered running record_size st'"
    if "tracer_works tr registered running \<and> trace_inv registered running record_size st" "trace_step tr record_size st st'" for st st'
  proof -
    from that(2) obtain malloc_ok argv err where "heap_trace_cli_handler tr record_size malloc_ok argv st = Some (err, st')"
      by (auto simp: trace_step_def)
    with that(1) trace_command_ok [of tr registered running record_size st malloc_ok argv] show ?thesis by auto
  qed
qed

lemma heap_trace_reach:
  "tracer_works tr registered running \<Longrightarrow> reach (trace_boot registered running) (trace_step tr record_size) st \<Longrightarrow>
    trace_inv registered running record_size st"
  using heap_trace.reachable [of tr registered running record_size st] by simp

text \<open>C40.
  Over any sequence of heap-trace commands, with any arguments and any failing allocation, the tracer never holds a buffer that was freed and
  none is lost: either neither the command nor the tracer has a buffer, nothing is allocated and no trace runs, or the only
  block is the one both have and the trace runs. The only command that goes wrong is a start whose number does not fit an int. The
  buffer has room for the records announced to the tracer exactly when their size does not exceed 32 bits; the multiplication is not checked,
  so with records of 28 bytes a start for 153391690 of them, when the heap has 24 bytes, succeeds and leaves no room for a single one.\<close>

theorem heap_trace_safe:
  assumes "tracer_works tr registered running" and "reach (trace_boot registered running) (trace_step tr record_size) st"
  shows "(case ht_buf st of
       None \<Rightarrow> ht_heap st = Map.empty \<and> registered (ht_tracer st) = None \<and> \<not> running (ht_tracer st)
     | Some b \<Rightarrow> \<exists>n size. registered (ht_tracer st) = Some (b, n) \<and> running (ht_tracer st) \<and> ht_heap st = [b \<mapsto> size] \<and>
         (unat n * unat record_size \<le> size \<longleftrightarrow> unat n * unat record_size < 2 ^ 32)) \<and>
    (heap_trace_cli_handler tr record_size malloc_ok argv st = None \<longleftrightarrow> length argv = 3 \<and> argv ! 1 = ''start'' \<and> atoi (argv ! 2) = None) \<and>
    (ht_buf st = None \<and> record_size = 28 \<and> malloc_ok 24 \<longrightarrow>
      (\<exists>st' b. heap_trace_cli_handler tr record_size malloc_ok [''heap-trace'', ''start'', ''153391690''] st = Some (ESP_OK, st') \<and>
        registered (ht_tracer st') = Some (b, 153391690) \<and> running (ht_tracer st') \<and> ht_heap st' = [b \<mapsto> 24]))"
proof (intro conjI impI)
  from heap_trace_reach [OF assms] have i: "trace_inv registered running record_size st" .
  have fits: "unat n * unat record_size \<le> trace_buf_size record_size n \<longleftrightarrow> unat n * unat record_size < 2 ^ 32" for n
    using mod_less_divisor [of "2 ^ 32" "unat n * unat record_size"]
    by (auto simp: trace_buf_size_def unat_word_ariths mod_eq_self_iff_div_eq_0 dest: order.trans [rotated])
  show "case ht_buf st of
       None \<Rightarrow> ht_heap st = Map.empty \<and> registered (ht_tracer st) = None \<and> \<not> running (ht_tracer st)
     | Some b \<Rightarrow> \<exists>n size. registered (ht_tracer st) = Some (b, n) \<and> running (ht_tracer st) \<and> ht_heap st = [b \<mapsto> size] \<and>
         (unat n * unat record_size \<le> size \<longleftrightarrow> unat n * unat record_size < 2 ^ 32)"
    using i fits by (auto simp: trace_inv_def split: option.splits)
  show "heap_trace_cli_handler tr record_size malloc_ok argv st = None \<longleftrightarrow> length argv = 3 \<and> argv ! 1 = ''start'' \<and> atoi (argv ! 2) = None"
    using trace_command_ok [OF assms(1) i, of malloc_ok argv] by (auto simp: heap_trace_cli_handler_def)
  assume a: "ht_buf st = None \<and> record_size = 28 \<and> malloc_ok 24"
  with i have st: "ht_heap st = Map.empty" "\<not> running (ht_tracer st)" by (simp_all add: trace_inv_def)
  let ?b = "ht_next st" and ?n = "153391690 :: u32"
  from tracer_worksD(1) [OF assms(1) st(2), of "Some (?b, ?n)"] obtain s1 where
    s1: "tr_init tr (Some (?b, ?n)) (ht_tracer st) = (ESP_OK, s1)" "registered s1 = Some (?b, ?n)" by blast
  from tracer_worksD(2) [OF assms(1) s1(2)] obtain s2 where s2: "tr_start tr s1 = (ESP_OK, s2)" "registered s2 = Some (?b, ?n)" "running s2" by auto
  have "trace_buf_size 28 ?n = 24" by (simp add: trace_buf_size_def)
  with a st s1 s2 show "\<exists>st' b. heap_trace_cli_handler tr record_size malloc_ok [''heap-trace'', ''start'', ''153391690''] st = Some (ESP_OK, st') \<and>
        registered (ht_tracer st') = Some (b, 153391690) \<and> running (ht_tracer st') \<and> ht_heap st' = [b \<mapsto> 24]"
    by (simp add: heap_trace_cli_handler_def atoi_samples cli_heap_trace_start_def trace_buffer_def Let_def)
qed

text \<open>The tracer as its documentation has it.\<close>

definition plain_tracer :: "((nat \<times> u32) option \<times> bool) tracer" where
  "plain_tracer = \<lparr>tr_init = (\<lambda>b s. if snd s then (ESP_ERR_INVALID_STATE, s) else (ESP_OK, (b, False))),
     tr_start = (\<lambda>s. case fst s of Some (b, n) \<Rightarrow> if n \<noteq> 0 then (ESP_OK, (fst s, True)) else (ESP_ERR_INVALID_STATE, s)
       | None \<Rightarrow> (ESP_ERR_INVALID_STATE, s)),
     tr_stop = (\<lambda>s. (if snd s then ESP_OK else ESP_ERR_INVALID_STATE, (fst s, False)))\<rparr>"

lemma plain_tracer_works: "tracer_works plain_tracer fst snd"
  by (auto simp: tracer_works_def plain_tracer_def split: option.split prod.split)

theorem heap_trace_safe_witness:
  "\<exists>st' b. heap_trace_cli_handler plain_tracer 28 (\<lambda>n. n < 1000) [''heap-trace'', ''start'', ''153391690'']
      \<lparr>ht_records = 0, ht_buf = None, ht_heap = Map.empty, ht_next = 0, ht_tracer = (None, False)\<rparr> = Some (ESP_OK, st') \<and>
    fst (ht_tracer st') = Some (b, 153391690) \<and> ht_heap st' = [b \<mapsto> 24]"
proof -
  let ?st = "\<lparr>ht_records = 0, ht_buf = None, ht_heap = Map.empty, ht_next = 0, ht_tracer = (None, False)\<rparr> :: ((nat \<times> u32) option \<times> bool) heap_trace"
  have "reach (trace_boot fst snd) (trace_step plain_tracer 28) ?st"
    by (rule reach.start) (simp add: trace_boot_def)
  from conjunct2 [OF conjunct2 [OF heap_trace_safe [OF plain_tracer_works this, of "\<lambda>n. n < 1000" "[]"]]] obtain st' b where
    "heap_trace_cli_handler plain_tracer 28 (\<lambda>n. n < 1000) [''heap-trace'', ''start'', ''153391690''] ?st = Some (ESP_OK, st')"
    "fst (ht_tracer st') = Some (b, 153391690)" "ht_heap st' = [b \<mapsto> 24]" by auto
  then show ?thesis by blast
qed

end
