(* ===== verification/Console_Cmds.thy ===== *)
theory Console_Cmds
  imports System_Ctrl Time_Sync Heap_Trace
begin

section \<open>Starting the console, and its commands\<close>

text \<open>
  \<open>components/rmaker_console\<close>: the console start of \<open>rmaker_console.c\<close> in both builds, the registration of the commands and their
  handlers (\<open>rmaker_common_cmds.c\<close>, as built with FreeRTOS statistics, heap tracing and IPv4). \<open>esp_console\<close> is the table of registered
  commands and the dispatch on the first word; whether it accepts a registration, the readings of FreeRTOS, the heap and lwIP are parameters. What
  is printed is a list of \<open>cli_out\<close>. A handler that returns -1 returns \<open>ESP_FAIL\<close>, which is -1.
\<close>

subsection \<open>The commands that print\<close>

record task_status =
  ts_name :: string
  ts_number :: int
  ts_priority :: int
  ts_stack :: u32

record sock_line =
  sl_fd :: int
  sl_type :: int
  sl_protocol :: string
  sl_local :: "string \<times> nat"
  sl_peer :: "(string \<times> nat) option"

datatype cli_out =
    Print_Uptime int
  | Print_Tasks "task_status list"
  | Print_Stats string
  | Print_Memory "(u32 \<times> u32) list"
  | Print_Socket sock_line
  | Print_Remaining int
  | Print_Local_Time bool string

text \<open>What the handlers read. The array that \<open>uxTaskGetSystemState\<close> fills has the length it is given.\<close>

record cli_env =
  ce_timer :: timer_env
  ce_time_us :: int
  ce_malloc :: "nat \<Rightarrow> bool"
  ce_buffer :: bool
  ce_task_count :: nat
  ce_system_state :: "nat \<Rightarrow> task_status list"
  ce_run_time_stats :: string
  ce_free :: "u32 \<times> u32 \<times> u32"
  ce_largest :: "u32 \<times> u32"
  ce_minimum :: "u32 \<times> u32"
  ce_sockname :: "int \<Rightarrow> (string \<times> nat) option"
  ce_sock_type :: "int \<Rightarrow> int"
  ce_peername :: "int \<Rightarrow> (string \<times> nat) option"
  ce_strftime :: string
  ce_isdst :: bool

definition uptime_ms :: "cli_env \<Rightarrow> int" where
  "uptime_ms env = ce_time_us env sdiv 1000"

definition up_time_cli_handler :: "cli_env \<Rightarrow> esp_err \<times> cli_out list" where
  "up_time_cli_handler env = (ESP_OK, [Print_Uptime (uptime_ms env)])"

text \<open>\<open>None\<close>: a row is read outside the array.\<close>

definition task_dump_cli_handler :: "cli_env \<Rightarrow> (esp_err \<times> cli_out list) option" where
  "task_dump_cli_handler env =
     (if \<not> ce_buffer env then Some (ESP_FAIL, [])
      else let rows = ce_system_state env (ce_task_count env)
           in if length rows > ce_task_count env then None else Some (ESP_OK, [Print_Tasks rows]))"

text \<open>\<open>vTaskGetRunTimeStats\<close> writes its text and a NUL into the buffer without knowing its size; \<open>None\<close> when it does not fit.\<close>

definition CPU_DUMP_LEN :: nat where "CPU_DUMP_LEN = 2 * 1024"

definition cpu_dump_cli_handler :: "cli_env \<Rightarrow> (esp_err \<times> cli_out list) option" where
  "cpu_dump_cli_handler env =
     (if \<not> ce_buffer env then Some (ESP_FAIL, [])
      else if length (ce_run_time_stats env) + 1 > CPU_DUMP_LEN then None
      else Some (ESP_OK, [Print_Stats (ce_run_time_stats env)]))"

text \<open>The free memory is that of byte-addressable memory less external RAM, read one after the other.\<close>

definition mem_dump_cli_handler :: "cli_env \<Rightarrow> esp_err \<times> cli_out list" where
  "mem_dump_cli_handler env =
     (case ce_free env of (all_free, spiram, spiram_again) \<Rightarrow>
        (ESP_OK, [Print_Memory [(all_free - spiram, spiram_again), ce_largest env, ce_minimum env]]))"

definition SOCK_STREAM :: int where "SOCK_STREAM = 1"
definition SOCK_DGRAM :: int where "SOCK_DGRAM = 2"

definition sock_protocol :: "int \<Rightarrow> string" where
  "sock_protocol t = (if t = SOCK_STREAM then ''tcp'' else if t = SOCK_DGRAM then ''udp'' else ''raw'')"

text \<open>The loop over the descriptors: the lines, and the number of sockets in use.\<close>

fun sock_dump_loop :: "cli_env \<Rightarrow> int \<Rightarrow> nat \<Rightarrow> cli_out list \<times> int" where
  "sock_dump_loop env i 0 = ([], 0)"
| "sock_dump_loop env i (Suc n) =
     (case sock_dump_loop env (i + 1) n of
        (outs, used) \<Rightarrow>
          (case ce_sockname env i of
             None \<Rightarrow> (outs, used)
           | Some addr \<Rightarrow>
               (Print_Socket \<lparr>sl_fd = i, sl_type = ce_sock_type env i, sl_protocol = sock_protocol (ce_sock_type env i), sl_local = addr,
                  sl_peer = ce_peername env i\<rparr> # outs, used + 1)))"

text \<open>\<open>offset\<close> and \<open>num_sockets\<close> are \<open>LWIP_SOCKET_OFFSET\<close> and \<open>MEMP_NUM_NETCONN\<close>.\<close>

definition sock_dump_cli_handler :: "cli_env \<Rightarrow> int \<Rightarrow> nat \<Rightarrow> esp_err \<times> cli_out list" where
  "sock_dump_cli_handler env offset num_sockets =
     (case sock_dump_loop env offset num_sockets of (outs, used) \<Rightarrow> (ESP_OK, outs @ [Print_Remaining (int num_sockets - used)]))"

text \<open>The flag says that the text was cut.\<close>

definition local_time_cli_handler :: "cli_env \<Rightarrow> esp_err \<times> cli_out list" where
  "local_time_cli_handler env =
     (case get_local_time_str (ce_strftime env) (ce_isdst env) 64 of
        (err, local_time) \<Rightarrow> (ESP_OK, [Print_Local_Time (err \<noteq> ESP_OK) local_time]))"

subsection \<open>The commands that change state\<close>

definition reboot_cli_handler :: "timer_env \<Rightarrow> sys_ctrl \<Rightarrow> sys_result" where
  "reboot_cli_handler env st = (case esp_rmaker_reboot env 0 st of (r, st', outs) \<Rightarrow> (map_option (\<lambda>_. ESP_OK) r, st', outs))"

definition RESET_DELAY :: i8 where "RESET_DELAY = 2"
definition REBOOT_DELAY :: i8 where "REBOOT_DELAY = 2"

definition reset_to_factory_handler :: "timer_env \<Rightarrow> sys_ctrl \<Rightarrow> sys_result" where
  "reset_to_factory_handler env st =
     (case esp_rmaker_factory_reset env RESET_DELAY REBOOT_DELAY st of (r, st', outs) \<Rightarrow> (map_option (\<lambda>_. ESP_OK) r, st', outs))"

text \<open>\<open>argv\<close> ends with NULL, so its third entry is NULL when there are two arguments.\<close>

definition tz_set_cli_handler :: "'s nvs_ops \<Rightarrow> string list \<Rightarrow> 's tz_state \<Rightarrow> esp_err \<times> 's tz_state" where
  "tz_set_cli_handler nv argv st =
     (if length argv < 2 then (ESP_ERR_INVALID_ARG, st)
      else if argv ! 1 = ''posix''
      then (if length argv > 2 then (ESP_OK, snd (time_set_timezone_posix nv (Some (argv ! 2)) st)) else (ESP_ERR_INVALID_ARG, st))
      else (ESP_OK, snd (time_set_timezone nv (Some (argv ! 1)) st)))"

subsection \<open>Registration\<close>

datatype cli_func = Reboot_Cli | Up_Time_Cli | Mem_Dump_Cli | Task_Dump_Cli | Cpu_Dump_Cli | Sock_Dump_Cli | Heap_Trace_Cli |
  Reset_To_Factory_Cli | Local_Time_Cli | Tz_Set_Cli

definition debug_commands :: "(string \<times> cli_func) list" where
  "debug_commands = [(''reboot'', Reboot_Cli), (''up-time'', Up_Time_Cli), (''mem-dump'', Mem_Dump_Cli), (''task-dump'', Task_Dump_Cli),
     (''cpu-dump'', Cpu_Dump_Cli), (''sock-dump'', Sock_Dump_Cli), (''heap-trace'', Heap_Trace_Cli)]"

text \<open>\<open>accepted\<close>: whether \<open>esp_console_cmd_register\<close> succeeds for a command. Its result is ignored.\<close>

type_synonym command_table = "string \<rightharpoonup> cli_func"

fun cmd_register_all :: "(string \<Rightarrow> bool) \<Rightarrow> (string \<times> cli_func) list \<Rightarrow> command_table \<Rightarrow> command_table" where
  "cmd_register_all accepted [] table = table"
| "cmd_register_all accepted ((name, func) # cmds) table =
     cmd_register_all accepted cmds (if accepted name then table(name \<mapsto> func) else table)"

definition register_reset_to_factory :: "(string \<Rightarrow> bool) \<Rightarrow> command_table \<Rightarrow> command_table" where
  "register_reset_to_factory accepted = cmd_register_all accepted [(''reset-to-factory'', Reset_To_Factory_Cli)]"

definition register_time_commands :: "(string \<Rightarrow> bool) \<Rightarrow> command_table \<Rightarrow> command_table" where
  "register_time_commands accepted = cmd_register_all accepted [(''local-time'', Local_Time_Cli), (''tz-set'', Tz_Set_Cli)]"

text \<open>The statics \<open>registered\<close> and \<open>cli_started\<close>, the table, and the tasks and REPL objects created so far.\<close>

record console =
  cs_started :: bool
  cs_registered :: bool
  cs_table :: command_table
  cs_tasks :: nat
  cs_repls :: nat

definition common_register_commands :: "(string \<Rightarrow> bool) \<Rightarrow> console \<Rightarrow> console" where
  "common_register_commands accepted cs =
     (if cs_registered cs then cs
      else cs\<lparr>cs_registered := True,
        cs_table := register_time_commands accepted (register_reset_to_factory accepted (cmd_register_all accepted debug_commands (cs_table cs)))\<rparr>)"

subsection \<open>Start\<close>

definition scli_init :: "bool \<Rightarrow> console \<Rightarrow> esp_err \<times> console" where
  "scli_init task_ok cs =
     (if cs_started cs then (ESP_OK, cs)
      else if \<not> task_ok then (ESP_ERR_NO_MEM, cs)
      else (ESP_OK, cs\<lparr>cs_started := True, cs_tasks := cs_tasks cs + 1\<rparr>))"

text \<open>The REPL build: \<open>channel_none\<close> is \<open>CONFIG_ESP_CONSOLE_NONE\<close>; the results of the two library calls.\<close>

definition scli_init_repl :: "bool \<Rightarrow> esp_err \<Rightarrow> esp_err \<Rightarrow> console \<Rightarrow> esp_err \<times> console" where
  "scli_init_repl channel_none new_repl start_repl cs =
     (if cs_started cs then (ESP_OK, cs)
      else if channel_none then (ESP_ERR_NOT_SUPPORTED, cs)
      else if new_repl \<noteq> ESP_OK then (new_repl, cs)
      else let cs' = cs\<lparr>cs_repls := cs_repls cs + 1\<rparr>
           in if start_repl \<noteq> ESP_OK then (start_repl, cs') else (ESP_OK, cs'\<lparr>cs_started := True, cs_tasks := cs_tasks cs' + 1\<rparr>))"

definition common_console_init :: "(console \<Rightarrow> esp_err \<times> console) \<Rightarrow> (string \<Rightarrow> bool) \<Rightarrow> console \<Rightarrow> esp_err \<times> console" where
  "common_console_init init accepted cs =
     (case init cs of (err, cs') \<Rightarrow> if err \<noteq> ESP_OK then (err, cs') else (ESP_OK, common_register_commands accepted cs'))"

subsection \<open>A device with a console\<close>

record ('s, 't) device =
  dv_console :: console
  dv_sys :: sys_ctrl
  dv_tz :: "'s tz_state"
  dv_trace :: "'t heap_trace"

text \<open>The tables and sizes fixed by the build: NVS, the tracer, the size of its records, the sockets, and what
  \<open>esp_console_run\<close> returns for a line that names no command.\<close>

record ('s, 't) build =
  bd_nvs :: "'s nvs_ops"
  bd_tracer :: "'t tracer"
  bd_record_size :: u32
  bd_sock_offset :: int
  bd_sockets :: nat
  bd_no_command :: esp_err

text \<open>The result of a handler; \<open>None\<close> in it is a restart, \<open>None\<close> outside it undefined behaviour.\<close>

type_synonym ('s, 't) cli_result = "(esp_err option \<times> ('s, 't) device \<times> sys_out list \<times> cli_out list) option"

definition printed :: "('s, 't) device \<Rightarrow> esp_err \<times> cli_out list \<Rightarrow> ('s, 't) cli_result" where
  "printed dv r = (case r of (err, outs) \<Rightarrow> Some (Some err, dv, [], outs))"

fun run_cli :: "('s, 't) build \<Rightarrow> cli_env \<Rightarrow> cli_func \<Rightarrow> string list \<Rightarrow> ('s, 't) device \<Rightarrow> ('s, 't) cli_result" where
  "run_cli bd env Reboot_Cli argv dv =
     (case reboot_cli_handler (ce_timer env) (dv_sys dv) of (r, st, outs) \<Rightarrow> Some (r, dv\<lparr>dv_sys := st\<rparr>, outs, []))"
| "run_cli bd env Up_Time_Cli argv dv = printed dv (up_time_cli_handler env)"
| "run_cli bd env Mem_Dump_Cli argv dv = printed dv (mem_dump_cli_handler env)"
| "run_cli bd env Task_Dump_Cli argv dv = Option.bind (task_dump_cli_handler env) (printed dv)"
| "run_cli bd env Cpu_Dump_Cli argv dv = Option.bind (cpu_dump_cli_handler env) (printed dv)"
| "run_cli bd env Sock_Dump_Cli argv dv = printed dv (sock_dump_cli_handler env (bd_sock_offset bd) (bd_sockets bd))"
| "run_cli bd env Heap_Trace_Cli argv dv =
     map_option (\<lambda>(err, st). (Some err, dv\<lparr>dv_trace := st\<rparr>, [], []))
       (heap_trace_cli_handler (bd_tracer bd) (bd_record_size bd) (ce_malloc env) argv (dv_trace dv))"
| "run_cli bd env Reset_To_Factory_Cli argv dv =
     (case reset_to_factory_handler (ce_timer env) (dv_sys dv) of (r, st, outs) \<Rightarrow> Some (r, dv\<lparr>dv_sys := st\<rparr>, outs, []))"
| "run_cli bd env Local_Time_Cli argv dv = printed dv (local_time_cli_handler env)"
| "run_cli bd env Tz_Set_Cli argv dv =
     (case tz_set_cli_handler (bd_nvs bd) argv (dv_tz dv) of (err, st) \<Rightarrow> Some (Some err, dv\<lparr>dv_tz := st\<rparr>, [], []))"

text \<open>What \<open>esp_console_run\<close> does with the words of a line: the function registered under the first, or nothing.\<close>

definition console_run :: "('s, 't) build \<Rightarrow> cli_env \<Rightarrow> string list \<Rightarrow> ('s, 't) device \<Rightarrow> ('s, 't) cli_result" where
  "console_run bd env argv dv =
     (case (if argv = [] then None else cs_table (dv_console dv) (hd argv)) of
        None \<Rightarrow> Some (Some (bd_no_command bd), dv, [], [])
      | Some func \<Rightarrow> run_cli bd env func argv dv)"

text \<open>Starts of the console in either build, and lines, in any order.\<close>

inductive console_step :: "('s, 't) build \<Rightarrow> ('s, 't) device \<Rightarrow> ('s, 't) device \<Rightarrow> bool" for bd where
  start_task: "common_console_init (scli_init task_ok) accepted (dv_console dv) = (err, cs) \<Longrightarrow> console_step bd dv (dv\<lparr>dv_console := cs\<rparr>)"
| start_repl: "common_console_init (scli_init_repl channel_none new_repl start_repl) accepted (dv_console dv) = (err, cs) \<Longrightarrow>
    console_step bd dv (dv\<lparr>dv_console := cs\<rparr>)"
| command: "console_run bd env argv dv = Some (Some err, dv', outs, prints) \<Longrightarrow> console_step bd dv dv'"

definition console_off :: console where
  "console_off = \<lparr>cs_started = False, cs_registered = False, cs_table = Map.empty, cs_tasks = 0, cs_repls = 0\<rparr>"

definition device_boot :: "('t \<Rightarrow> (nat \<times> u32) option) \<Rightarrow> ('t \<Rightarrow> bool) \<Rightarrow> ('s, 't) device \<Rightarrow> bool" where
  "device_boot registered running dv \<longleftrightarrow> dv_console dv = console_off \<and> trace_boot registered running (dv_trace dv)"

text \<open>The whole table of commands.\<close>

definition all_commands :: command_table where
  "all_commands = register_time_commands (\<lambda>_. True) (register_reset_to_factory (\<lambda>_. True) (cmd_register_all (\<lambda>_. True) debug_commands Map.empty))"

definition console_ok :: "console \<Rightarrow> bool" where
  "console_ok cs \<longleftrightarrow> cs_table cs \<subseteq>\<^sub>m all_commands \<and> (cs_registered cs \<longrightarrow> cs_started cs) \<and> (\<not> cs_registered cs \<longrightarrow> cs_table cs = Map.empty) \<and>
     cs_tasks cs = (if cs_started cs then 1 else 0)"

definition device_inv :: "('s, 't) build \<Rightarrow> ('t \<Rightarrow> (nat \<times> u32) option) \<Rightarrow> ('t \<Rightarrow> bool) \<Rightarrow> ('s, 't) device \<Rightarrow> bool" where
  "device_inv bd registered running dv \<longleftrightarrow> console_ok (dv_console dv) \<and> trace_inv registered running (bd_record_size bd) (dv_trace dv)"

lemma register_le:
  assumes "distinct (map fst cmds)" "fst ` set cmds \<inter> dom table = {}" "table \<subseteq>\<^sub>m table'"
  shows "cmd_register_all accepted cmds table \<subseteq>\<^sub>m cmd_register_all (\<lambda>_. True) cmds table'"
  using assms
proof (induction cmds arbitrary: table table')
  case (Cons c cmds)
  obtain name func where c: "c = (name, func)" by (rule prod.exhaust)
  have "table \<subseteq>\<^sub>m table'(name \<mapsto> func)" using Cons.prems by (auto simp: c map_le_def)
  moreover have "table(name \<mapsto> func) \<subseteq>\<^sub>m table'(name \<mapsto> func)" using Cons.prems by (auto simp: map_le_def)
  ultimately show ?case using Cons.prems Cons.IH by (auto simp: c)
qed simp

lemma register_append: "cmd_register_all accepted (xs @ ys) table = cmd_register_all accepted ys (cmd_register_all accepted xs table)"
  by (induction xs arbitrary: table) auto

definition command_list :: "(string \<times> cli_func) list" where
  "command_list = debug_commands @ [(''reset-to-factory'', Reset_To_Factory_Cli)] @ [(''local-time'', Local_Time_Cli), (''tz-set'', Tz_Set_Cli)]"

lemma register_command_list:
  "register_time_commands accepted (register_reset_to_factory accepted (cmd_register_all accepted debug_commands table)) =
    cmd_register_all accepted command_list table"
  by (simp add: register_time_commands_def register_reset_to_factory_def command_list_def flip: register_append)

lemma command_list_distinct: "distinct (map fst command_list)"
  by (simp add: command_list_def debug_commands_def)

lemma register_some: "cmd_register_all accepted cmds table name = Some func \<Longrightarrow> (name, func) \<in> set cmds \<or> table name = Some func"
proof (induction cmds arbitrary: table)
  case (Cons c cmds)
  obtain a b where c: "c = (a, b)" by (rule prod.exhaust)
  from Cons.IH [of "if accepted a then table(a \<mapsto> b) else table"] Cons.prems show ?case
    by (auto simp: c split: if_splits)
qed simp

lemma all_commands_mem: "all_commands name = Some func \<Longrightarrow> (name, func) \<in> set command_list"
  unfolding all_commands_def register_command_list by (drule register_some) simp

lemma console_register_ok: "console_ok cs \<Longrightarrow> cs_started cs \<Longrightarrow> console_ok (common_register_commands accepted cs)"
  using register_le [OF command_list_distinct, of Map.empty Map.empty accepted]
  by (auto simp: console_ok_def common_register_commands_def register_command_list all_commands_def)

lemma console_init_ok:
  assumes "console_ok cs" and "\<And>err cs'. init cs = (err, cs') \<Longrightarrow> console_ok cs' \<and> (err = ESP_OK \<longrightarrow> cs_started cs')"
  shows "console_ok (snd (common_console_init init accepted cs))"
  using assms console_register_ok by (auto simp: common_console_init_def split: prod.split)

lemma scli_init_ok: "console_ok cs \<Longrightarrow> scli_init task_ok cs = (err, cs') \<Longrightarrow> console_ok cs' \<and> (err = ESP_OK \<longrightarrow> cs_started cs')"
  by (auto simp: scli_init_def console_ok_def split: if_splits)

lemma scli_init_repl_ok:
  "console_ok cs \<Longrightarrow> scli_init_repl none new start cs = (err, cs') \<Longrightarrow> console_ok cs' \<and> (err = ESP_OK \<longrightarrow> cs_started cs')"
  by (auto simp: scli_init_repl_def console_ok_def Let_def split: if_splits)

text \<open>What a command may change, by the function that runs.\<close>

lemma run_cli_frame:
  assumes "run_cli bd env func argv dv = Some (r, dv', outs, prints)"
  shows "dv_console dv' = dv_console dv \<and> (dv_sys dv' \<noteq> dv_sys dv \<longrightarrow> func = Reset_To_Factory_Cli) \<and>
    (dv_tz dv' \<noteq> dv_tz dv \<longrightarrow> func = Tz_Set_Cli) \<and> (dv_trace dv' \<noteq> dv_trace dv \<longrightarrow> func = Heap_Trace_Cli) \<and>
    (r = None \<longrightarrow> func = Reboot_Cli \<and> outs = [Out_Event (EV_REBOOT 0), Out_Restart]) \<and>
    (outs \<noteq> [] \<longrightarrow> func = Reboot_Cli \<or> func = Reset_To_Factory_Cli)"
  using assms
  by (cases func) (auto simp: printed_def up_time_cli_handler_def mem_dump_cli_handler_def sock_dump_cli_handler_def local_time_cli_handler_def
    reboot_cli_handler_def esp_rmaker_reboot_def reset_to_factory_handler_def esp_rmaker_factory_reset_def start_reset_timer_def RESET_DELAY_def
    split: prod.splits option.splits if_splits bind_splits)

lemma run_cli_fault:
  "run_cli bd env func argv dv = None \<longleftrightarrow>
    func = Heap_Trace_Cli \<and> heap_trace_cli_handler (bd_tracer bd) (bd_record_size bd) (ce_malloc env) argv (dv_trace dv) = None \<or>
    func = Cpu_Dump_Cli \<and> ce_buffer env \<and> length (ce_run_time_stats env) \<ge> CPU_DUMP_LEN \<or>
    func = Task_Dump_Cli \<and> ce_buffer env \<and> length (ce_system_state env (ce_task_count env)) > ce_task_count env"
  by (cases func) (auto simp: printed_def cpu_dump_cli_handler_def task_dump_cli_handler_def Let_def split: prod.splits option.splits)


lemma device_inv_preserved:
  assumes t: "tracer_works (bd_tracer bd) registered running" and "console_step bd dv dv'" and i: "device_inv bd registered running dv"
  shows "device_inv bd registered running dv'"
  using assms(2)
proof cases
  case (start_task task_ok accepted err cs)
  from i have c: "console_ok (dv_console dv)" by (simp add: device_inv_def)
  have "console_ok (snd (common_console_init (scli_init task_ok) accepted (dv_console dv)))"
    by (rule console_init_ok [OF c]) (rule scli_init_ok [OF c])
  with start_task i show ?thesis by (simp add: device_inv_def)
next
  case (start_repl channel_none new_repl start_repl accepted err cs)
  from i have c: "console_ok (dv_console dv)" by (simp add: device_inv_def)
  have "console_ok (snd (common_console_init (scli_init_repl channel_none new_repl start_repl) accepted (dv_console dv)))"
    by (rule console_init_ok [OF c]) (rule scli_init_repl_ok [OF c])
  with start_repl i show ?thesis by (simp add: device_inv_def)
next
  case (command env argv err outs prints)
  show ?thesis
  proof (cases "if argv = [] then None else cs_table (dv_console dv) (hd argv)")
    case None
    with command i show ?thesis by (simp add: console_run_def)
  next
    case (Some func)
    with command have r: "run_cli bd env func argv dv = Some (Some err, dv', outs, prints)" by (simp add: console_run_def)
    note f = run_cli_frame [OF r]
    have "trace_inv registered running (bd_record_size bd) (dv_trace dv')"
    proof (cases "func = Heap_Trace_Cli")
      case True
      with r trace_command_ok [OF t, of "bd_record_size bd" "dv_trace dv" "ce_malloc env" argv] i show ?thesis
        by (auto simp: device_inv_def)
    next
      case False
      with f i show ?thesis by (auto simp: device_inv_def)
    qed
    with f i show ?thesis by (simp add: device_inv_def)
  qed
qed

interpretation console: inductive_invariant "\<lambda>dv. tracer_works (bd_tracer bd) registered running \<and> device_boot registered running dv"
    "console_step bd" "\<lambda>dv. tracer_works (bd_tracer bd) registered running \<and> device_inv bd registered running dv" for bd registered running
  by unfold_locales (auto simp: device_boot_def device_inv_def trace_boot_def trace_inv_def console_off_def console_ok_def dest: device_inv_preserved)

lemma console_reach:
  "tracer_works (bd_tracer bd) registered running \<Longrightarrow> reach (device_boot registered running) (console_step bd) dv \<Longrightarrow>
    device_inv bd registered running dv"
  using console.reachable [of bd registered running dv] by simp


text \<open>A device that has started its console, where the run-time statistics have 3000 characters.\<close>

definition sample_build :: "(string \<Rightarrow> string option, (nat \<times> u32) option \<times> bool) build" where
  "sample_build = \<lparr>bd_nvs = sample_nvs, bd_tracer = plain_tracer, bd_record_size = 28, bd_sock_offset = 54, bd_sockets = 10,
     bd_no_command = ESP_FAIL\<rparr>"

definition sample_env :: cli_env where
  "sample_env = \<lparr>ce_timer = \<lparr>te_tick_ms = 10, te_create = True, te_start = True, te_calloc = True\<rparr>, ce_time_us = 0, ce_malloc = (\<lambda>_. True),
     ce_buffer = True, ce_task_count = 0, ce_system_state = (\<lambda>_. []), ce_run_time_stats = replicate 3000 CHR ''x'', ce_free = (0, 0, 0),
     ce_largest = (0, 0), ce_minimum = (0, 0), ce_sockname = (\<lambda>_. None), ce_sock_type = (\<lambda>_. 0), ce_peername = (\<lambda>_. None),
     ce_strftime = [], ce_isdst = False\<rparr>"

definition sample_device :: "console \<Rightarrow> (string \<Rightarrow> string option, (nat \<times> u32) option \<times> bool) device" where
  "sample_device cs = \<lparr>dv_console = cs, dv_sys = powered_on, dv_tz = \<lparr>tz_nvs = (\<lambda>_. None), tz_env = None, tz_posted = []\<rparr>,
     dv_trace = \<lparr>ht_records = 0, ht_buf = None, ht_heap = Map.empty, ht_next = 0, ht_tracer = (None, False)\<rparr>\<rparr>"


end
