(* ===== verification/Ppi_String.thy ===== *)
theory Ppi_String
  imports Aws_Text
begin

section \<open>The platform identification sent as MQTT user name\<close>

text \<open>
  \<open>src/create_APN3_PPI_string.c\<close>: the check of the platform fields and the string built from them. The three \<open>platform_get_\<close>
  functions are weak; the model takes what they return. The radio that gives the MAC address is a parameter.
\<close>

definition MAX_PPI_STRING_LEN :: nat where "MAX_PPI_STRING_LEN = 64"
definition MAX_LEN_FIELDS_1_2_3 :: nat where "MAX_LEN_FIELDS_1_2_3 = 37"
definition PPI_PREFIX_1 :: string where "PPI_PREFIX_1 = ''?''"
definition PPI_PREFIX_2 :: string where "PPI_PREFIX_2 = ''Platform=APN3|''"
definition PPI_RESERVED :: string where "PPI_RESERVED = ''A0|''"
definition PPI_PLATFORM :: string where "PPI_PLATFORM = ''RM|''"
definition PPI_SEPARATOR :: string where "PPI_SEPARATOR = ''|''"

text \<open>The default UID: the MAC address as \<open>%02X\<close>, NULL when the radio does not give it, empty in a build without a radio.\<close>

definition mac_text :: "bytes \<Rightarrow> string" where
  "mac_text mac = concat (map (\<lambda>b. [HEXU ! (unat b div 16), HEXU ! (unat b mod 16)]) mac)"

datatype mac_source = No_Radio | Radio "bytes option"

fun platform_get_product_UID :: "mac_source \<Rightarrow> string option" where
  "platform_get_product_UID No_Radio = Some []"
| "platform_get_product_UID (Radio mac) = map_option mac_text mac"

definition skutable :: "string list" where
  "skutable = [''ES00'', ''EX00'', ''EX01'', ''EX02'', ''EX03'', ''EX04'', ''EX05'', ''EX06'']"

fun sku_search :: "string list \<Rightarrow> string \<Rightarrow> bool" where
  "sku_search [] sku = False"
| "sku_search (p # ps) sku = (if p = sku then True else sku_search ps sku)"

definition validate_sku_code :: "string \<Rightarrow> bool" where
  "validate_sku_code sku = sku_search skutable sku"

definition validate_platform_inputs :: "string option \<Rightarrow> string option \<Rightarrow> string option \<Rightarrow> string \<Rightarrow> bool" where
  "validate_platform_inputs product_name product_uid product_version sku =
     (case (product_name, product_uid, product_version) of
        (Some n, Some u, Some v) \<Rightarrow> if length n + length u + length v \<le> MAX_LEN_FIELDS_1_2_3 then validate_sku_code sku else False
      | _ \<Rightarrow> False)"

text \<open>\<open>snprintf\<close> into the static buffer of \<open>MAX_PPI_STRING_LEN + 1\<close> bytes.\<close>

definition create_APN_PPI_string :: "string option \<Rightarrow> string option \<Rightarrow> string option \<Rightarrow> string \<Rightarrow> string option" where
  "create_APN_PPI_string product_name product_uid product_version sku =
     (if validate_platform_inputs product_name product_uid product_version sku
      then Some (take MAX_PPI_STRING_LEN (concat [PPI_PREFIX_1, PPI_PREFIX_2, PPI_RESERVED, PPI_PLATFORM, sku, PPI_SEPARATOR,
             the product_name, PPI_SEPARATOR, the product_version, PPI_SEPARATOR, the product_uid]))
      else None)"

definition esp_get_aws_ppi :: "string option \<Rightarrow> string option \<Rightarrow> string option \<Rightarrow> string \<Rightarrow> string option" where
  "esp_get_aws_ppi product_name product_uid product_version sku = create_APN_PPI_string product_name product_uid product_version sku"

subsection \<open>What the broker can read back\<close>

definition ppi_fields :: "string \<Rightarrow> string \<Rightarrow> string \<Rightarrow> string \<Rightarrow> string list" where
  "ppi_fields n u v sku = [''?Platform=APN3'', ''A0'', ''RM'', sku, n, v, u]"

lemma sku_search_mem: "sku_search ps sku \<longleftrightarrow> sku \<in> set ps"
  by (induction ps) auto

lemma sku_props: "validate_sku_code sku \<Longrightarrow> length sku = 4 \<and> CHR ''|'' \<notin> set sku"
  by (auto simp: validate_sku_code_def sku_search_mem skutable_def)

lemma ppi_text:
  "concat [PPI_PREFIX_1, PPI_PREFIX_2, PPI_RESERVED, PPI_PLATFORM, sku, PPI_SEPARATOR, n, PPI_SEPARATOR, v, PPI_SEPARATOR, u] =
     join_with CHR ''|'' (ppi_fields n u v sku)"
  by (simp add: ppi_fields_def PPI_PREFIX_1_def PPI_PREFIX_2_def PPI_RESERVED_def PPI_PLATFORM_def PPI_SEPARATOR_def)

lemma ppi_text_length: "length sku = 4 \<Longrightarrow> length (join_with CHR ''|'' (ppi_fields n u v sku)) = 28 + (length n + length u + length v)"
  by (simp add: ppi_fields_def)

lemma mac_text_length: "length (mac_text mac) = 2 * length mac"
  by (induction mac) (simp_all add: mac_text_def)

lemma mac_text_Cons: "mac_text (b # mac) = HEXU ! (unat b div 16) # HEXU ! (unat b mod 16) # mac_text mac"
  by (simp add: mac_text_def)

lemma mac_text_inj: "mac_text mac = mac_text mac' \<Longrightarrow> mac = mac'"
proof (induction mac arbitrary: mac')
  case Nil
  then show ?case by (cases mac') (simp_all add: mac_text_def)
next
  case (Cons b mac)
  then obtain b' m' where m: "mac' = b' # m'" by (cases mac') (simp_all add: mac_text_def)
  have "unat x < 256" for x :: u8
  proof -
    have "int (unat x) \<le> 255" using uint_u8_le [of x] by simp
    then show ?thesis by linarith
  qed
  then have lt: "unat x div 16 < 16" "unat x mod 16 < 16" for x :: u8 by (simp_all add: less_mult_imp_div_less)
  from Cons.prems have e: "HEXU ! (unat b div 16) = HEXU ! (unat b' div 16)" "HEXU ! (unat b mod 16) = HEXU ! (unat b' mod 16)"
      "mac_text mac = mac_text m'"
    by (simp_all add: m mac_text_Cons)
  from arg_cong [OF e(1), of hex_val] arg_cong [OF e(2), of hex_val]
  have "unat b div 16 = unat b' div 16" "unat b mod 16 = unat b' mod 16" by (simp_all add: hexu_val lt)
  then have "unat b = unat b'" by (metis div_mult_mod_eq)
  then have "b = b'" by (simp only: word_unat_eq_iff)
  then show ?case using Cons.IH [OF e(3)] m by simp
qed

lemma ppi_valid:
  "create_APN_PPI_string (Some n) (Some u) (Some v) sku = Some s \<Longrightarrow>
    validate_sku_code sku \<and> length n + length u + length v \<le> 37 \<and> s = take 64 (join_with CHR ''|'' (ppi_fields n u v sku))"
  by (auto simp: create_APN_PPI_string_def validate_platform_inputs_def MAX_LEN_FIELDS_1_2_3_def MAX_PPI_STRING_LEN_def
      ppi_text simp del: concat.simps split: if_splits)

lemma ppi_made:
  "validate_sku_code sku \<Longrightarrow> length n + length u + length v \<le> 37 \<Longrightarrow>
    create_APN_PPI_string (Some n) (Some u) (Some v) sku = Some (take 64 (join_with CHR ''|'' (ppi_fields n u v sku)))"
  by (simp add: create_APN_PPI_string_def validate_platform_inputs_def MAX_LEN_FIELDS_1_2_3_def MAX_PPI_STRING_LEN_def
      ppi_text del: concat.simps)

lemma ppi_last: "join_with CHR ''|'' (ppi_fields n (w @ [x]) v sku) = join_with CHR ''|'' (ppi_fields n w v sku) @ [x]"
  by (simp add: ppi_fields_def)

lemma ppi_cut:
  assumes "validate_sku_code sku" and "length n + length (w @ [c]) + length v = 37"
  shows "create_APN_PPI_string (Some n) (Some (w @ [d])) (Some v) sku = Some (take 64 (join_with CHR ''|'' (ppi_fields n (w @ [c]) v sku)))"
proof -
  have "length (join_with CHR ''|'' (ppi_fields n w v sku)) = 64"
    using assms sku_props [of sku] ppi_text_length [of sku n w v] by simp
  then show ?thesis using assms by (simp add: ppi_made ppi_last)
qed

lemma ppi_split:
  "validate_sku_code sku \<Longrightarrow> CHR ''|'' \<notin> set n \<union> set u \<union> set v \<Longrightarrow>
    split_on CHR ''|'' (join_with CHR ''|'' (ppi_fields n u v sku)) = ppi_fields n u v sku"
  using sku_props [of sku] by (intro split_join) (auto simp: ppi_fields_def)

text \<open>C39.
  The string is built exactly when the three fields are given, their lengths add up to at most 37 and the SKU code is in the table. Up to 36
  it is complete: splitting it at the separators gives the fields back (when they hold no separator), so two devices with different MAC addresses
  get different strings. At exactly 37, which the check lets through, the string needs 65 characters and the last one is dropped: two UIDs
  that differ only in their last character give the same string.\<close>

theorem ppi_string_complete:
  "(create_APN_PPI_string n u v sku \<noteq> None \<longleftrightarrow>
     (\<exists>n' u' v'. n = Some n' \<and> u = Some u' \<and> v = Some v' \<and> length n' + length u' + length v' \<le> 37 \<and> sku \<in> set skutable)) \<and>
   (\<forall>s n' u' v'. create_APN_PPI_string n u v sku = Some s \<and> n = Some n' \<and> u = Some u' \<and> v = Some v' \<longrightarrow>
     (if length n' + length u' + length v' \<le> 36
      then s = join_with CHR ''|'' (ppi_fields n' u' v' sku) \<and>
        (CHR ''|'' \<notin> set n' \<union> set u' \<union> set v' \<longrightarrow> split_on CHR ''|'' s = ppi_fields n' u' v' sku)
      else s = butlast (join_with CHR ''|'' (ppi_fields n' u' v' sku)) \<and>
        (\<forall>w c d. u' = w @ [c] \<longrightarrow> create_APN_PPI_string n (Some (w @ [d])) v sku = Some s))) \<and>
   (\<forall>m m'. platform_get_product_UID (Radio (Some m)) = platform_get_product_UID (Radio (Some m')) \<longrightarrow> m = m')"
proof -
  have some: "create_APN_PPI_string n u v sku \<noteq> None \<longleftrightarrow>
     (\<exists>n' u' v'. n = Some n' \<and> u = Some u' \<and> v = Some v' \<and> length n' + length u' + length v' \<le> 37 \<and> sku \<in> set skutable)"
    by (auto simp: create_APN_PPI_string_def validate_platform_inputs_def validate_sku_code_def sku_search_mem MAX_LEN_FIELDS_1_2_3_def
        split: option.splits if_splits)
  have "if length n' + length u' + length v' \<le> 36
      then s = join_with CHR ''|'' (ppi_fields n' u' v' sku) \<and>
        (CHR ''|'' \<notin> set n' \<union> set u' \<union> set v' \<longrightarrow> split_on CHR ''|'' s = ppi_fields n' u' v' sku)
      else s = butlast (join_with CHR ''|'' (ppi_fields n' u' v' sku)) \<and>
        (\<forall>w c d. u' = w @ [c] \<longrightarrow> create_APN_PPI_string n (Some (w @ [d])) v sku = Some s)"
    if s: "create_APN_PPI_string n u v sku = Some s" and f: "n = Some n'" "u = Some u'" "v = Some v'" for s n' u' v'
  proof -
    note v = ppi_valid [OF s [unfolded f]]
    then have len: "length (join_with CHR ''|'' (ppi_fields n' u' v' sku)) = 28 + (length n' + length u' + length v')"
      using ppi_text_length sku_props by blast
    show ?thesis
    proof (cases "length n' + length u' + length v' \<le> 36")
      case True
      then show ?thesis using v len ppi_split [of sku n' u' v'] by simp
    next
      case False
      then have "length (join_with CHR ''|'' (ppi_fields n' u' v' sku)) = 65" using v len by simp
      then have "butlast (join_with CHR ''|'' (ppi_fields n' u' v' sku)) = s" using v by (simp add: butlast_conv_take)
      with False show ?thesis using v len ppi_cut [of sku n' _ _ v'] f by auto
    qed
  qed
  with some show ?thesis by (auto dest: mac_text_inj)
qed

theorem ppi_string_complete_witness:
  "create_APN_PPI_string (Some ''RMDev'') (Some ''0123456789AB'') (Some ''1x0'') ''EX00'' =
     Some ''?Platform=APN3|A0|RM|EX00|RMDev|1x0|0123456789AB''"
  using ppi_string_complete [of "Some ''RMDev''" "Some ''0123456789AB''" "Some ''1x0''" "''EX00''"]
  by (auto simp add: skutable_def ppi_fields_def)

end
