(* ===== verification/Factory_Store.thy ===== *)
theory Factory_Store
  imports Rmk_Prelude
begin

section \<open>The factory partition\<close>

text \<open>
  \<open>src/factory.c\<close>: values that were written at the factory, read back with a terminator. NVS is a parameter acting on a store of
  type \<open>'s\<close>; the namespace and partition names are part of it.
\<close>

record 's factory_nvs =
  fn_init :: "'s \<Rightarrow> esp_err \<times> 's"
  fn_open :: "bool \<Rightarrow> 's \<Rightarrow> esp_err"
  fn_size :: "string \<Rightarrow> 's \<Rightarrow> esp_err \<times> nat"
  fn_read :: "string \<Rightarrow> 's \<Rightarrow> bytes option"
  fn_set :: "string \<Rightarrow> bytes \<Rightarrow> 's \<Rightarrow> esp_err \<times> 's"
  fn_commit :: "'s \<Rightarrow> esp_err \<times> 's"

text \<open>The keys of an encrypted partition: \<open>fs_keys\<close> is \<open>None\<close> when there is no such partition, otherwise the result of reading them.\<close>

record factory_env =
  fs_encrypted :: bool
  fs_keys :: "esp_err option"
  fs_calloc :: "nat \<Rightarrow> bool"

definition esp_rmaker_factory_init :: "'s factory_nvs \<Rightarrow> factory_env \<Rightarrow> bool \<times> 's \<Rightarrow> esp_err \<times> bool \<times> 's" where
  "esp_rmaker_factory_init nv env st =
     (case st of (init_done, s) \<Rightarrow>
        if init_done then (ESP_OK, True, s)
        else if fs_encrypted env \<and> fs_keys env = None then (ESP_FAIL, False, s)
        else if fs_encrypted env \<and> the (fs_keys env) \<noteq> ESP_OK then (the (fs_keys env), False, s)
        else case fn_init nv s of (err, s') \<Rightarrow> (err, err = ESP_OK, s'))"

text \<open>The zeroed block of one byte more than the value; a second read that fails leaves it zeroed.\<close>

definition esp_rmaker_factory_get :: "'s factory_nvs \<Rightarrow> factory_env \<Rightarrow> string \<Rightarrow> 's \<Rightarrow> bytes option" where
  "esp_rmaker_factory_get nv env key s =
     (if fn_open nv False s \<noteq> ESP_OK then None
      else case fn_size nv key s of (err, required_size) \<Rightarrow>
        if err \<noteq> ESP_OK then None
        else if \<not> fs_calloc env (required_size + 1) then None
        else Some (case fn_read nv key s of None \<Rightarrow> replicate (required_size + 1) 0 | Some v \<Rightarrow> v @ [0]))"

definition esp_rmaker_factory_get_size :: "'s factory_nvs \<Rightarrow> string \<Rightarrow> 's \<Rightarrow> nat" where
  "esp_rmaker_factory_get_size nv key s =
     (if fn_open nv False s \<noteq> ESP_OK then 0 else case fn_size nv key s of (err, required_size) \<Rightarrow> if err \<noteq> ESP_OK then 0 else required_size)"

definition esp_rmaker_factory_set :: "'s factory_nvs \<Rightarrow> string \<Rightarrow> bytes \<Rightarrow> 's \<Rightarrow> esp_err \<times> 's" where
  "esp_rmaker_factory_set nv key v s =
     (if fn_open nv True s \<noteq> ESP_OK then (ESP_FAIL, s)
      else case fn_set nv key v s of (err, s1) \<Rightarrow>
        if err \<noteq> ESP_OK then (ESP_FAIL, s1) else (ESP_OK, snd (fn_commit nv s1)))"

text \<open>NVS as documented: a value that was set and committed is what its key reads, with its size, and other keys do not change.\<close>

definition factory_nvs_works :: "'s factory_nvs \<Rightarrow> bool" where
  "factory_nvs_works nv \<longleftrightarrow> (\<forall>key v s s1 s2. fn_set nv key v s = (ESP_OK, s1) \<and> fn_commit nv s1 = (ESP_OK, s2) \<longrightarrow>
     (\<forall>k. fn_read nv k s2 = (if k = key then Some v else fn_read nv k s) \<and>
       fn_size nv k s2 = (if k = key then (ESP_OK, length v) else fn_size nv k s)) \<and> fn_open nv False s2 = ESP_OK)"

lemma factory_get_length:
  "esp_rmaker_factory_get nv env key s = Some b \<Longrightarrow>
    (\<And>v. fn_read nv key s = Some v \<Longrightarrow> fn_size nv key s = (ESP_OK, length v)) \<Longrightarrow>
    length b = esp_rmaker_factory_get_size nv key s + 1 \<and> last b = 0"
  by (auto simp: esp_rmaker_factory_get_def esp_rmaker_factory_get_size_def split: if_splits option.splits prod.splits
      simp flip: replicate_append_same)

lemma factory_set_get:
  assumes "factory_nvs_works nv" and "esp_rmaker_factory_set nv key v s = (ESP_OK, s')"
    and "\<And>t. fst (fn_commit nv t) = ESP_OK" and "\<And>n. fs_calloc env n"
  shows "esp_rmaker_factory_get nv env key s' = Some (v @ [0]) \<and> esp_rmaker_factory_get_size nv key s' = length v"
proof -
  from assms(2) obtain s1 where s: "fn_set nv key v s = (ESP_OK, s1)" "s' = snd (fn_commit nv s1)"
    by (auto simp: esp_rmaker_factory_set_def split: if_splits prod.splits)
  then have "fn_commit nv s1 = (ESP_OK, s')" using assms(3) by (metis prod.collapse)
  with assms(1) s(1) show ?thesis
    by (auto simp: factory_nvs_works_def esp_rmaker_factory_get_def esp_rmaker_factory_get_size_def assms(4))
qed

end
