(* ===== verification/Spec2Isabelle.thy ===== *)
theory Spec2Isabelle
  imports Cmd_Resp Mqtt_Queue Mqtt_Life Aws_Tasks Aws_Wire Aws_Memory Esp_System Console_Line Console_Cmds
    Ppi_String Factory_Store
begin

text \<open>
  Verification library for the common components of ESP RainMaker (\<open>esp-rainmaker-common\<close>): the C code under \<open>src/components\<close> and
  \<open>src/src\<close> as HOL definitions, and the theorems that make it correct or show where it is not.

  \<^bold>\<open>The program.\<close> A RainMaker node keeps one MQTT connection (\<open>src/esp-mqtt/esp-mqtt-glue.c\<close>), over which it receives
  command requests and sends responses (\<open>rmaker_cmd_resp\<close>, TLV8 messages). Work that must leave the MQTT task goes to a work queue
  (\<open>rmaker_work_queue\<close>). Calls to AWS services are signed with SigV4 (\<open>rmaker_aws_sign\<close>) by credentials fetched over mTLS; everything this
  component needs of the platform enters through an installed port, whose default is \<open>port/esp\<close>. Time comes from SNTP and a time zone database
  (\<open>rmaker_time_sync\<close>), reboot and resets from \<open>rmaker_system_ctrl\<close>, and a serial console (\<open>rmaker_console\<close>) reaches these two and prints the state of the device.
  \<open>src/factory.c\<close> reads what was written at the factory and \<open>src/create_APN3_PPI_string.c\<close> makes the MQTT user name.

  \<^bold>\<open>Conventions.\<close> A struct is a \<open>record\<close>, an enum a \<open>datatype\<close>, and a definition has the name of the C function, or of the
  part of it that its map entry names. Error codes are \<open>esp_err\<close>; NULL is \<open>None\<close>. Where a C function can leave its memory, read what was never
  written, or not return, its model returns an \<open>option\<close> and \<open>None\<close> is that fault: a theorem that says \<open>Some\<close> is one of memory safety
  and termination. Integers whose width matters are words; \<open>size_t\<close> and \<open>int\<close> conversions are \<open>usize\<close> and \<open>c_int\<close> (32-bit
  targets). Code that is not in the repository (FreeRTOS, esp-mqtt, \<open>esp_http_client\<close>, cJSON, NVS, PSA crypto) is a parameter: a record of
  functions acting on a world, with its documented behaviour as a named predicate (\<open>fifo_queue\<close>, \<open>client_reads\<close>, \<open>nvs_works\<close>, \<open>replies_ok\<close>,
  \<open>factory_nvs_works\<close>, \<open>tracer_works\<close>, \<open>mutexes_work\<close>) that each witness discharges on a concrete instance.

  \<^bold>\<open>Shared theories.\<close> \<open>Rmk_Prelude\<close>: words, error codes, checked memory, slot tables. \<open>Keyed_Table\<close>: the interface of a bounded
  table with unique keys, as a locale with its runs. \<open>State_Machine\<close>: reachable states and the locale of inductive invariants, interpreted by
  every component that interleaves (\<open>Work_Queue\<close>, \<open>Mqtt_Retry\<close>, \<open>Mqtt_Queue\<close>, \<open>Mqtt_Life\<close>, \<open>Aws_Port\<close>,
  \<open>Aws_Tasks\<close>, \<open>System_Ctrl\<close>, \<open>Heap_Trace\<close>, \<open>Console_Cmds\<close>).

  \<^bold>\<open>Commands.\<close> \<open>Tlv\<close> models the decoders, the encoder and the size estimate of \<open>cmd_resp.c\<close>: round trip on any stream of
  distinct types, safety on any input. \<open>Cmd_Resp\<close> models the payload builder, the command table (a refinement of a bounded map), the
  dispatcher and the test functions: what reaches a handler, who may run it, what is answered otherwise, and safety on arbitrary input.

  \<^bold>\<open>Work queue.\<close> \<open>Work_Queue\<close> models \<open>work_queue.c\<close>: the worker as a step function over its program points, the control
  operations cut where another task can run, and their interleaving \<open>wq_step\<close>. Order and exactly-once execution, one worker, a \<open>deinit\<close> that
  returns, and the window in which a stop is lost.

  \<^bold>\<open>MQTT.\<close> \<open>Mqtt_Glue\<close> holds the state of the glue and its operations; \<open>Mqtt_Topic\<close> the topic matcher against level-wise matching;
  \<open>Mqtt_Sub\<close> subscriptions, SUBACK order, re-subscription and long messages; \<open>Mqtt_Retry\<close> the retry invariant over all events;
  \<open>Mqtt_Queue\<close> the same glue with its rounds handed to the work queue, the two interleaved;
  \<open>Mqtt_Life\<close> init, connect, update and a \<open>deinit\<close> that interleaves with operations.

  \<^bold>\<open>AWS signing.\<close> \<open>Aws_Encode\<close>, \<open>Aws_Text\<close>: the bounded output sink, hex, URI encoding, path normalisation and header trimming,
  with their functional specifications. \<open>Aws_Headers\<close>: header collection, sorting and the canonical query. \<open>Aws_Crypto\<close>: the ESP port's SHA-256
  and HMAC, the latter proved to be RFC 2104 over any hash with a 64-byte block. \<open>Aws_Time\<close>: calendar conversions. \<open>Aws_Sigv4\<close>: the signer,
  proved equal to a SigV4 specification written on its own, and presigned URLs. \<open>Aws_Accum\<close>: the response buffer. \<open>Aws_Creds\<close>: handles,
  credential responses, fetch and refresh. \<open>Aws_Request\<close>: the pooled connection and the request loop; \<open>Aws_Wire\<close>: the headers
  that it sends and leaves behind. \<open>Aws_Locks\<close>: the calls as programs of locks, field accesses
  and outside work, each proved equal to its sequential operation when it runs alone. \<open>Aws_Tasks\<close>: their interleaving by any number of
  tasks; the locking discipline, and from it no race, no deadlock, and credentials that match host and region. \<open>Aws_Memory\<close>: the same calls cut down to what they allocate, use and release;
  no leak and no use after free for any sequence of calls and failures. \<open>Aws_Port\<close>: validation and concurrent
  installation of the port. \<open>Esp_Http\<close>, \<open>Esp_Json\<close>: the ESP port's HTTP and JSON operations; \<open>Esp_Port\<close>: the tables they form, the
  default port, and a credential fetch over it from the mTLS connection to the stored credentials. \<open>Esp_System\<close>: its memory, mutexes and log;
  the mutexes take the lock steps that \<open>Aws_Locks\<close> assumes.

  \<^bold>\<open>Time, system, console.\<close> \<open>Tz_Db\<close>: the whole time zone table, its order under the comparison and the binary search.
  \<open>Time_Sync\<close>: \<open>rmaker_timegm\<close>, the ISO 8601 parser, time zone storage and the wait for synchronisation. \<open>System_Ctrl\<close>: timers and calls
  of the resets. \<open>Console_Line\<close>: the line editor. \<open>Heap_Trace\<close>: the heap-trace command and its buffer. \<open>Console_Cmds\<close>: the start in both
  builds, the registration, every handler, and sessions of starts and lines on a device with its reset timer, time zone and trace. \<open>Ppi_String\<close>,
  \<open>Factory_Store\<close>: the two files named above.

  \<^bold>\<open>Bounds and fuel.\<close> Loops with a bound known from their arguments are \<open>fun\<close> or \<open>function\<close> with a measure;
  those without (\<open>grow_cap\<close>, \<open>wait_loop\<close>, \<open>read_loop\<close>) are \<open>partial_function (option)\<close> with a theorem that they return:
  doubling reaches any 32-bit size, the wait uses up its ticks, and the accumulator's limit ends a transfer. The one definition with fuel is
  the poll of \<open>esp_mqtt_glue_deinit\<close>, which other tasks end; \<open>glue_deinit_returns\<close> says how much is enough once they have.

  \<^bold>\<open>Not modelled.\<close> Log output other than the calls of the signer's log function; the wiping of secrets; \<open>free\<close> outside \<open>Aws_Memory\<close>
  and \<open>Heap_Trace\<close>; the echo of the console and its stdin reader on Linux; the host builds for Linux, which print instead of acting; Kconfig switches other than the ones
  named in a theory; test applications.
\<close>

end
